(* ===== verification/Prelude.thy ===== *)
theory Prelude
  imports Main "HOL-Library.Word" "HOL-Library.AList"
begin

text \<open>
  Shared vocabulary of the development: Go's fixed-width integers and byte slices, the
  error values the components return, the parts of Go's standard library that the code
  uses on bytes (\<^verbatim>\<open>encoding/binary\<close>, \<^verbatim>\<open>hash/crc32\<close>, \<^verbatim>\<open>io.ReadFull\<close>, \<^verbatim>\<open>bytes.Compare\<close>),
  and the generic lemmas about them.

  An \<^verbatim>\<open>error\<close> value of Go is modelled by its \<^verbatim>\<open>errors.Cause\<close>: \<^verbatim>\<open>errors.Trace\<close> and
  \<^verbatim>\<open>errors.Annotate\<close> only add a stack or a text and keep a nil error nil. A function that
  returns \<^verbatim>\<open>(value, error)\<close> has type \<open>go_error + 'a\<close>; one that returns only \<^verbatim>\<open>error\<close> has
  type \<open>go_error option\<close>, \<open>None\<close> being nil. A run-time panic is the error \<open>Panic\<close>.
\<close>

unbundle bit_operations_syntax

named_theorems codec_simps \<open>equations that evaluate encoders and decoders\<close>

subsection \<open>Types\<close>

type_synonym byte = "8 word"
type_synonym bytes = "byte list"
type_synonym u32 = "32 word"
type_synonym u64 = "64 word"

datatype go_error =
    EOF                  \<comment> \<open>\<^verbatim>\<open>io.EOF\<close>\<close>
  | ErrUnexpectedEOF     \<comment> \<open>\<^verbatim>\<open>io.ErrUnexpectedEOF\<close>\<close>
  | ErrNegativeOffset    \<comment> \<open>\<^verbatim>\<open>ReadAt\<close> with a negative offset\<close>
  | ErrNotFound          \<comment> \<open>\<^verbatim>\<open>leveldb.ErrNotFound\<close> and \<^verbatim>\<open>errors.NotFoundf\<close>\<close>
  | ErrIO                \<comment> \<open>a system call failed\<close>
  | ErrMsg string        \<comment> \<open>\<^verbatim>\<open>errors.New\<close> or \<^verbatim>\<open>errors.Errorf\<close>\<close>
  | Panic string         \<comment> \<open>a run-time panic\<close>

text \<open>Signed 64-bit values are \<open>int\<close>; where an operation can leave the range, the result is wrapped.\<close>

definition wrap_int64 :: "int \<Rightarrow> int" where
  "wrap_int64 x = signed_take_bit 63 x"

definition int64_range :: "int \<Rightarrow> bool" where
  "int64_range x \<longleftrightarrow> - (2 ^ 63) \<le> x \<and> x < 2 ^ 63"

definition max_int64 :: int where
  "max_int64 = 2 ^ 63 - 1"

text \<open>\<^verbatim>\<open>uint64(x)\<close> of an \<^verbatim>\<open>int64\<close> and \<^verbatim>\<open>int64(w)\<close> of a \<^verbatim>\<open>uint64\<close>.\<close>

abbreviation u64_of_int64 :: "int \<Rightarrow> u64" where
  "u64_of_int64 x \<equiv> word_of_int x"

abbreviation int64_of_u64 :: "u64 \<Rightarrow> int" where
  "int64_of_u64 w \<equiv> sint w"

lemma wrap_int64_id [simp]: "int64_range x \<Longrightarrow> wrap_int64 x = x"
  by (simp add: wrap_int64_def int64_range_def signed_take_bit_int_eq_self)

lemma int64_u64_roundtrip [simp]: "int64_range x \<Longrightarrow> int64_of_u64 (u64_of_int64 x) = x"
  by (simp add: sint_uint word_of_int_inverse int64_range_def signed_take_bit_int_eq_self
      signed_take_bit_take_bit uint_word_of_int_eq)

lemma u64_of_int64_inject:
  "int64_range x \<Longrightarrow> int64_range y \<Longrightarrow> u64_of_int64 x = u64_of_int64 y \<longleftrightarrow> x = y"
  by (metis int64_u64_roundtrip)

lemma uint_u64_of_nonneg: "0 \<le> x \<Longrightarrow> int64_range x \<Longrightarrow> uint (u64_of_int64 x) = x"
  by (simp add: int64_range_def uint_word_of_int_eq take_bit_int_eq_self)

subsection \<open>\<^verbatim>\<open>encoding/binary\<close>\<close>

text \<open>\<open>put_le k v\<close> writes the \<open>k\<close> low bytes of \<open>v\<close>, least significant first, as
  \<^verbatim>\<open>LittleEndian.PutUint32\<close> and \<^verbatim>\<open>PutUint64\<close> do for \<open>k = 4, 8\<close>; \<open>get_le\<close> reads them back.\<close>

fun put_le :: "nat \<Rightarrow> 'a::len word \<Rightarrow> bytes" where
  "put_le 0 v = []"
| "put_le (Suc k) v = ucast v # put_le k (drop_bit 8 v)"

fun get_le :: "bytes \<Rightarrow> 'a::len word" where
  "get_le [] = 0"
| "get_le (b # bs) = ucast b OR push_bit 8 (get_le bs)"

text \<open>\<^verbatim>\<open>BigEndian.PutUint64\<close> writes the most significant byte first.\<close>

fun put_be :: "nat \<Rightarrow> 'a::len word \<Rightarrow> bytes" where
  "put_be 0 v = []"
| "put_be (Suc k) v = ucast (drop_bit (8 * k) v) # put_be k v"

definition get_be :: "bytes \<Rightarrow> 'a::len word" where
  "get_be bs = get_le (rev bs)"

lemma length_put_le [simp]: "length (put_le k v) = k"
  by (induction k arbitrary: v) auto

lemma length_put_be [simp]: "length (put_be k v) = k"
  by (induction k arbitrary: v) auto

lemma get_le_put_le_bits: "get_le (put_le k v) = take_bit (8 * k) (v :: 'a::len word)"
proof (induction k arbitrary: v)
  case 0
  then show ?case by simp
next
  case (Suc k)
  show ?case
    unfolding put_le.simps get_le.simps Suc.IH
    by (rule bit_word_eqI)
      (auto simp: bit_or_iff bit_push_bit_iff bit_take_bit_iff bit_ucast_iff bit_drop_bit_eq
        dest: bit_imp_le_length)
qed

lemma get_le_put_le [simp]: "LENGTH('a::len) \<le> 8 * k \<Longrightarrow> get_le (put_le k v) = (v :: 'a word)"
  by (simp add: get_le_put_le_bits take_bit_word_eq_self)

lemma put_le_snoc: "put_le (Suc k) v = put_le k v @ [ucast (drop_bit (8 * k) v)]"
proof (induction k arbitrary: v)
  case 0
  then show ?case by simp
next
  case (Suc k)
  have "put_le (Suc (Suc k)) v = ucast v # put_le (Suc k) (drop_bit 8 v)"
    by (simp only: put_le.simps)
  also have "\<dots> = ucast v # put_le k (drop_bit 8 v) @ [ucast (drop_bit (8 * k) (drop_bit 8 v))]"
    by (simp only: Suc.IH)
  finally show ?case by (simp add: ac_simps)
qed

lemma put_be_rev_le: "put_be k v = rev (put_le k v)"
proof (induction k arbitrary: v)
  case 0
  then show ?case by simp
next
  case (Suc k)
  then show ?case by (simp add: put_le_snoc del: put_le.simps)
qed

lemma get_be_put_be [simp]: "LENGTH('a::len) \<le> 8 * k \<Longrightarrow> get_be (put_be k v) = (v :: 'a word)"
  by (simp add: get_be_def put_be_rev_le)

text \<open>The order of \<^verbatim>\<open>bytes.Compare\<close>, the order of keys in the metadata database.\<close>

fun bytes_less :: "bytes \<Rightarrow> bytes \<Rightarrow> bool" where
  "bytes_less [] ys \<longleftrightarrow> ys \<noteq> []"
| "bytes_less (x # xs) [] \<longleftrightarrow> False"
| "bytes_less (x # xs) (y # ys) \<longleftrightarrow> x < y \<or> (x = y \<and> bytes_less xs ys)"

lemma bytes_less_irrefl [simp]: "\<not> bytes_less xs xs"
  by (induction xs) auto

lemma bytes_less_trans: "bytes_less xs ys \<Longrightarrow> bytes_less ys zs \<Longrightarrow> bytes_less xs zs"
proof (induction xs ys arbitrary: zs rule: bytes_less.induct)
  case (1 ys)
  then show ?case by (cases zs; cases ys) auto
next
  case (3 x xs y ys)
  then show ?case by (cases zs) auto
qed simp

lemma bytes_less_total: "bytes_less xs ys \<or> xs = ys \<or> bytes_less ys xs"
proof (induction xs ys rule: bytes_less.induct)
  case (1 ys)
  then show ?case by (cases ys) auto
qed auto

lemma bytes_less_append_same [simp]: "bytes_less (zs @ xs) (zs @ ys) \<longleftrightarrow> bytes_less xs ys"
  by (induction zs) auto

text \<open>Big-endian encoding turns the unsigned order of numbers into the order of their bytes.\<close>

lemma split_low_bytes:
  "v mod 2 ^ (8 * Suc k) = (v div 2 ^ (8 * k)) mod 256 * 2 ^ (8 * k) + v mod 2 ^ (8 * k)" for v :: nat
proof -
  have "v mod (2 ^ (8 * k) * 256) = 2 ^ (8 * k) * (v div 2 ^ (8 * k) mod 256) + v mod 2 ^ (8 * k)"
    by (rule mod_mult2_eq)
  then show ?thesis by (simp add: power_add mult.commute)
qed

lemma digits_less_iff:
  "a * B + x < b * B + y \<longleftrightarrow> a < b \<or> (a = b \<and> x < y)" if "x < B" and "y < B" for a b x y B :: nat
proof (cases a b rule: linorder_cases)
  case less
  then have "Suc a * B \<le> b * B" by (intro mult_right_mono) auto
  with that less show ?thesis by auto
next
  case greater
  then have "Suc b * B \<le> a * B" by (intro mult_right_mono) auto
  with that greater show ?thesis by auto
qed simp

lemma unat_byte_of: "unat (ucast (drop_bit n v) :: byte) = unat v div 2 ^ n mod 256"
  for v :: "'a::len word"
  by (simp add: unsigned_ucast_eq unsigned_drop_bit_eq drop_bit_eq_div [where ?'a = nat] take_bit_eq_mod)

lemma bytes_less_put_be_nat:
  "bytes_less (put_be k v) (put_be k w) \<longleftrightarrow> unat v mod 2 ^ (8 * k) < unat w mod 2 ^ (8 * k)"
  for v w :: "'a::len word"
proof (induction k)
  case 0
  then show ?case by simp
next
  case (Suc k)
  let ?B = "2 ^ (8 * k) :: nat"
  let ?a = "unat v div ?B mod 256" and ?b = "unat w div ?B mod 256"
  have "bytes_less (put_be (Suc k) v) (put_be (Suc k) w) \<longleftrightarrow>
      ?a < ?b \<or> (?a = ?b \<and> unat v mod ?B < unat w mod ?B)"
    by (simp add: Suc.IH word_less_nat_alt word_unat_eq_iff unat_byte_of)
  also have "\<dots> \<longleftrightarrow> ?a * ?B + unat v mod ?B < ?b * ?B + unat w mod ?B"
    by (rule digits_less_iff [symmetric]) auto
  finally show ?case by (simp only: split_low_bytes)
qed

lemma bytes_less_put_be:
  "LENGTH('a) \<le> 8 * k \<Longrightarrow> bytes_less (put_be k v) (put_be k w) \<longleftrightarrow> v < w" for v w :: "'a::len word"
proof -
  assume k: "LENGTH('a) \<le> 8 * k"
  have "unat u < 2 ^ (8 * k)" for u :: "'a word"
    using unsigned_less [of u, where ?'a = nat] k by (meson le_trans less_le_trans one_le_numeral power_increasing)
  then show ?thesis by (simp add: bytes_less_put_be_nat word_less_nat_alt)
qed

subsection \<open>\<^verbatim>\<open>hash/crc32\<close>\<close>

text \<open>The table-driven checksum of Go is the bitwise one of a reflected polynomial:
  \<open>crc32_castagnoli\<close> for the log files, \<open>crc32_ieee\<close> for \<^verbatim>\<open>crc32.ChecksumIEEE\<close>.\<close>

fun crc_bits :: "u32 \<Rightarrow> nat \<Rightarrow> u32 \<Rightarrow> u32" where
  "crc_bits poly 0 c = c"
| "crc_bits poly (Suc n) c =
     crc_bits poly n (if bit c 0 then drop_bit 1 c XOR poly else drop_bit 1 c)"

fun crc_update :: "u32 \<Rightarrow> u32 \<Rightarrow> bytes \<Rightarrow> u32" where
  "crc_update poly c [] = c"
| "crc_update poly c (b # bs) = crc_update poly (crc_bits poly 8 (c XOR ucast b)) bs"

definition crc32_checksum :: "u32 \<Rightarrow> bytes \<Rightarrow> u32" where
  "crc32_checksum poly bs = NOT (crc_update poly (NOT 0) bs)"

definition crc32_castagnoli :: "bytes \<Rightarrow> u32" where
  "crc32_castagnoli = crc32_checksum 0x82f63b78"

definition crc32_ieee :: "bytes \<Rightarrow> u32" where
  "crc32_ieee = crc32_checksum 0xedb88320"

text \<open>The published check values of the two polynomials, over \<^verbatim>\<open>"123456789"\<close>.\<close>

lemma crc32_check_values:
  "crc32_castagnoli [0x31, 0x32, 0x33, 0x34, 0x35, 0x36, 0x37, 0x38, 0x39] = 0xe3069283"
  "crc32_ieee [0x31, 0x32, 0x33, 0x34, 0x35, 0x36, 0x37, 0x38, 0x39] = 0xcbf43926"
  by code_simp+

subsection \<open>Readers\<close>

text \<open>\<^verbatim>\<open>io.ReadFull\<close> on the remaining bytes of a reader, with the bytes left over.\<close>

definition read_full :: "nat \<Rightarrow> bytes \<Rightarrow> go_error + bytes \<times> bytes" where
  "read_full n bs =
     (if n = 0 then Inr ([], bs)
      else if bs = [] then Inl EOF
      else if length bs < n then Inl ErrUnexpectedEOF
      else Inr (take n bs, drop n bs))"

text \<open>\<^verbatim>\<open>os.File.ReadAt\<close> with a buffer of \<open>n\<close> bytes.\<close>

definition read_at :: "bytes \<Rightarrow> nat \<Rightarrow> int \<Rightarrow> go_error + bytes" where
  "read_at content n off =
     (if off < 0 then Inl ErrNegativeOffset
      else if length (drop (nat off) content) < n then Inl EOF
      else Inr (take n (drop (nat off) content)))"

lemma read_full_append [simp]:
  "length xs = n \<Longrightarrow> read_full n (xs @ ys) = Inr (xs, ys)"
  by (auto simp: read_full_def)

lemma read_full_Inr_iff:
  "read_full n bs = Inr (xs, ys) \<longleftrightarrow> length xs = n \<and> bs = xs @ ys"
  by (auto simp: read_full_def)

lemma read_at_append [simp]:
  "off = int (length pre) \<Longrightarrow> length xs = n \<Longrightarrow> read_at (pre @ xs @ ys) n off = Inr xs"
  by (simp add: read_at_def)

text \<open>\<^verbatim>\<open>io.CopyN\<close> into a fresh buffer: a short source is \<^verbatim>\<open>EOF\<close>, a negative count copies nothing.\<close>

definition copy_n :: "int \<Rightarrow> bytes \<Rightarrow> go_error + bytes \<times> bytes" where
  "copy_n n bs =
     (if n < 0 then Inr ([], bs)
      else if int (length bs) < n then Inl EOF
      else Inr (take (nat n) bs, drop (nat n) bs))"

text \<open>The result of one system call: success, or failure after that many bytes were transferred.
  A plan of results is consumed one per call; after its end every call succeeds.\<close>

datatype io_outcome = IoOk | IoErr nat

fun io_next :: "io_outcome list \<Rightarrow> io_outcome \<times> io_outcome list" where
  "io_next [] = (IoOk, [])"
| "io_next (r # rs) = (r, rs)"

subsection \<open>Decimal numbers: \<^verbatim>\<open>fmt.Sprintf\<close> and \<^verbatim>\<open>strconv.ParseUint\<close>\<close>

definition digit_char :: "nat \<Rightarrow> char" where
  "digit_char d = char_of (48 + d)"

fun dec_str :: "nat \<Rightarrow> string" where
  "dec_str n = (if n < 10 then [digit_char n] else dec_str (n div 10) @ [digit_char (n mod 10)])"

declare dec_str.simps [simp del]

text \<open>\<^verbatim>\<open>%0wd\<close>.\<close>

definition pad_dec :: "nat \<Rightarrow> nat \<Rightarrow> string" where
  "pad_dec w n = replicate (w - length (dec_str n)) (digit_char 0) @ dec_str n"

fun parse_digits :: "nat \<Rightarrow> string \<Rightarrow> nat option" where
  "parse_digits acc [] = Some acc"
| "parse_digits acc (c # cs) =
     (let d = of_char c :: nat in
      if 48 \<le> d \<and> d \<le> 57 then parse_digits (acc * 10 + (d - 48)) cs else None)"

definition parse_uint :: "nat \<Rightarrow> string \<Rightarrow> go_error + nat" where
  "parse_uint bits s =
     (if s = [] then Inl (ErrMsg ''invalid syntax'')
      else case parse_digits 0 s of
             None \<Rightarrow> Inl (ErrMsg ''invalid syntax'')
           | Some n \<Rightarrow> if int n < 2 ^ bits then Inr n else Inl (ErrMsg ''value out of range''))"

lemma of_char_digit_char: "d < 10 \<Longrightarrow> (of_char (digit_char d) :: nat) = 48 + d"
  by (simp add: digit_char_def)

lemma parse_digits_append:
  "parse_digits acc (xs @ ys) =
     (case parse_digits acc xs of None \<Rightarrow> None | Some acc \<Rightarrow> parse_digits acc ys)"
  by (induction xs arbitrary: acc) (auto simp: Let_def)

lemma parse_digits_zeros [simp]: "parse_digits 0 (replicate k (digit_char 0) @ s) = parse_digits 0 s"
  by (induction k) (auto simp: of_char_digit_char Let_def)

lemma parse_digits_dec_str: "parse_digits 0 (dec_str n) = Some n"
proof (induction n rule: less_induct)
  case (less n)
  show ?case
  proof (cases "n < 10")
    case True
    then show ?thesis by (simp add: dec_str.simps [of n] of_char_digit_char)
  next
    case False
    then have "parse_digits 0 (dec_str (n div 10)) = Some (n div 10)" by (intro less) auto
    with False show ?thesis
      by (simp add: dec_str.simps [of n] parse_digits_append of_char_digit_char Let_def)
  qed
qed

lemma dec_str_not_Nil [simp]: "dec_str n \<noteq> []"
  by (simp add: dec_str.simps [of n])

lemma parse_uint_pad_dec: "n < 2 ^ bits \<Longrightarrow> parse_uint bits (pad_dec w n) = Inr n"
proof -
  assume "n < 2 ^ bits"
  then have "int n < int (2 ^ bits)" by (simp only: of_nat_less_iff)
  then show ?thesis by (simp add: parse_uint_def pad_dec_def parse_digits_dec_str)
qed

lemma pad_dec_inject: "pad_dec w m = pad_dec w n \<longleftrightarrow> m = n"
proof
  assume "pad_dec w m = pad_dec w n"
  then have "parse_digits 0 (pad_dec w m) = parse_digits 0 (pad_dec w n)" by simp
  then show "m = n" by (simp add: pad_dec_def parse_digits_dec_str)
qed simp

subsection \<open>Prefixes and suffixes of strings\<close>

definition has_prefix :: "'a list \<Rightarrow> 'a list \<Rightarrow> bool" where
  "has_prefix s p \<longleftrightarrow> take (length p) s = p"

definition has_suffix :: "'a list \<Rightarrow> 'a list \<Rightarrow> bool" where
  "has_suffix s p \<longleftrightarrow> length p \<le> length s \<and> drop (length s - length p) s = p"

definition trim_suffix :: "'a list \<Rightarrow> 'a list \<Rightarrow> 'a list" where
  "trim_suffix s p = (if has_suffix s p then take (length s - length p) s else s)"

lemma has_suffix_append [simp]: "has_suffix (s @ p) p"
  by (simp add: has_suffix_def)

lemma trim_suffix_append [simp]: "trim_suffix (s @ p) p = s"
  by (simp add: trim_suffix_def)

lemma has_suffix_iff: "has_suffix s p \<longleftrightarrow> (\<exists>q. s = q @ p)"
  by (auto simp: has_suffix_def) (metis append_take_drop_id)

subsection \<open>Association lists as Go maps\<close>

text \<open>A Go map that the code iterates over is an association list with distinct keys:
  \<^verbatim>\<open>m[k] = v\<close> is \<open>AList.update\<close>, \<^verbatim>\<open>delete(m, k)\<close> is \<open>AList.delete\<close>, \<^verbatim>\<open>v, ok := m[k]\<close> is \<open>map_of\<close>.\<close>

abbreviation map_keys :: "('k \<times> 'v) list \<Rightarrow> 'k list" where
  "map_keys m \<equiv> map fst m"

lemma map_of_update [simp]: "map_of (AList.update k v m) = (map_of m)(k \<mapsto> v)"
  by (rule update_conv')

lemma map_of_delete [simp]: "map_of (AList.delete k m) = (map_of m)(k := None)"
  by (rule delete_conv')

end
