(* ===== verification/Wire.thy ===== *)
theory Wire
  imports Prelude
begin

text \<open>
  The protobuf messages the components exchange. The generated Go code of these messages
  (\<^verbatim>\<open>Marshal\<close>, \<^verbatim>\<open>Unmarshal\<close>) is a third-party package: the definitions that call it take it as a
  parameter, and the records below carry the fields the components read or write.
\<close>

datatype BinlogType = Prewrite | Commit | Rollback | PreDDL | PostDDL

text \<open>\<^verbatim>\<open>pb.Binlog\<close>: the unit a TiDB server writes to a pump.\<close>

record Binlog =
  Tp :: BinlogType
  StartTs :: int
  CommitTs :: int
  PrewriteKey :: bytes
  PrewriteValue :: bytes
  DdlQuery :: bytes
  DdlJobId :: int
  DdlSchemaState :: int

type_synonym binlog_marshal = "Binlog \<Rightarrow> bytes"
type_synonym binlog_unmarshal = "bytes \<Rightarrow> go_error + Binlog"

end
