(* ===== verification/Framing.thy ===== *)
theory Framing
  imports Prelude
begin

text \<open>
  The contract of a self-delimiting record format, which both the pump's value log
  (\<^verbatim>\<open>pump/storage/log.go\<close>) and the binlog files of the drainer (\<^verbatim>\<open>pkg/binlogfile\<close>) implement:
  a decoder that reads one record off the front of a byte stream undoes the encoder. What a
  reader of a whole file relies on follows once, here.
\<close>

text \<open>\<open>frames dec bs xs rest\<close>: decoding \<open>bs\<close> repeatedly yields \<open>xs\<close> and leaves \<open>rest\<close>.\<close>

inductive frames :: "(bytes \<Rightarrow> go_error + 'a \<times> bytes) \<Rightarrow> bytes \<Rightarrow> 'a list \<Rightarrow> bytes \<Rightarrow> bool"
  for dec where
  frames_Nil: "frames dec bs [] bs"
| frames_Cons: "dec bs = Inr (x, bs') \<Longrightarrow> frames dec bs' xs rest \<Longrightarrow> frames dec bs (x # xs) rest"

inductive_cases frames_ConsE: "frames dec bs (x # xs) rest"
inductive_simps frames_Nil_iff [simp]: "frames dec bs [] rest"

lemma frames_append:
  "frames dec bs xs mid \<Longrightarrow> frames dec mid ys rest \<Longrightarrow> frames dec bs (xs @ ys) rest"
  by (induction rule: frames.induct) (auto intro: frames_Cons)

lemma frames_deterministic:
  "frames dec bs xs rest \<Longrightarrow> frames dec bs ys rest' \<Longrightarrow> length xs = length ys \<Longrightarrow>
     xs = ys \<and> rest = rest'"
proof (induction arbitrary: ys rule: frames.induct)
  case (frames_Cons bs x bs' xs rest)
  then obtain y ys' where ys: "ys = y # ys'" by (cases ys) auto
  with frames_Cons show ?case by (auto elim: frames_ConsE)
qed auto

locale framed_codec =
  fixes enc :: "'a \<Rightarrow> bytes"
    and dec :: "bytes \<Rightarrow> go_error + 'a \<times> bytes"
    and fits :: "'a \<Rightarrow> bool"
  assumes dec_enc: "fits x \<Longrightarrow> dec (enc x @ rest) = Inr (x, rest)"
    and dec_progress: "dec bs = Inr (x, rest) \<Longrightarrow> length rest < length bs"
begin

lemma enc_not_Nil: "fits x \<Longrightarrow> enc x \<noteq> []"
  using dec_enc [of x "[]"] dec_progress [of "enc x @ []" x "[]"] by auto

lemma enc_append_inject:
  assumes "fits x" and "fits y" and "enc x @ rest = enc y @ rest'"
  shows "x = y \<and> rest = rest'"
  using dec_enc [OF assms(1), of rest] dec_enc [OF assms(2), of rest'] unfolding assms(3) by simp

lemma frames_concat:
  "list_all fits xs \<Longrightarrow> frames dec (concat (map enc xs) @ rest) xs rest"
  by (induction xs) (auto intro: frames_Nil frames_Cons simp: dec_enc)

lemma concat_enc_inject:
  "list_all fits xs \<Longrightarrow> list_all fits ys \<Longrightarrow>
     concat (map enc xs) = concat (map enc ys) \<Longrightarrow> xs = ys"
proof (induction xs arbitrary: ys)
  case Nil
  then show ?case by (cases ys) (auto simp: enc_not_Nil)
next
  case (Cons x xs)
  then obtain y ys' where ys: "ys = y # ys'"
    by (cases ys) (auto simp: enc_not_Nil)
  with Cons.prems have "x = y \<and> concat (map enc xs) = concat (map enc ys')"
    by (intro enc_append_inject) auto
  with Cons.IH [of ys'] Cons.prems ys show ?case by auto
qed

lemma frames_length: "frames dec bs xs rest \<Longrightarrow> length xs + length rest \<le> length bs"
  by (induction rule: frames.induct) (auto dest: dec_progress)

end

end
