(* ===== verification/LogFile.thy ===== *)
theory LogFile
  imports Wire Framing
begin

text \<open>
  One file of the pump's value log, \<^verbatim>\<open>pump/storage/log.go\<close>: the record format, the file
  handle with its write offset, footer and maximal timestamp, recovery, and the scan that
  resynchronises on the record magic after a corruption. \<^verbatim>\<open>valuePointer\<close> of
  \<^verbatim>\<open>pump/storage/vlog.go\<close> is here because \<^verbatim>\<open>scan\<close> reports it.

  \<open>lf_fd\<close> is the content of the file behind the descriptor, opened with \<^verbatim>\<open>O_APPEND\<close>. System
  calls that write take their result from a plan of outcomes; reads of a local file do not fail
  other than by reaching its end.
\<close>

section \<open>Value pointers\<close>

datatype valuePointer = VP (Fid: u32) (Offset: int)

definition less_vp :: "valuePointer \<Rightarrow> valuePointer \<Rightarrow> bool" where
  "less_vp vp other =
     (if Fid vp \<noteq> Fid other then Fid vp < Fid other else Offset vp < Offset other)"

instantiation valuePointer :: linorder
begin

definition less_valuePointer :: "valuePointer \<Rightarrow> valuePointer \<Rightarrow> bool" where
  "less_valuePointer = less_vp"

definition less_eq_valuePointer :: "valuePointer \<Rightarrow> valuePointer \<Rightarrow> bool" where
  "less_eq_valuePointer a b \<longleftrightarrow> a = b \<or> less_vp a b"

instance
  by standard
    (auto simp: less_valuePointer_def less_eq_valuePointer_def less_vp_def valuePointer.expand
       split: if_splits)

end

definition MarshalBinary :: "valuePointer \<Rightarrow> bytes" where
  "MarshalBinary vp = put_le 4 (Fid vp) @ put_le 8 (u64_of_int64 (Offset vp))"

definition UnmarshalBinary :: "bytes \<Rightarrow> go_error + valuePointer" where
  "UnmarshalBinary data =
     (if length data < 12 then Inl (ErrMsg ''not enough data'')
      else Inr (VP (get_le (take 4 data)) (int64_of_u64 (get_le (take 8 (drop 4 data))))))"

lemma UnmarshalBinary_MarshalBinary:
  assumes "int64_range (Offset vp)"
  shows "UnmarshalBinary (MarshalBinary vp @ rest) = Inr vp"
  using assms by (simp add: UnmarshalBinary_def MarshalBinary_def get_le_put_le)

section \<open>Records\<close>

definition recordMagic :: u32 where "recordMagic = 0x823a56e8"

definition fileEndMagic :: u32 where "fileEndMagic = 0x123ab922"

definition fileFooterLength :: nat where "fileFooterLength = 4 + 8"

definition headerLength :: nat where "headerLength = 16"

definition ErrWrongMagic :: go_error where "ErrWrongMagic = ErrMsg ''wrong magic''"

record Record =
  magic :: u32
  length_field :: u64
  checksum :: u32
  payload :: bytes

definition recordLength :: "Record \<Rightarrow> int" where
  "recordLength r = int headerLength + int (length (payload r))"

text \<open>\<^verbatim>\<open>encodeRecord\<close> writes to a \<^verbatim>\<open>bytes.Buffer\<close>, which does not fail.\<close>

definition encodeRecord :: "bytes \<Rightarrow> bytes \<Rightarrow> int \<times> bytes" where
  "encodeRecord writer pl =
     (let header = put_le 4 recordMagic @ put_le 8 (of_nat (length pl) :: u64)
                   @ put_le 4 (crc32_castagnoli pl)
      in (int headerLength + int (length pl), writer @ header @ pl))"

definition readHeader :: "bytes \<Rightarrow> go_error + Record \<times> bytes" where
  "readHeader reader =
     (case read_full 4 reader of Inl e \<Rightarrow> Inl e
      | Inr (m, reader) \<Rightarrow>
     (case read_full 8 reader of Inl e \<Rightarrow> Inl e
      | Inr (l, reader) \<Rightarrow>
     (case read_full 4 reader of Inl e \<Rightarrow> Inl e
      | Inr (c, reader) \<Rightarrow>
          Inr (\<lparr>magic = get_le m, length_field = get_le l, checksum = get_le c, payload = []\<rparr>, reader))))"

definition isValid :: "Record \<Rightarrow> bool" where
  "isValid r \<longleftrightarrow> crc32_castagnoli (payload r) = checksum r"

text \<open>\<^verbatim>\<open>readRecord\<close> on the remaining bytes of a reader. A length of 4 GiB or more, which only a
  corrupt header has, goes through \<^verbatim>\<open>io.CopyN\<close> with the length as a signed number.\<close>

definition readRecord :: "bytes \<Rightarrow> go_error + Record \<times> bytes" where
  "readRecord reader =
     (case readHeader reader of Inl e \<Rightarrow> Inl e
      | Inr (r, reader) \<Rightarrow>
          if magic r \<noteq> recordMagic then Inl ErrWrongMagic
          else
            (case (if length_field r < 0x100000000
                   then read_full (unat (length_field r)) reader
                   else copy_n (int64_of_u64 (length_field r)) reader) of
               Inl e \<Rightarrow> Inl e
             | Inr (pl, reader) \<Rightarrow>
                 let r = r\<lparr>payload := pl\<rparr> in
                 if isValid r then Inr (r, reader) else Inl (ErrMsg ''checksum mismatch'')))"

section \<open>Log files\<close>

record logFile =
  lf_fid :: u32
  lf_path :: string
  lf_writeOffset :: int
  lf_fd :: bytes
  lf_maxTS :: int
  lf_end :: bool

definition updateMaxTS :: "int \<Rightarrow> logFile \<Rightarrow> logFile" where
  "updateMaxTS ts lf = (if lf_maxTS lf < ts then lf\<lparr>lf_maxTS := ts\<rparr> else lf)"

definition IncWriteOffset :: "int \<Rightarrow> logFile \<Rightarrow> logFile" where
  "IncWriteOffset n lf = lf\<lparr>lf_writeOffset := lf_writeOffset lf + n\<rparr>"

definition GetWriteOffset :: "logFile \<Rightarrow> int" where
  "GetWriteOffset lf = lf_writeOffset lf"

text \<open>\<^verbatim>\<open>fd.Write\<close> appends; a failed call may have transferred a part of the data.\<close>

definition fd_write :: "bytes \<Rightarrow> logFile \<Rightarrow> io_outcome list \<Rightarrow> nat \<times> go_error option \<times> logFile \<times> io_outcome list"
  where
  "fd_write data lf io =
     (case io_next io of
        (IoOk, io) \<Rightarrow> (length data, None, lf\<lparr>lf_fd := lf_fd lf @ data\<rparr>, io)
      | (IoErr n, io) \<Rightarrow>
          let written = take n data
          in (length written, Some ErrIO, lf\<lparr>lf_fd := lf_fd lf @ written\<rparr>, io))"

definition fdatasync :: "io_outcome list \<Rightarrow> go_error option \<times> io_outcome list" where
  "fdatasync io = (case io_next io of (IoOk, io) \<Rightarrow> (None, io) | (IoErr n, io) \<Rightarrow> (Some ErrIO, io))"

definition Write :: "bytes \<Rightarrow> bool \<Rightarrow> logFile \<Rightarrow> io_outcome list \<Rightarrow> go_error option \<times> logFile \<times> io_outcome list"
  where
  "Write data sync lf io =
     (case fd_write data lf io of
        (n, err, lf, io) \<Rightarrow>
          let lf = IncWriteOffset (int n) lf in
          (case err of
             Some e \<Rightarrow> (Some e, lf, io)
           | None \<Rightarrow>
               if sync then (case fdatasync io of (err, io) \<Rightarrow> (err, lf, io))
               else (None, lf, io)))"

definition finalize :: "logFile \<Rightarrow> io_outcome list \<Rightarrow> go_error option \<times> logFile \<times> io_outcome list" where
  "finalize lf io =
     (if lf_end lf then (Some (Panic ''unreachable''), lf, io)
      else
        let buf = put_le 8 (u64_of_int64 (lf_maxTS lf)) @ put_le 4 fileEndMagic in
        (case fd_write buf lf io of
           (n, Some e, lf, io) \<Rightarrow> (Some e, lf, io)
         | (n, None, lf, io) \<Rightarrow>
             let lf = lf\<lparr>lf_end := True\<rparr> in
             (case fdatasync io of (err, io) \<Rightarrow> (err, lf, io))))"

text \<open>\<^verbatim>\<open>make([]byte, n)\<close> panics when \<open>n\<close> exceeds the address space of the platform (48 bits).\<close>

definition max_alloc :: u64 where "max_alloc = 0x1000000000000"

definition lf_readRecord :: "logFile \<Rightarrow> int \<Rightarrow> go_error + Record" where
  "lf_readRecord lf offset =
     (case read_at (lf_fd lf) headerLength offset of Inl e \<Rightarrow> Inl e
      | Inr header \<Rightarrow>
     (case readHeader header of Inl e \<Rightarrow> Inl e
      | Inr (r, _) \<Rightarrow>
          if magic r \<noteq> recordMagic then Inl ErrWrongMagic
          else if length_field r > max_alloc then Inl (Panic ''makeslice: len out of range'')
          else
            (case read_at (lf_fd lf) (unat (length_field r)) (offset + int headerLength) of
               Inl e \<Rightarrow> Inl e
             | Inr pl \<Rightarrow>
                 let r = r\<lparr>payload := pl\<rparr> in
                 if isValid r then Inr r else Inl (ErrMsg ''checksum mismatch''))))"

section \<open>Scanning\<close>

fun seekToNextRecord :: "bytes \<Rightarrow> nat \<times> go_error option \<times> bytes" where
  "seekToNextRecord reader =
     (if length reader < 4 then (length reader, Some EOF, reader)
      else if get_le (take 4 reader) = recordMagic then (0, None, reader)
      else (case seekToNextRecord (tl reader) of (n, err, reader) \<Rightarrow> (Suc n, err, reader)))"

declare seekToNextRecord.simps [simp del]

text \<open>A reader over a section of the file: \<open>Inl\<close> when its reads fail.\<close>

definition section_reader :: "bytes \<Rightarrow> int \<Rightarrow> int \<Rightarrow> go_error + bytes" where
  "section_reader content off n =
     (if n \<le> 0 then Inr []
      else if off < 0 then Inl ErrNegativeOffset
      else Inr (take (nat n) (drop (nat off) content)))"

type_synonym 's scan_fn = "valuePointer \<Rightarrow> Record \<Rightarrow> 's \<Rightarrow> go_error option \<times> 's"
type_synonym corruption = "int \<times> go_error"

function scan_loop ::
  "logFile \<Rightarrow> 's scan_fn \<Rightarrow> int \<Rightarrow> int \<Rightarrow> go_error + bytes \<Rightarrow> 's \<Rightarrow> corruption list
     \<Rightarrow> go_error option \<times> 's \<times> corruption list" where
  "scan_loop lf fn sz offset reader s reports =
     (if offset < sz then
        (case (case reader of Inl e \<Rightarrow> Inl e | Inr bs \<Rightarrow> readRecord bs) of
           Inl err \<Rightarrow>
             (case section_reader (lf_fd lf) (offset + 1) (sz - (offset + 1)) of
                Inl seekErr \<Rightarrow> (Some seekErr, s, reports)
              | Inr bs \<Rightarrow>
                  (case seekToNextRecord bs of
                     (n, None, bs) \<Rightarrow>
                       scan_loop lf fn sz (offset + 1 + int n) (Inr bs) s (reports @ [(int n + 1, err)])
                   | (n, Some seekErr, bs) \<Rightarrow>
                       if seekErr = EOF
                       then (None, s, reports @ [(sz - (offset + 1), err)])
                       else (Some seekErr, s, reports)))
         | Inr (r, bs) \<Rightarrow>
             (case fn (VP (lf_fid lf) offset) r s of
                (Some err, s) \<Rightarrow> (Some err, s, reports)
              | (None, s) \<Rightarrow> scan_loop lf fn sz (offset + recordLength r) (Inr bs) s reports))
      else (None, s, reports))"
  by pat_completeness auto
termination
  by (relation "measure (\<lambda>(lf, fn, sz, offset, reader, s, reports). nat (sz - offset))")
    (auto simp: recordLength_def headerLength_def)

declare scan_loop.simps [simp del]

definition scan :: "logFile \<Rightarrow> int \<Rightarrow> 's scan_fn \<Rightarrow> 's \<Rightarrow> go_error option \<times> 's \<times> corruption list" where
  "scan lf startOffset fn s =
     (let sz = int (length (lf_fd lf)) - (if lf_end lf then int fileFooterLength else 0)
      in scan_loop lf fn sz startOffset
           (section_reader (lf_fd lf) startOffset (sz - startOffset)) s [])"

text \<open>\<^verbatim>\<open>recover\<close> of an unfinished file, with the decoder of the payload as a parameter.\<close>

definition recover_fn :: "binlog_unmarshal \<Rightarrow> int scan_fn" where
  "recover_fn unmarshal vp r maxTS =
     (case unmarshal (payload r) of
        Inl e \<Rightarrow> (Some e, maxTS)
      | Inr b \<Rightarrow>
          let maxTS = (if CommitTs b > maxTS then CommitTs b else maxTS);
              maxTS = (if StartTs b > maxTS then StartTs b else maxTS)
          in (None, maxTS))"

definition recover :: "binlog_unmarshal \<Rightarrow> logFile \<Rightarrow> go_error option \<times> logFile" where
  "recover unmarshal lf =
     (case scan lf 0 (recover_fn unmarshal) (lf_maxTS lf) of
        (err, maxTS, reports) \<Rightarrow> (err, lf\<lparr>lf_maxTS := maxTS\<rparr>))"

text \<open>\<^verbatim>\<open>newLogFile\<close> on a file of the given content (empty when it is created): \<^verbatim>\<open>os.OpenFile\<close> and
  \<^verbatim>\<open>Stat\<close> take an outcome each.\<close>

definition newLogFile ::
  "binlog_unmarshal \<Rightarrow> u32 \<Rightarrow> string \<Rightarrow> bytes \<Rightarrow> io_outcome list \<Rightarrow> (go_error + logFile) \<times> io_outcome list"
  where
  "newLogFile unmarshal fid name content io =
     (case io_next io of (IoErr n, io) \<Rightarrow> (Inl ErrIO, io) | (IoOk, io) \<Rightarrow>
     (case io_next io of (IoErr n, io) \<Rightarrow> (Inl ErrIO, io) | (IoOk, io) \<Rightarrow>
        let lf = \<lparr>lf_fid = fid, lf_path = name, lf_writeOffset = int (length content),
                  lf_fd = content, lf_maxTS = 0, lf_end = False\<rparr>;
            footer = drop (length content - fileFooterLength) content;
            lf = (if length content \<ge> fileFooterLength \<and> get_le (drop 8 footer) = fileEndMagic
                  then lf\<lparr>lf_end := True, lf_maxTS := int64_of_u64 (get_le (take 8 footer))\<rparr>
                  else lf)
        in (if \<not> lf_end lf
            then (case recover unmarshal lf of (Some e, lf) \<Rightarrow> Inl e | (None, lf) \<Rightarrow> Inr lf)
            else Inr lf, io)))"

section \<open>Properties of the record format\<close>

text \<open>The bytes of one record, and the record \<^verbatim>\<open>readRecord\<close> makes of them.\<close>

definition frame :: "bytes \<Rightarrow> bytes" where
  "frame pl = (put_le 4 recordMagic @ put_le 8 (of_nat (length pl) :: u64)
               @ put_le 4 (crc32_castagnoli pl)) @ pl"

definition record_of :: "bytes \<Rightarrow> Record" where
  "record_of pl = \<lparr>magic = recordMagic, length_field = of_nat (length pl),
                   checksum = crc32_castagnoli pl, payload = pl\<rparr>"

lemma payload_record_of [simp]: "payload (record_of pl) = pl"
  by (simp add: record_of_def)

lemma encodeRecord_frame [simp]:
  "encodeRecord w pl = (int (length (frame pl)), w @ frame pl)"
  by (simp add: frame_def encodeRecord_def Let_def headerLength_def)

lemma length_frame [simp]: "length (frame pl) = headerLength + length pl"
  by (simp add: frame_def encodeRecord_def Let_def headerLength_def)

lemma frame_not_Nil [simp]: "frame pl \<noteq> []"
  by (metis add_is_0 headerLength_def length_frame list.size(3) zero_neq_numeral)

lemma recordLength_record_of [simp]: "recordLength (record_of pl) = int (length (frame pl))"
  by (simp add: recordLength_def)

lemma readHeader_header:
  "readHeader (put_le 4 m @ put_le 8 l @ put_le 4 c @ rest) =
     Inr (\<lparr>magic = m, length_field = l, checksum = c, payload = []\<rparr>, rest)"
  by (simp add: readHeader_def get_le_put_le)

lemma readHeader_consumes:
  "readHeader bs = Inr (r, rest) \<Longrightarrow> \<exists>h. bs = h @ rest \<and> length h = headerLength \<and> payload r = []"
  by (auto simp: readHeader_def read_full_Inr_iff headerLength_def split: sum.splits prod.splits)

lemma length_field_exact:
  "n < 2 ^ 63 \<Longrightarrow> unat (of_nat n :: u64) = n \<and> int64_of_u64 (of_nat n :: u64) = int n"
  by (simp add: unsigned_of_nat signed_of_nat take_bit_nat_eq_self signed_take_bit_int_eq_self)

lemma copy_n_append: "copy_n (int (length xs)) (xs @ ys) = Inr (xs, ys)"
  by (simp add: copy_n_def)

lemma readRecord_frame:
  assumes "length pl < 2 ^ 63"
  shows "readRecord (frame pl @ rest) = Inr (record_of pl, rest)"
proof -
  note len = length_field_exact [OF assms]
  show ?thesis
    by (simp add: readRecord_def frame_def readHeader_header len copy_n_append isValid_def record_of_def)
qed

lemma readRecord_consumes:
  assumes "readRecord bs = Inr (r, rest)"
  shows "\<exists>h. length h = headerLength \<and> bs = h @ payload r @ rest \<and> isValid r \<and> magic r = recordMagic"
proof -
  from assms obtain r0 bs0 where h: "readHeader bs = Inr (r0, bs0)" "magic r0 = recordMagic"
    by (auto simp: readRecord_def split: sum.splits prod.splits if_splits)
  obtain hd where hd: "bs = hd @ bs0" "length hd = headerLength"
    using readHeader_consumes [OF h(1)] by auto
  from assms h have "bs0 = payload r @ rest" "isValid r" "magic r = recordMagic"
    by (auto simp: readRecord_def read_full_Inr_iff copy_n_def Let_def
          split: sum.splits prod.splits if_splits)
  with hd show ?thesis by auto
qed

interpretation log_codec: framed_codec frame
    "\<lambda>bs. map_sum id (map_prod payload id) (readRecord bs)" "\<lambda>pl. length pl < 2 ^ 63"
proof unfold_locales
  fix bs rest :: bytes and pl
  assume "map_sum id (map_prod payload id) (readRecord bs) = Inr (pl, rest)"
  then obtain r where "readRecord bs = Inr (r, rest)"
    by (cases "readRecord bs") auto
  then show "length rest < length bs"
    by (auto dest!: readRecord_consumes simp: headerLength_def)
qed (simp add: readRecord_frame)

lemma lf_readRecord_frame:
  assumes fd: "lf_fd lf = pre @ frame pl @ post" and off: "off = int (length pre)"
    and "length pl \<le> 2 ^ 48"
  shows "lf_readRecord lf off = Inr (record_of pl)"
proof -
  have small: "length pl < 2 ^ 63" using assms(3) by simp
  have alloc: "\<not> (max_alloc < (of_nat (length pl) :: u64))"
    using assms(3) length_field_exact [OF small]
    by (simp add: word_less_nat_alt max_alloc_def)
  let ?h = "put_le 4 recordMagic @ put_le 8 (of_nat (length pl) :: u64) @ put_le 4 (crc32_castagnoli pl)"
  have h: "read_at (lf_fd lf) headerLength off = Inr ?h"
    using read_at_append [of off pre ?h headerLength "pl @ post"] off
    by (simp add: fd frame_def headerLength_def)
  have p: "read_at (lf_fd lf) (length pl) (off + int headerLength) = Inr pl"
    using read_at_append [of "off + int headerLength" "pre @ ?h" pl "length pl" post] off
    by (simp add: fd frame_def headerLength_def)
  show ?thesis
    using length_field_exact [OF small] alloc readHeader_header [of _ _ _ "[]"]
    by (simp add: lf_readRecord_def h p isValid_def record_of_def Let_def)
qed

section \<open>Properties of the scan\<close>

definition magic_at :: "bytes \<Rightarrow> nat \<Rightarrow> bool" where
  "magic_at bs i \<longleftrightarrow> i + 4 \<le> length bs \<and> get_le (take 4 (drop i bs)) = recordMagic"

lemma seek_found:
  "magic_at bs k \<Longrightarrow> \<forall>i<k. \<not> magic_at bs i \<Longrightarrow> seekToNextRecord bs = (k, None, drop k bs)"
proof (induction k arbitrary: bs)
  case 0
  then show ?case by (simp add: seekToNextRecord.simps [of bs] magic_at_def)
next
  case (Suc k)
  from Suc.prems obtain b bs' where bs: "bs = b # bs'"
    by (cases bs) (auto simp: magic_at_def)
  have "magic_at bs' k" "\<forall>i<k. \<not> magic_at bs' i"
    using Suc.prems by (auto simp: bs magic_at_def)
  then have "seekToNextRecord bs' = (k, None, drop k bs')" by (rule Suc.IH)
  moreover have "\<not> length bs < 4" "get_le (take 4 bs) \<noteq> recordMagic"
    using Suc.prems(1) spec [OF Suc.prems(2), of 0] by (auto simp: magic_at_def)
  ultimately show ?case by (simp add: seekToNextRecord.simps [of "b # bs'"] bs)
qed

lemma seek_not_found:
  "\<forall>i. \<not> magic_at bs i \<Longrightarrow> \<exists>n rest. seekToNextRecord bs = (n, Some EOF, rest)"
proof (induction bs)
  case Nil
  then show ?case by (simp add: seekToNextRecord.simps)
next
  case (Cons b bs)
  have "\<not> magic_at bs i" for i
    using spec [OF Cons.prems, of "Suc i"] by (simp add: magic_at_def)
  with Cons.IH obtain n rest where "seekToNextRecord bs = (n, Some EOF, rest)" by auto
  then show ?case
    using spec [OF Cons.prems, of 0]
    by (auto simp: seekToNextRecord.simps [of "b # bs"] magic_at_def)
qed

lemma seek_dichotomy:
  "(\<exists>k. magic_at bs k \<and> (\<forall>i<k. \<not> magic_at bs i) \<and> seekToNextRecord bs = (k, None, drop k bs)) \<or>
   (\<exists>n rest. (\<forall>i. \<not> magic_at bs i) \<and> seekToNextRecord bs = (n, Some EOF, rest))"
proof (cases "\<exists>k. magic_at bs k")
  case True
  then obtain k where "magic_at bs k" "\<forall>i<k. \<not> magic_at bs i"
    using exists_least_iff [of "magic_at bs"] by auto
  with seek_found show ?thesis by blast
next
  case False
  with seek_not_found [of bs] show ?thesis by auto
qed

text \<open>A part of a log file: records, gaps left by a corruption, a tail that holds no record.
  \<open>layout bs off rs\<close> relates the bytes from offset \<open>off\<close> on to the payloads and their offsets.
  A gap ends at the next occurrence of the magic, which is the next record.\<close>

inductive layout :: "bytes \<Rightarrow> int \<Rightarrow> (int \<times> bytes) list \<Rightarrow> bool" where
  layout_end: "layout [] off []"
| layout_record:
    "length pl < 2 ^ 63 \<Longrightarrow> layout rest (off + int (length (frame pl))) rs \<Longrightarrow>
     layout (frame pl @ rest) off ((off, pl) # rs)"
| layout_gap:
    "g \<noteq> [] \<Longrightarrow> readRecord (g @ frame pl @ rest) = Inl e \<Longrightarrow>
     \<forall>i. 0 < i \<and> i < length g \<longrightarrow> \<not> magic_at (g @ frame pl @ rest) i \<Longrightarrow>
     layout (frame pl @ rest) (off + int (length g)) rs \<Longrightarrow>
     layout (g @ frame pl @ rest) off rs"
| layout_tail:
    "g \<noteq> [] \<Longrightarrow> readRecord g = Inl e \<Longrightarrow> \<forall>i. 0 < i \<longrightarrow> \<not> magic_at g i \<Longrightarrow> layout g off []"

text \<open>The calls of the callback, in order, up to the first error.\<close>

fun visit :: "'s scan_fn \<Rightarrow> u32 \<Rightarrow> (int \<times> bytes) list \<Rightarrow> 's \<Rightarrow> go_error option \<times> 's" where
  "visit fn fid [] s = (None, s)"
| "visit fn fid ((off, pl) # rs) s =
     (case fn (VP fid off) (record_of pl) s of
        (Some e, s) \<Rightarrow> (Some e, s)
      | (None, s) \<Rightarrow> visit fn fid rs s)"

lemma visit_append:
  "visit fn fid (xs @ ys) s =
     (case visit fn fid xs s of (Some e, s) \<Rightarrow> (Some e, s) | (None, s) \<Rightarrow> visit fn fid ys s)"
  by (induction fn fid xs s rule: visit.induct) (auto split: prod.splits option.splits)

lemma magic_at_frame: "magic_at (frame pl @ rest) 0"
  by (simp add: magic_at_def frame_def get_le_put_le)

lemma take_drop_suffix:
  "take n (drop k xs) = ys @ zs \<Longrightarrow> take (n - length ys) (drop (k + length ys) xs) = zs"
  by (metis add.commute append_eq_conv_conj drop_drop drop_take)

lemma section_reader_suffix:
  assumes "take (nat (sz - off)) (drop (nat off) fd) = xs @ ys" "0 \<le> off" "sz \<le> int (length fd)"
    "off' = off + int (length xs)" "off \<le> sz"
  shows "section_reader fd off' (sz - off') = Inr ys"
    "take (nat (sz - off')) (drop (nat off') fd) = ys"
proof -
  have "nat (sz - off') = nat (sz - off) - length xs" "nat off' = nat off + length xs"
    using assms(2,4) by auto
  then show sec: "take (nat (sz - off')) (drop (nat off') fd) = ys"
    using take_drop_suffix [OF assms(1)] by simp
  then show "section_reader fd off' (sz - off') = Inr ys"
    using assms(2,4) by (auto simp: section_reader_def)
qed

lemma scan_step_end: "\<not> off < sz \<Longrightarrow> scan_loop lf fn sz off rd s reports = (None, s, reports)"
  by (simp add: scan_loop.simps)

lemma scan_step_record:
  "off < sz \<Longrightarrow> readRecord bs = Inr (r, rest) \<Longrightarrow>
   scan_loop lf fn sz off (Inr bs) s reports =
     (case fn (VP (lf_fid lf) off) r s of
        (Some err, s) \<Rightarrow> (Some err, s, reports)
      | (None, s) \<Rightarrow> scan_loop lf fn sz (off + recordLength r) (Inr rest) s reports)"
  by (simp add: scan_loop.simps [of _ _ _ off])

lemma scan_step_gap:
  "off < sz \<Longrightarrow> readRecord bs = Inl e \<Longrightarrow>
   section_reader (lf_fd lf) (off + 1) (sz - (off + 1)) = Inr bs' \<Longrightarrow>
   seekToNextRecord bs' = (n, None, bs'') \<Longrightarrow>
   scan_loop lf fn sz off (Inr bs) s reports =
     scan_loop lf fn sz (off + 1 + int n) (Inr bs'') s (reports @ [(int n + 1, e)])"
  by (simp add: scan_loop.simps [of _ _ _ off])

lemma scan_step_tail:
  "off < sz \<Longrightarrow> readRecord bs = Inl e \<Longrightarrow>
   section_reader (lf_fd lf) (off + 1) (sz - (off + 1)) = Inr bs' \<Longrightarrow>
   seekToNextRecord bs' = (n, Some EOF, bs'') \<Longrightarrow>
   scan_loop lf fn sz off (Inr bs) s reports = (None, s, reports @ [(sz - (off + 1), e)])"
  by (simp add: scan_loop.simps [of _ _ _ off])

lemmas scan_steps = scan_step_end scan_step_record scan_step_gap scan_step_tail

lemma gap_seek:
  assumes "\<forall>i. 0 < i \<and> i < length (b # g) \<longrightarrow> \<not> magic_at ((b # g) @ frame pl @ rest) i"
  shows "seekToNextRecord (g @ frame pl @ rest) = (length g, None, frame pl @ rest)"
proof -
  have "magic_at (g @ frame pl @ rest) (length g)"
    using magic_at_frame [of pl rest] by (simp add: magic_at_def)
  moreover have "\<not> magic_at (g @ frame pl @ rest) i" if "i < length g" for i
    using spec [OF assms, of "Suc i"] that by (simp add: magic_at_def)
  ultimately show ?thesis
    using seek_found [of "g @ frame pl @ rest" "length g"] by simp
qed

lemma tail_seek:
  assumes "\<forall>i. 0 < i \<longrightarrow> \<not> magic_at (b # g) i"
  shows "\<exists>n rest. seekToNextRecord g = (n, Some EOF, rest)"
proof (rule seek_not_found, rule allI)
  fix i show "\<not> magic_at g i"
    using spec [OF assms, of "Suc i"] by (simp add: magic_at_def)
qed

definition section_at :: "logFile \<Rightarrow> int \<Rightarrow> int \<Rightarrow> bytes" where
  "section_at lf sz off = take (nat (sz - off)) (drop (nat off) (lf_fd lf))"

lemma section_at_suffix:
  assumes "section_at lf sz off = xs @ ys" "0 \<le> off" "off \<le> sz" "sz \<le> int (length (lf_fd lf))"
  defines "off' \<equiv> off + int (length xs)"
  shows "section_at lf sz off' = ys" "section_reader (lf_fd lf) off' (sz - off') = Inr ys"
    "off' \<le> sz" "xs \<noteq> [] \<Longrightarrow> off < sz"
proof -
  have "int (length (xs @ ys)) = sz - off"
    using arg_cong [OF assms(1), of length] assms(2-4) by (auto simp: section_at_def)
  then show "off' \<le> sz" "xs \<noteq> [] \<Longrightarrow> off < sz" by (cases xs; auto simp: off'_def)+
  show "section_at lf sz off' = ys" "section_reader (lf_fd lf) off' (sz - off') = Inr ys"
    using section_reader_suffix [OF assms(1) [unfolded section_at_def] assms(2,4) _ assms(3)]
    by (simp_all add: section_at_def off'_def)
qed

lemma scan_loop_layout:
  "layout bs off rs \<Longrightarrow> section_at lf sz off = bs \<Longrightarrow> 0 \<le> off \<Longrightarrow> off \<le> sz \<Longrightarrow>
   sz \<le> int (length (lf_fd lf)) \<Longrightarrow>
   \<exists>reports'. scan_loop lf fn sz off (Inr bs) s reports =
     (case visit fn (lf_fid lf) rs s of (err, s) \<Rightarrow> (err, s, reports'))"
proof (induction arbitrary: s reports rule: layout.induct)
  case (layout_end off)
  then have "\<not> off < sz" by (auto simp: section_at_def)
  then show ?case by (simp add: scan_steps)
next
  case (layout_record pl rest off rs)
  note sec = section_at_suffix [OF layout_record.prems]
  have "off < sz" by (rule sec(4)) simp
  note step = scan_step_record [OF this readRecord_frame [OF layout_record.hyps(1)]]
  obtain err s' where fn: "fn (VP (lf_fid lf) off) (record_of pl) s = (err, s')" by fastforce
  show ?case
  proof (cases err)
    case None
    with layout_record.IH [OF sec(1) _ sec(3) layout_record.prems(4), of s' reports] fn
      layout_record.prems(2) show ?thesis by (simp add: step)
  qed (use fn in \<open>simp add: step\<close>)
next
  case (layout_gap g pl rest e off rs)
  obtain b g' where g: "g = b # g'" using layout_gap.hyps(1) by (cases g) auto
  have "section_at lf sz off = [b] @ (g' @ frame pl @ rest)" using layout_gap.prems(1) g by simp
  note sec1 = section_at_suffix [OF this layout_gap.prems(2-4)]
  note sec = section_at_suffix [OF layout_gap.prems]
  have sec': "section_reader (lf_fd lf) (off + 1) (sz - (off + 1)) = Inr (g' @ frame pl @ rest)"
    using sec1(2) by simp
  note seek = gap_seek [OF layout_gap.hyps(3) [unfolded g]]
  have "scan_loop lf fn sz off (Inr (g @ frame pl @ rest)) s reports =
      scan_loop lf fn sz (off + int (length g)) (Inr (frame pl @ rest)) s
        (reports @ [(int (length g') + 1, e)])"
    using scan_step_gap [OF sec(4) [OF layout_gap.hyps(1)] layout_gap.hyps(2) sec' seek]
    by (simp add: g algebra_simps)
  then show ?case
    using layout_gap.IH [OF sec(1) _ sec(3) layout_gap.prems(4)] layout_gap.prems(2) by simp
next
  case (layout_tail g e off)
  obtain b g' where g: "g = b # g'" using layout_tail.hyps(1) by (cases g) auto
  have "section_at lf sz off = [b] @ g'" using layout_tail.prems(1) g by simp
  note sec = section_at_suffix [OF this layout_tail.prems(2-4)]
  obtain n rest where "seekToNextRecord g' = (n, Some EOF, rest)"
    using tail_seek layout_tail.hyps(3) g by blast
  from scan_step_tail [OF sec(4) layout_tail.hyps(2) _ this, of lf fn s reports] sec(2)
  show ?case by simp
qed

text \<open>A scan over a well-formed part of a file.\<close>

lemma scan_layout:
  assumes "layout (section_at lf sz off) off rs" "0 \<le> off" "off \<le> sz"
    and "sz = int (length (lf_fd lf)) - (if lf_end lf then int fileFooterLength else 0)"
  shows "\<exists>reports. scan lf off fn s =
    (case visit fn (lf_fid lf) rs s of (err, s) \<Rightarrow> (err, s, reports))"
proof -
  have "sz \<le> int (length (lf_fd lf))" using assms(4) by (auto simp: fileFooterLength_def)
  note sec = section_at_suffix [of lf sz off "[]" "section_at lf sz off", OF _ assms(2,3) this]
  show ?thesis
    using scan_loop_layout [OF assms(1) refl assms(2,3), of fn s "[]"] sec assms(4)
    by (auto simp: scan_def Let_def)
qed

lemma layout_frames:
  "list_all (\<lambda>pl. length pl < 2 ^ 63) pls \<Longrightarrow> \<exists>rs. layout (concat (map frame pls)) off rs \<and> map snd rs = pls"
proof (induction pls arbitrary: off)
  case (Cons pl pls)
  then obtain rs where "layout (concat (map frame pls)) (off + int (length (frame pl))) rs" "map snd rs = pls"
    by fastforce
  with Cons.prems show ?case
    using layout_record [of pl "concat (map frame pls)" off rs] by auto
qed (auto intro: layout_end)


text \<open>A scan of arbitrary bytes: whatever it hands to the callback is a checksummed record that
  stands in the file at the reported offset, offsets increase, and the scan ends without an error.\<close>

definition collect_fn :: "(valuePointer \<times> Record) list scan_fn" where
  "collect_fn vp r acc = (None, acc @ [(vp, r)])"

fun records_in :: "logFile \<Rightarrow> int \<Rightarrow> int \<Rightarrow> (valuePointer \<times> Record) list \<Rightarrow> bool" where
  "records_in lf sz off [] = True"
| "records_in lf sz off ((vp, r) # rest) =
     (Fid vp = lf_fid lf \<and> off \<le> Offset vp \<and>
      (\<exists>bs. readRecord (section_at lf sz (Offset vp)) = Inr (r, bs)) \<and>
      records_in lf sz (Offset vp + recordLength r) rest)"

lemma records_in_mono: "records_in lf sz off rs \<Longrightarrow> off' \<le> off \<Longrightarrow> records_in lf sz off' rs"
  by (cases rs) auto

lemma scan_loop_sound:
  assumes "0 \<le> off" "off \<le> sz" "sz \<le> int (length (lf_fd lf))"
  shows "\<exists>rs reports'. scan_loop lf collect_fn sz off (Inr (section_at lf sz off)) acc reports =
    (None, acc @ rs, reports') \<and> records_in lf sz off rs"
  using assms
proof (induction "nat (sz - off)" arbitrary: off acc reports rule: less_induct)
  case less
  note bounds = less.prems
  show ?case
  proof (cases "off < sz")
    case lt: True
    show ?thesis
    proof (cases "readRecord (section_at lf sz off)")
      case (Inr p)
      obtain r rest where rr: "readRecord (section_at lf sz off) = Inr (r, rest)"
        using Inr by (cases p) auto
      then obtain h where h: "section_at lf sz off = (h @ payload r) @ rest" "length h = headerLength"
        using readRecord_consumes by fastforce
      have len: "off + int (length (h @ payload r)) = off + recordLength r"
        using h(2) by (simp add: recordLength_def)
      note sec = section_at_suffix [OF h(1) bounds, unfolded len]
      have "nat (sz - (off + recordLength r)) < nat (sz - off)"
        using lt by (simp add: recordLength_def headerLength_def)
      from less.hyps [OF this _ sec(3) bounds(3), of "acc @ [(VP (lf_fid lf) off, r)]" reports]
      obtain rs reports' where "scan_loop lf collect_fn sz (off + recordLength r) (Inr rest)
          (acc @ [(VP (lf_fid lf) off, r)]) reports = (None, acc @ (VP (lf_fid lf) off, r) # rs, reports')"
        "records_in lf sz (off + recordLength r) rs"
        using sec(1) bounds(1) by (auto simp: recordLength_def)
      then show ?thesis
        using scan_step_record [OF lt rr, of lf collect_fn acc reports] rr
        by (auto simp: collect_fn_def intro!: exI [of _ "(VP (lf_fid lf) off, r) # rs"])
    next
      case (Inl e)
      obtain b bs where "section_at lf sz off = [b] @ bs"
        using lt bounds by (cases "section_at lf sz off") (auto simp: section_at_def)
      note sec = section_at_suffix [OF this bounds]
      consider n rest where "seekToNextRecord bs = (n, Some EOF, rest)"
        | k where "magic_at bs k" "seekToNextRecord bs = (k, None, drop k bs)"
        using seek_dichotomy by blast
      then show ?thesis
      proof cases
        case 1
        from scan_step_tail [OF lt Inl _ this, of lf collect_fn acc reports] sec(2) show ?thesis
          by (auto intro: exI [of _ "[]"])
      next
        case 2
        have "section_at lf sz (off + 1) = take k bs @ drop k bs" using sec(1) by simp
        moreover have "length (take k bs) = k" using 2(1) by (simp add: magic_at_def)
        ultimately have sec': "section_at lf sz (off + 1 + int k) = drop k bs" "off + 1 + int k \<le> sz"
          using section_at_suffix(1,3) [of lf sz "off + 1" "take k bs" "drop k bs"] bounds lt by simp_all
        have "nat (sz - (off + 1 + int k)) < nat (sz - off)" using lt by simp
        from less.hyps [OF this _ sec'(2) bounds(3), of acc "reports @ [(int k + 1, e)]"]
        obtain rs reports' where "scan_loop lf collect_fn sz (off + 1 + int k) (Inr (drop k bs)) acc
            (reports @ [(int k + 1, e)]) = (None, acc @ rs, reports')"
          "records_in lf sz (off + 1 + int k) rs"
          using sec'(1) bounds(1) by auto
        then show ?thesis
          using scan_step_gap [OF lt Inl _ 2(2), of lf collect_fn acc reports] sec(2)
            records_in_mono [of lf sz "off + 1 + int k" rs off] by auto
      qed
    qed
  qed (simp add: scan_steps)
qed

text \<open>Writing and finalising a file, when the system calls succeed.\<close>

definition footer :: "int \<Rightarrow> bytes" where
  "footer ts = put_le 8 (u64_of_int64 ts) @ put_le 4 fileEndMagic"

lemma length_footer [simp]: "length (footer ts) = fileFooterLength"
  by (simp add: footer_def fileFooterLength_def)

lemma finalize_ok:
  "\<not> lf_end lf \<Longrightarrow> finalize lf [] = (None, lf\<lparr>lf_fd := lf_fd lf @ footer (lf_maxTS lf), lf_end := True\<rparr>, [])"
  by (simp add: finalize_def fd_write_def fdatasync_def footer_def)

lemma newLogFile_footer:
  assumes "int64_range ts"
  shows "newLogFile u fid name (data @ footer ts) [] =
    (Inr \<lparr>lf_fid = fid, lf_path = name, lf_writeOffset = int (length data) + int fileFooterLength,
          lf_fd = data @ footer ts, lf_maxTS = ts, lf_end = True\<rparr>, [])"
  using assms by (simp add: newLogFile_def Let_def footer_def fileFooterLength_def get_le_put_le)

text \<open>Any bytes that end with the end magic are taken for a finished file.\<close>

lemma newLogFile_end_magic:
  assumes "content = data @ put_le 8 w @ put_le 4 fileEndMagic"
  shows "newLogFile u fid name content [] =
    (Inr \<lparr>lf_fid = fid, lf_path = name, lf_writeOffset = int (length content),
          lf_fd = content, lf_maxTS = int64_of_u64 w, lf_end = True\<rparr>, [])"
  using assms by (simp add: newLogFile_def Let_def fileFooterLength_def get_le_put_le)

text \<open>Reopening an unfinished file.\<close>

lemma visit_recover:
  assumes "\<forall>(off, pl) \<in> set rs. u pl = Inr (bin pl)"
  shows "visit (recover_fn u) fid rs m =
    (None, Max (insert m (\<Union>(off, pl) \<in> set rs. {StartTs (bin pl), CommitTs (bin pl)})))"
  using assms
proof (induction rs arbitrary: m)
  case (Cons r rs)
  obtain off pl where r: "r = (off, pl)" by (cases r)
  let ?S = "\<Union>(off, pl) \<in> set rs. {StartTs (bin pl), CommitTs (bin pl)}"
  have fin: "finite ?S" by auto
  have "visit (recover_fn u) fid (r # rs) m =
      visit (recover_fn u) fid rs (max (StartTs (bin pl)) (max (CommitTs (bin pl)) m))"
    using Cons.prems by (simp add: r recover_fn_def Let_def max_def)
  also have "\<dots> = (None, Max (insert (max (StartTs (bin pl)) (max (CommitTs (bin pl)) m)) ?S))"
    using Cons by auto
  also have "Max (insert (max (StartTs (bin pl)) (max (CommitTs (bin pl)) m)) ?S) =
      Max (insert m (insert (StartTs (bin pl)) (insert (CommitTs (bin pl)) ?S)))"
    using fin by (cases "?S = {}") (simp_all add: max.left_commute max.commute max.assoc)
  finally show ?case by (simp add: r insert_commute)
qed simp

definition lacks_footer :: "bytes \<Rightarrow> bool" where
  "lacks_footer content \<longleftrightarrow>
     length content < fileFooterLength \<or> get_le (drop (length content - 4) content) \<noteq> fileEndMagic"

lemma newLogFile_unfinished:
  assumes "lacks_footer content" and lay: "layout content 0 rs"
    and dec: "\<forall>(off, pl) \<in> set rs. u pl = Inr (bin pl)"
  shows "newLogFile u fid name content [] =
    (Inr \<lparr>lf_fid = fid, lf_path = name, lf_writeOffset = int (length content), lf_fd = content,
          lf_maxTS = Max (insert 0 (\<Union>(off, pl) \<in> set rs. {StartTs (bin pl), CommitTs (bin pl)})),
          lf_end = False\<rparr>, [])"
proof -
  let ?lf = "\<lparr>lf_fid = fid, lf_path = name, lf_writeOffset = int (length content),
     lf_fd = content, lf_maxTS = 0, lf_end = False\<rparr>"
  have "section_at ?lf (int (length content)) 0 = content" by (simp add: section_at_def)
  then have "\<exists>reports. scan ?lf 0 (recover_fn u) 0 =
      (case visit (recover_fn u) fid rs 0 of (err, s) \<Rightarrow> (err, s, reports))"
    using scan_layout [of ?lf "int (length content)" 0 rs] lay by simp
  moreover have "\<not> (fileFooterLength \<le> length content \<and>
      get_le (drop 8 (drop (length content - fileFooterLength) content)) = fileEndMagic)"
    using assms(1) by (auto simp: lacks_footer_def fileFooterLength_def)
  ultimately show ?thesis
    by (auto simp: newLogFile_def Let_def recover_def visit_recover [OF dec])
qed

section \<open>The log file is correct\<close>

definition scan_size :: "logFile \<Rightarrow> int" where
  "scan_size lf = int (length (lf_fd lf)) - (if lf_end lf then int fileFooterLength else 0)"

definition garbage_example :: logFile where
  "garbage_example = \<lparr>lf_fid = 3, lf_path = ''000003.vlog'', lf_writeOffset = 0,
     lf_fd = frame [1] @ [7, 8] @ frame [2, 3] @ [9], lf_maxTS = 0, lf_end = False\<rparr>"

lemma garbage_example_layout:
  "layout (section_at garbage_example (scan_size garbage_example) 0) 0 [(0, [1]), (19, [2, 3])]"
proof -
  have tail: "layout [9] 37 []"
    by (rule layout_tail [where e = ErrUnexpectedEOF]) (auto simp: magic_at_def, code_simp)
  have "layout (frame [2, 3] @ [9]) 19 [(19, [2, 3])]"
    by (rule layout_record) (use tail in \<open>simp_all add: headerLength_def\<close>)
  then have "layout ([7, 8] @ frame [2, 3] @ [9]) 17 [(19, [2, 3])]"
    by (intro layout_gap [where e = ErrWrongMagic]) (auto simp: less_Suc_eq numeral_2_eq_2 , code_simp+)
  then have "layout (frame [1] @ [7, 8] @ frame [2, 3] @ [9]) 0 [(0, [1]), (19, [2, 3])]"
    by (intro layout_record) (simp_all add: headerLength_def)
  moreover have "section_at garbage_example (scan_size garbage_example) 0 = frame [1] @ [7, 8] @ frame [2, 3] @ [9]"
    by (simp add: section_at_def garbage_example_def scan_size_def)
  ultimately show ?thesis by simp
qed


text \<open>On arbitrary bytes a scan ends without an error of its own, and whatever it delivers is a
  record whose magic and checksum are right, read at the offset it reports; the delivered records
  do not overlap and come in file order.\<close>

theorem scan_sound:
  assumes "0 \<le> off" "off \<le> scan_size lf"
  shows "\<exists>rs reports. scan lf off collect_fn [] = (None, rs, reports) \<and>
    records_in lf (scan_size lf) off rs"
proof -
  have sz: "scan_size lf \<le> int (length (lf_fd lf))" by (simp add: scan_size_def)
  have "section_reader (lf_fd lf) off (scan_size lf - off) = Inr (section_at lf (scan_size lf) off)"
    using section_at_suffix(2) [of lf "scan_size lf" off "[]", OF _ assms sz] by simp
  then show ?thesis
    using scan_loop_sound [OF assms sz, of "[]" "[]"]
    by (simp add: scan_def Let_def scan_size_def)
qed

theorem scan_sound_witness:
  "(0::int) \<le> 5 \<and> 5 \<le> scan_size garbage_example \<and>
   (\<exists>rs reports. scan garbage_example 5 collect_fn [] = (None, rs, reports) \<and>
      records_in garbage_example (scan_size garbage_example) 5 rs)"
  using scan_sound [of 5 garbage_example]
  by (simp add: scan_size_def garbage_example_def headerLength_def)

text \<open>A finished file reopens as finished, with the maximal timestamp it was finished with and
  without reading its records.\<close>

theorem finalize_reopen:
  assumes "\<not> lf_end lf" "int64_range (lf_maxTS lf)"
  shows "\<exists>lf1 lf2. finalize lf [] = (None, lf1, []) \<and>
    newLogFile u (lf_fid lf) (lf_path lf) (lf_fd lf1) [] = (Inr lf2, []) \<and>
    lf_end lf2 \<and> lf_maxTS lf2 = lf_maxTS lf \<and> lf_fd lf2 = lf_fd lf1 \<and>
    section_at lf2 (scan_size lf2) 0 = lf_fd lf"
  using assms
  by (simp add: finalize_ok newLogFile_footer section_at_def scan_size_def fileFooterLength_def)

theorem finalize_reopen_witness:
  "\<exists>lf1 lf2. finalize garbage_example [] = (None, lf1, []) \<and>
     newLogFile (\<lambda>_. Inl EOF) 3 ''000003.vlog'' (lf_fd lf1) [] = (Inr lf2, []) \<and> lf_end lf2"
  using finalize_reopen [of garbage_example "\<lambda>_. Inl EOF"]
  by (auto simp: garbage_example_def int64_range_def)

text \<open>An unfinished file reopens for appending at its end, and recovery finds the maximum of the
  start and commit timestamps of all its intact records.\<close>

theorem reopen_recovers_maxTS:
  assumes "lacks_footer content" "layout content 0 rs"
    and "\<forall>(off, pl) \<in> set rs. u pl = Inr (bin pl)"
  shows "\<exists>lf. newLogFile u fid name content [] = (Inr lf, []) \<and> \<not> lf_end lf \<and>
    lf_writeOffset lf = int (length content) \<and>
    (\<forall>(off, pl) \<in> set rs. StartTs (bin pl) \<le> lf_maxTS lf \<and> CommitTs (bin pl) \<le> lf_maxTS lf) \<and>
    (lf_maxTS lf = 0 \<or>
      (\<exists>(off, pl) \<in> set rs. lf_maxTS lf = StartTs (bin pl) \<or> lf_maxTS lf = CommitTs (bin pl)))"
proof -
  let ?S = "insert 0 (\<Union>(off, pl) \<in> set rs. {StartTs (bin pl), CommitTs (bin pl)})"
  have fin: "finite ?S" by auto
  have "Max ?S \<in> ?S" by (rule Max_in) (use fin in auto)
  moreover have "t \<le> Max ?S" if "t \<in> ?S" for t by (rule Max_ge [OF fin that])
  ultimately show ?thesis
    unfolding newLogFile_unfinished [OF assms] by fastforce
qed

definition example_unmarshal :: binlog_unmarshal where
  "example_unmarshal pl = Inr \<lparr>Tp = Prewrite, StartTs = int (length pl), CommitTs = 0, PrewriteKey = [],
     PrewriteValue = pl, DdlQuery = [], DdlJobId = 0, DdlSchemaState = 0\<rparr>"

theorem reopen_recovers_maxTS_witness:
  "\<exists>lf. newLogFile example_unmarshal 3 [] (lf_fd garbage_example) [] = (Inr lf, []) \<and> lf_maxTS lf \<ge> 2"
proof -
  have "section_at garbage_example (scan_size garbage_example) 0 = lf_fd garbage_example"
    by (simp add: section_at_def garbage_example_def scan_size_def)
  then have "layout (lf_fd garbage_example) 0 [(0, [1]), (19, [2, 3])]"
    using garbage_example_layout by simp
  moreover have "lacks_footer (lf_fd garbage_example)" by code_simp
  ultimately show ?thesis
    using reopen_recovers_maxTS [of "lf_fd garbage_example" "[(0, [1]), (19, [2, 3])]"
        example_unmarshal "\<lambda>pl. projr (example_unmarshal pl)" 3 "[]"]
    by (auto simp: example_unmarshal_def)
qed

text \<open>C38. An unfinished file whose last payload ends with the bytes of the end magic reopens as finished:
  its maximal timestamp is the eight payload bytes before the magic.\<close>

theorem unfinished_file_taken_for_finished:
  "\<exists>lf. newLogFile u fid name (data @ frame (q @ put_le 8 w @ put_le 4 fileEndMagic)) [] = (Inr lf, []) \<and>
     lf_end lf \<and> lf_maxTS lf = int64_of_u64 w"
proof -
  have "data @ frame (q @ put_le 8 w @ put_le 4 fileEndMagic) =
      (data @ take headerLength (frame (q @ put_le 8 w @ put_le 4 fileEndMagic)) @ q) @
      put_le 8 w @ put_le 4 fileEndMagic"
    by (simp add: frame_def headerLength_def)
  from newLogFile_end_magic [OF this] show ?thesis by simp
qed

end
