(* ===== verification/VLog.thy ===== *)
theory VLog
  imports LogFile
begin

text \<open>
  The value log of a pump, \<^verbatim>\<open>pump/storage/vlog.go\<close>: a directory of numbered log files, of which
  the last one is appended to and rotated when it is full.

  \<open>v_filesMap\<close> is the map of open files. \<open>v_disk\<close> holds the other files of the directory, by name:
  \<^verbatim>\<open>createLogFile\<close> finds their content there, and a file whose removal fails stays there. Names are
  relative to \<^verbatim>\<open>dirPath\<close>. \<open>v_io\<close> is the plan of the results of the coming system calls. The file map
  is only touched under \<^verbatim>\<open>filesLock\<close> and the operations run one at a time, so each is one
  function on the state. The option \<^verbatim>\<open>SlowWriteThreshold\<close> only drives a log message and is left out.
\<close>

section \<open>Options and requests\<close>

record Options =
  ValueLogFileSize :: int
  opt_Sync :: bool
  KVChanCapacity :: int
  StopWriteAtAvailableSpace :: u64

definition chanCapacity :: int where "chanCapacity = 1048576"

definition DefaultOptions :: Options where
  "DefaultOptions = \<lparr>ValueLogFileSize = 500 * 2 ^ 20, opt_Sync = True, KVChanCapacity = chanCapacity,
     StopWriteAtAvailableSpace = 0\<rparr>"

definition WithStopWriteAtAvailableSpace :: "u64 \<Rightarrow> Options \<Rightarrow> Options" where
  "WithStopWriteAtAvailableSpace bytes opt = opt\<lparr>StopWriteAtAvailableSpace := bytes\<rparr>"

definition WithValueLogFileSize :: "int \<Rightarrow> Options \<Rightarrow> Options" where
  "WithValueLogFileSize sz opt = opt\<lparr>ValueLogFileSize := sz\<rparr>"

definition WithKVChanCapacity :: "int \<Rightarrow> Options \<Rightarrow> Options" where
  "WithKVChanCapacity capacity opt = opt\<lparr>KVChanCapacity := capacity\<rparr>"

definition WithSync :: "bool \<Rightarrow> Options \<Rightarrow> Options" where
  "WithSync sync opt = opt\<lparr>opt_Sync := sync\<rparr>"

record request =
  startTS :: int
  commitTS :: int
  tp :: BinlogType
  req_payload :: bytes
  req_vp :: valuePointer
  req_err :: "go_error option"

definition ts :: "request \<Rightarrow> int" where
  "ts r = (if tp r = Prewrite then startTS r else commitTS r)"

section \<open>The value log\<close>

record valueLog =
  v_sync :: bool
  v_maxFid :: u32
  v_filesMap :: "(u32 \<times> logFile) list"
  v_opt :: Options
  v_disk :: "(string \<times> bytes) list"
  v_io :: "io_outcome list"

definition finalizeFileSizeAtClose :: int where "finalizeFileSizeAtClose = 50 * 1024"

definition fileExt :: string where "fileExt = ''.vlog''"

definition filePath :: "u32 \<Rightarrow> string" where
  "filePath fid = pad_dec 6 (unat fid) @ fileExt"

definition getFile :: "valueLog \<Rightarrow> u32 \<Rightarrow> go_error + logFile" where
  "getFile vlog fid = (case map_of (v_filesMap vlog) fid of None \<Rightarrow> Inl ErrNotFound | Some lf \<Rightarrow> Inr lf)"

text \<open>A file is opened under its path, or created. Its content is that of the open descriptor with the same
  path, if there is one, or else that of the directory.\<close>

definition openFile :: "binlog_unmarshal \<Rightarrow> u32 \<Rightarrow> valueLog \<Rightarrow> go_error option \<times> valueLog" where
  "openFile unmarshal fid vlog =
     (let path = filePath fid;
          content = (case map_of (v_filesMap vlog) fid of
                       Some lf \<Rightarrow> lf_fd lf
                     | None \<Rightarrow> (case map_of (v_disk vlog) path of None \<Rightarrow> [] | Some bs \<Rightarrow> bs))
      in case newLogFile unmarshal fid path content (v_io vlog) of
           (Inl e, io) \<Rightarrow> (Some e, vlog\<lparr>v_io := io\<rparr>)
         | (Inr lf, io) \<Rightarrow>
             (None, vlog\<lparr>v_filesMap := AList.update fid lf (v_filesMap vlog),
                         v_disk := AList.delete path (v_disk vlog), v_io := io\<rparr>))"

definition createLogFile :: "binlog_unmarshal \<Rightarrow> u32 \<Rightarrow> valueLog \<Rightarrow> go_error option \<times> valueLog" where
  "createLogFile unmarshal fid vlog = openFile unmarshal fid vlog"

text \<open>The entries of the directory: name and whether it is a directory.\<close>

fun openFiles :: "binlog_unmarshal \<Rightarrow> (string \<times> bool) list \<Rightarrow> valueLog \<Rightarrow> go_error option \<times> valueLog" where
  "openFiles unmarshal [] vlog = (None, vlog)"
| "openFiles unmarshal ((fName, isDir) # files) vlog =
     (if isDir then openFiles unmarshal files vlog
      else if \<not> has_suffix fName fileExt then openFiles unmarshal files vlog
      else (case parse_uint 32 (trim_suffix fName fileExt) of
              Inl e \<Rightarrow> (Some e, vlog)
            | Inr fid64 \<Rightarrow>
                let fid = of_nat fid64 in
                (case openFile unmarshal fid vlog of
                   (Some e, vlog) \<Rightarrow> (Some e, vlog)
                 | (None, vlog) \<Rightarrow>
                     openFiles unmarshal files
                       (vlog\<lparr>v_maxFid := (if fid > v_maxFid vlog then fid else v_maxFid vlog)\<rparr>))))"

definition openOrCreateFiles ::
  "binlog_unmarshal \<Rightarrow> (string \<times> bool) list \<Rightarrow> valueLog \<Rightarrow> go_error option \<times> valueLog" where
  "openOrCreateFiles unmarshal files vlog =
     (case openFiles unmarshal files vlog of
        (Some e, vlog) \<Rightarrow> (Some e, vlog)
      | (None, vlog) \<Rightarrow>
          if v_filesMap vlog = [] then createLogFile unmarshal 0 vlog
          else (case map_of (v_filesMap vlog) (v_maxFid vlog) of
                  None \<Rightarrow> (Some (Panic ''nil pointer dereference''), vlog)
                | Some curFile \<Rightarrow>
                    if lf_end curFile
                    then (let fid = v_maxFid vlog + 1
                          in createLogFile unmarshal fid (vlog\<lparr>v_maxFid := fid\<rparr>))
                    else (None, vlog)))"

definition newValueLog ::
  "binlog_unmarshal \<Rightarrow> (string \<times> bool) list \<Rightarrow> (string \<times> bytes) list \<Rightarrow> Options option \<Rightarrow> io_outcome list
     \<Rightarrow> go_error + valueLog" where
  "newValueLog unmarshal files disk options io =
     (let opt = (case options of None \<Rightarrow> DefaultOptions | Some opt \<Rightarrow> opt);
          vlog = \<lparr>v_sync = opt_Sync opt, v_maxFid = 0, v_filesMap = [], v_opt = opt, v_disk = disk, v_io = io\<rparr>
      in case openOrCreateFiles unmarshal files vlog of
           (Some e, vlog) \<Rightarrow> Inl e
         | (None, vlog) \<Rightarrow> Inr vlog)"

definition readValue :: "valueLog \<Rightarrow> valuePointer \<Rightarrow> go_error + bytes" where
  "readValue vlog vp =
     (case getFile vlog (Fid vp) of
        Inl e \<Rightarrow> Inl e
      | Inr lf \<Rightarrow>
          (case lf_readRecord lf (Offset vp) of Inl e \<Rightarrow> Inl e | Inr r \<Rightarrow> Inr (payload r)))"

text \<open>\<^verbatim>\<open>close\<close>: the current file gets its footer when it is large. Closing a descriptor takes one
  outcome each.\<close>

fun closeFiles :: "logFile list \<Rightarrow> io_outcome list \<Rightarrow> go_error option \<times> io_outcome list" where
  "closeFiles [] io = (None, io)"
| "closeFiles (lf # lfs) io =
     (case io_next io of (IoErr n, io) \<Rightarrow> (Some ErrIO, io) | (IoOk, io) \<Rightarrow> closeFiles lfs io)"

definition vlog_close :: "valueLog \<Rightarrow> go_error option \<times> valueLog" where
  "vlog_close vlog =
     (case map_of (v_filesMap vlog) (v_maxFid vlog) of
        None \<Rightarrow> (Some (Panic ''nil pointer dereference''), vlog)
      | Some curFile \<Rightarrow>
          let (err, curFile, io) =
                (if GetWriteOffset curFile \<ge> finalizeFileSizeAtClose then finalize curFile (v_io vlog)
                 else (None, curFile, v_io vlog));
              vlog = vlog\<lparr>v_filesMap := AList.update (v_maxFid vlog) curFile (v_filesMap vlog), v_io := io\<rparr>
          in (case err of
                Some e \<Rightarrow> (Some e, vlog)
              | None \<Rightarrow>
                  (case closeFiles (map snd (v_filesMap vlog)) (v_io vlog) of
                     (err, io) \<Rightarrow> (err, vlog\<lparr>v_io := io\<rparr>))))"

section \<open>Writing\<close>

definition setFile :: "u32 \<Rightarrow> logFile \<Rightarrow> io_outcome list \<Rightarrow> valueLog \<Rightarrow> valueLog" where
  "setFile fid lf io vlog = vlog\<lparr>v_filesMap := AList.update fid lf (v_filesMap vlog), v_io := io\<rparr>"

definition rotate :: "binlog_unmarshal \<Rightarrow> logFile \<Rightarrow> valueLog \<Rightarrow> go_error option \<times> valueLog" where
  "rotate unmarshal curFile vlog =
     (case finalize curFile (v_io vlog) of
        (err, curFile, io) \<Rightarrow>
          let vlog = setFile (v_maxFid vlog) curFile io vlog in
          (case err of
             Some e \<Rightarrow> (Some e, vlog)
           | None \<Rightarrow>
               let fid = v_maxFid vlog + 1
               in createLogFile unmarshal fid (vlog\<lparr>v_maxFid := fid\<rparr>)))"

definition toDisk ::
  "binlog_unmarshal \<Rightarrow> bytes \<Rightarrow> request list \<Rightarrow> valueLog \<Rightarrow> go_error option \<times> valueLog" where
  "toDisk unmarshal buf bufReqs vlog =
     (case map_of (v_filesMap vlog) (v_maxFid vlog) of
        None \<Rightarrow> (Some (Panic ''nil pointer dereference''), vlog)
      | Some curFile \<Rightarrow>
          (case Write buf (v_sync vlog) curFile (v_io vlog) of
             (Some e, curFile, io) \<Rightarrow> (Some e, setFile (v_maxFid vlog) curFile io vlog)
           | (None, curFile, io) \<Rightarrow>
               let curFile = fold (\<lambda>req. updateMaxTS (ts req)) bufReqs curFile;
                   vlog = setFile (v_maxFid vlog) curFile io vlog
               in if GetWriteOffset curFile > ValueLogFileSize (v_opt vlog)
                  then rotate unmarshal curFile vlog
                  else (None, vlog)))"

fun write_loop ::
  "binlog_unmarshal \<Rightarrow> request list \<Rightarrow> bytes \<Rightarrow> request list \<Rightarrow> valueLog
     \<Rightarrow> go_error option \<times> request list \<times> valueLog" where
  "write_loop unmarshal [] buf bufReqs vlog =
     (case toDisk unmarshal buf bufReqs vlog of (err, vlog) \<Rightarrow> (err, [], vlog))"
| "write_loop unmarshal (req # reqs) buf bufReqs vlog =
     (case map_of (v_filesMap vlog) (v_maxFid vlog) of
        None \<Rightarrow> (Some (Panic ''nil pointer dereference''), req # reqs, vlog)
      | Some curFile \<Rightarrow>
          let req = req\<lparr>req_vp := VP (lf_fid curFile) (GetWriteOffset curFile + int (length buf))\<rparr>;
              buf = snd (encodeRecord buf (req_payload req));
              bufReqs = bufReqs @ [req];
              writeNow = (GetWriteOffset curFile + int (length buf) > ValueLogFileSize (v_opt vlog))
          in if writeNow
             then (case toDisk unmarshal buf bufReqs vlog of
                     (Some e, vlog) \<Rightarrow> (Some e, req # reqs, vlog)
                   | (None, vlog) \<Rightarrow>
                       (case write_loop unmarshal reqs [] [] vlog of
                          (err, reqs, vlog) \<Rightarrow> (err, req # reqs, vlog)))
             else (case write_loop unmarshal reqs buf bufReqs vlog of
                     (err, reqs, vlog) \<Rightarrow> (err, req # reqs, vlog)))"

text \<open>The result carries the requests with the value pointers \<^verbatim>\<open>write\<close> has set in them.\<close>

definition vlog_write ::
  "binlog_unmarshal \<Rightarrow> request list \<Rightarrow> valueLog \<Rightarrow> go_error option \<times> request list \<times> valueLog" where
  "vlog_write unmarshal reqs vlog = write_loop unmarshal reqs [] [] vlog"

section \<open>Scanning and garbage collection\<close>

definition sortedFids :: "valueLog \<Rightarrow> u32 list" where
  "sortedFids vlog = sort (map_keys (v_filesMap vlog))"

fun scan_files :: "valuePointer \<Rightarrow> 's scan_fn \<Rightarrow> logFile list \<Rightarrow> 's \<Rightarrow> go_error option \<times> 's" where
  "scan_files start fn [] s = (None, s)"
| "scan_files start fn (lf # lfs) s =
     (case scan lf (if lf_fid lf = Fid start then Offset start else 0) fn s of
        (Some e, s, _) \<Rightarrow> (Some e, s)
      | (None, s, _) \<Rightarrow> scan_files start fn lfs s)"

definition vlog_scan :: "valueLog \<Rightarrow> valuePointer \<Rightarrow> 's scan_fn \<Rightarrow> 's \<Rightarrow> go_error option \<times> 's" where
  "vlog_scan vlog start fn s =
     (let lfs = List.map_filter (map_of (v_filesMap vlog))
                  (filter (\<lambda>fid. fid \<ge> Fid start) (sortedFids vlog))
      in scan_files start fn lfs s)"

definition scanRequests_fn ::
  "binlog_unmarshal \<Rightarrow> (request \<Rightarrow> 's \<Rightarrow> go_error option \<times> 's) \<Rightarrow> 's scan_fn" where
  "scanRequests_fn unmarshal fn vp record s =
     (case unmarshal (payload record) of
        Inl e \<Rightarrow> (Some e, s)
      | Inr binlog \<Rightarrow>
          if StartTs binlog = 0 \<and> CommitTs binlog = 0 then (None, s)
          else fn \<lparr>startTS = StartTs binlog, commitTS = CommitTs binlog, tp = Tp binlog,
                    req_payload = [], req_vp = vp, req_err = None\<rparr> s)"

definition scanRequests ::
  "binlog_unmarshal \<Rightarrow> valueLog \<Rightarrow> valuePointer \<Rightarrow> (request \<Rightarrow> 's \<Rightarrow> go_error option \<times> 's) \<Rightarrow> 's
     \<Rightarrow> go_error option \<times> 's" where
  "scanRequests unmarshal vlog start fn s = vlog_scan vlog start (scanRequests_fn unmarshal fn) s"

text \<open>\<^verbatim>\<open>gcTS\<close> forgets the files first, then closes and removes each; a failure is only logged. A file
  that could not be removed stays on disk.\<close>

fun removeFiles :: "logFile list \<Rightarrow> valueLog \<Rightarrow> valueLog" where
  "removeFiles [] vlog = vlog"
| "removeFiles (lf # lfs) vlog =
     (case io_next (v_io vlog) of (closed, io) \<Rightarrow>
     (case io_next io of
        (IoOk, io) \<Rightarrow> removeFiles lfs (vlog\<lparr>v_io := io\<rparr>)
      | (IoErr n, io) \<Rightarrow>
          removeFiles lfs (vlog\<lparr>v_io := io, v_disk := AList.update (lf_path lf) (lf_fd lf) (v_disk vlog)\<rparr>)))"

definition gcTS :: "int \<Rightarrow> valueLog \<Rightarrow> valueLog" where
  "gcTS gc vlog =
     (let toDeleteFiles = filter (\<lambda>lf. lf_fid lf \<noteq> v_maxFid vlog \<and> lf_maxTS lf \<le> gc)
                            (map snd (v_filesMap vlog));
          vlog = vlog\<lparr>v_filesMap := fold (\<lambda>lf. AList.delete (lf_fid lf)) toDeleteFiles (v_filesMap vlog)\<rparr>
      in removeFiles toDeleteFiles vlog)"

section \<open>Invariant and append-only extension\<close>

definition vlog_wf :: "valueLog \<Rightarrow> bool" where
  "vlog_wf v \<longleftrightarrow>
     distinct (map_keys (v_filesMap v)) \<and>
     (\<forall>fid lf. map_of (v_filesMap v) fid = Some lf \<longrightarrow> lf_fid lf = fid \<and>
        lf_path lf = filePath fid \<and> fid \<le> v_maxFid v) \<and>
     (\<exists>cur. map_of (v_filesMap v) (v_maxFid v) = Some cur \<and> \<not> lf_end cur \<and>
        lf_writeOffset cur = int (length (lf_fd cur))) \<and>
     (\<forall>fid. v_maxFid v < fid \<longrightarrow> map_of (v_disk v) (filePath fid) = None)"

text \<open>\<open>n\<close> further files can be numbered.\<close>

definition room :: "nat \<Rightarrow> valueLog \<Rightarrow> bool" where
  "room n v \<longleftrightarrow> unat (v_maxFid v) + n < 2 ^ 32"

definition file_extends :: "logFile \<Rightarrow> logFile \<Rightarrow> bool" where
  "file_extends lf lf' \<longleftrightarrow> (\<exists>suf. lf_fd lf' = lf_fd lf @ suf) \<and> lf_maxTS lf \<le> lf_maxTS lf'"

definition extends :: "valueLog \<Rightarrow> valueLog \<Rightarrow> bool" where
  "extends v v' \<longleftrightarrow>
     (\<forall>fid lf. map_of (v_filesMap v) fid = Some lf \<longrightarrow>
        (\<exists>lf'. map_of (v_filesMap v') fid = Some lf' \<and> file_extends lf lf'))"

text \<open>The record of a request stands at its pointer, in a file that knows its timestamp.\<close>

definition holds_at :: "valueLog \<Rightarrow> valuePointer \<Rightarrow> bytes \<Rightarrow> int \<Rightarrow> bool" where
  "holds_at v vp pl t \<longleftrightarrow>
     (\<exists>lf pre post. map_of (v_filesMap v) (Fid vp) = Some lf \<and> lf_fd lf = pre @ frame pl @ post \<and>
        Offset vp = int (length pre) \<and> t \<le> lf_maxTS lf)"

lemma file_extends_refl [simp]: "file_extends lf lf"
  by (simp add: file_extends_def)

lemma file_extends_trans: "file_extends a b \<Longrightarrow> file_extends b c \<Longrightarrow> file_extends a c"
  by (auto simp: file_extends_def)

lemma extends_refl [simp]: "extends v v"
  by (auto simp: extends_def)

lemma extends_trans: "extends a b \<Longrightarrow> extends b c \<Longrightarrow> extends a c"
  unfolding extends_def by (meson file_extends_trans)

lemma extends_io [simp]: "extends v (v'\<lparr>v_io := io\<rparr>) = extends v v'" "extends v (v'\<lparr>v_maxFid := f\<rparr>) = extends v v'"
  by (simp_all add: extends_def)

lemma holds_at_extends: "holds_at v vp pl t \<Longrightarrow> extends v v' \<Longrightarrow> holds_at v' vp pl t"
  unfolding holds_at_def extends_def file_extends_def by fastforce

lemma readValue_holds_at:
  "holds_at v vp pl t \<Longrightarrow> length pl \<le> 2 ^ 48 \<Longrightarrow> readValue v vp = Inr pl"
  by (auto simp: holds_at_def readValue_def getFile_def lf_readRecord_frame)

lemma vlog_wf_cur:
  assumes "vlog_wf v"
  obtains cur where "map_of (v_filesMap v) (v_maxFid v) = Some cur" "lf_fid cur = v_maxFid v"
    "lf_path cur = filePath (v_maxFid v)"
    "\<not> lf_end cur" "lf_writeOffset cur = int (length (lf_fd cur))"
  using assms by (auto simp: vlog_wf_def)

lemma vlog_wf_above: "vlog_wf v \<Longrightarrow> v_maxFid v < fid \<Longrightarrow> map_of (v_filesMap v) fid = None"
  unfolding vlog_wf_def by (metis leD not_Some_eq)

lemma extends_setFile:
  "map_of (v_filesMap v) fid = Some lf \<Longrightarrow> file_extends lf lf' \<Longrightarrow> extends v (setFile fid lf' io v)"
  by (auto simp: extends_def setFile_def)

lemma vlog_wf_setFile:
  assumes "vlog_wf v" "lf_fid lf = v_maxFid v" "lf_path lf = filePath (v_maxFid v)" "\<not> lf_end lf" "lf_writeOffset lf = int (length (lf_fd lf))"
  shows "vlog_wf (setFile (v_maxFid v) lf io v)"
  using assms by (auto simp: vlog_wf_def setFile_def distinct_update)

subsection \<open>The steps of a write\<close>

lemma updateMaxTS_fields [simp]:
  "lf_fid (updateMaxTS t lf) = lf_fid lf" "lf_fd (updateMaxTS t lf) = lf_fd lf"
  "lf_end (updateMaxTS t lf) = lf_end lf" "lf_writeOffset (updateMaxTS t lf) = lf_writeOffset lf"
  "lf_path (updateMaxTS t lf) = lf_path lf"
  by (simp_all add: updateMaxTS_def)

lemma lf_maxTS_updateMaxTS [simp]: "lf_maxTS (updateMaxTS t lf) = max t (lf_maxTS lf)"
  by (simp add: updateMaxTS_def max_def)

lemma fold_updateMaxTS_fields [simp]:
  fixes reqs :: "request list"
  defines "upd \<equiv> fold (\<lambda>req. updateMaxTS (ts req)) reqs"
  shows "lf_fid (upd lf) = lf_fid lf" "lf_fd (upd lf) = lf_fd lf" "lf_end (upd lf) = lf_end lf"
    "lf_writeOffset (upd lf) = lf_writeOffset lf" "lf_path (upd lf) = lf_path lf"
  unfolding upd_def by (induction reqs arbitrary: lf) auto

lemma fold_updateMaxTS_ge:
  "lf_maxTS lf \<le> lf_maxTS (fold (\<lambda>req. updateMaxTS (ts req)) reqs lf)"
  "r \<in> set reqs \<Longrightarrow> ts r \<le> lf_maxTS (fold (\<lambda>req. updateMaxTS (ts req)) reqs lf)"
proof (induction reqs arbitrary: lf)
  case (Cons r' reqs)
  { case 1 show ?case using Cons.IH(1) [of "updateMaxTS (ts r') lf"] by simp }
  { case 2 then show ?case
      using Cons.IH(1) [of "updateMaxTS (ts r') lf"] Cons.IH(2) [of "updateMaxTS (ts r') lf"] by auto }
qed simp_all

lemma Write_fields:
  assumes "Write data sync lf io = (err, lf', io')"
  shows "lf_fid lf' = lf_fid lf" "lf_path lf' = lf_path lf" "lf_end lf' = lf_end lf" "lf_maxTS lf' = lf_maxTS lf" "file_extends lf lf'"
    "lf_writeOffset lf = int (length (lf_fd lf)) \<Longrightarrow> lf_writeOffset lf' = int (length (lf_fd lf'))"
    "err = None \<Longrightarrow> lf_fd lf' = lf_fd lf @ data"
  using assms
  by (auto simp: Write_def fd_write_def fdatasync_def IncWriteOffset_def file_extends_def Let_def
      split: prod.splits io_outcome.splits if_splits option.splits)

lemma finalize_fields:
  assumes "finalize lf io = (err, lf', io')"
  shows "lf_fid lf' = lf_fid lf" "lf_path lf' = lf_path lf" "lf_maxTS lf' = lf_maxTS lf" "file_extends lf lf'"
    "err = None \<Longrightarrow> lf_fd lf' = lf_fd lf @ footer (lf_maxTS lf) \<and> lf_end lf'"
  using assms
  by (auto simp: finalize_def fd_write_def fdatasync_def file_extends_def Let_def footer_def
      split: prod.splits io_outcome.splits if_splits option.splits)

lemma scan_empty: "lf_fd lf = [] \<Longrightarrow> \<not> lf_end lf \<Longrightarrow> scan lf 0 fn s = (None, s, [])"
  by (simp add: scan_def scan_loop.simps)

lemma newLogFile_empty:
  assumes "newLogFile u fid name [] io = (Inr lf, io')"
  shows "lf = \<lparr>lf_fid = fid, lf_path = name, lf_writeOffset = 0, lf_fd = [], lf_maxTS = 0, lf_end = False\<rparr>"
  using assms
  by (auto simp: newLogFile_def recover_def Let_def fileFooterLength_def scan_empty
      split: prod.splits io_outcome.splits)

lemma newLogFile_empty_ok:
  "newLogFile u fid name [] [] = (Inr \<lparr>lf_fid = fid, lf_path = name, lf_writeOffset = 0, lf_fd = [],
     lf_maxTS = 0, lf_end = False\<rparr>, [])"
  by (simp add: newLogFile_def recover_def Let_def fileFooterLength_def scan_def scan_loop.simps)

lemma next_fid:
  assumes "room (Suc n) v"
  shows "v_maxFid v < v_maxFid v + 1" "unat (v_maxFid v + 1) = Suc (unat (v_maxFid v))"
proof -
  have "unat (v_maxFid v) + 1 < 2 ^ 32" using assms by (simp add: room_def)
  then show "unat (v_maxFid v + 1) = Suc (unat (v_maxFid v))"
    by (simp add: unat_word_ariths)
  then show "v_maxFid v < v_maxFid v + 1" by (simp add: word_less_nat_alt)
qed


definition fresh_file :: "u32 \<Rightarrow> logFile" where
  "fresh_file fid = \<lparr>lf_fid = fid, lf_path = filePath fid, lf_writeOffset = 0, lf_fd = [],
     lf_maxTS = 0, lf_end = False\<rparr>"

lemma createLogFile_fresh:
  assumes "map_of (v_disk v) (filePath fid) = None" "map_of (v_filesMap v) fid = None"
    "createLogFile u fid v = (None, v')"
  shows "v_filesMap v' = AList.update fid (fresh_file fid) (v_filesMap v)"
    "v_maxFid v' = v_maxFid v" "v_opt v' = v_opt v" "v_sync v' = v_sync v"
    "v_disk v' = AList.delete (filePath fid) (v_disk v)"
  using assms
  by (auto simp: createLogFile_def openFile_def Let_def fresh_file_def dest: newLogFile_empty
      split: prod.splits sum.splits)

lemma createLogFile_err:
  "createLogFile u fid v = (Some e, v') \<Longrightarrow> v_filesMap v' = v_filesMap v"
  by (auto simp: createLogFile_def openFile_def Let_def split: prod.splits sum.splits)

text \<open>After a rotation the old file has its footer and an empty file with the next number is current.\<close>

lemma rotate_ok:
  assumes wf: "vlog_wf v" and cur: "map_of (v_filesMap v) (v_maxFid v) = Some lf"
    and rm: "room (Suc n) v" and rot: "rotate u lf v = (None, v')"
  shows "vlog_wf v'" "v_maxFid v' = v_maxFid v + 1" "v_opt v' = v_opt v"
    "\<exists>lf'. v_filesMap v' = AList.update (v_maxFid v + 1) (fresh_file (v_maxFid v + 1))
         (AList.update (v_maxFid v) lf' (v_filesMap v)) \<and>
       lf_fd lf' = lf_fd lf @ footer (lf_maxTS lf) \<and> lf_end lf' \<and> lf_maxTS lf' = lf_maxTS lf"
proof -
  obtain lf' io where fin: "finalize lf (v_io v) = (None, lf', io)"
    and cr: "createLogFile u (v_maxFid v + 1)
      ((setFile (v_maxFid v) lf' io v)\<lparr>v_maxFid := v_maxFid v + 1\<rparr>) = (None, v')"
    using rot by (auto simp: rotate_def Let_def setFile_def split: prod.splits option.splits)
  note lt = next_fid(1) [OF rm]
  have disk: "map_of (v_disk v) (filePath (v_maxFid v + 1)) = None" using wf lt by (simp add: vlog_wf_def)
  have "map_of (v_filesMap v) (v_maxFid v + 1) = None" using wf lt by (rule vlog_wf_above)
  then have new: "map_of (v_filesMap (setFile (v_maxFid v) lf' io v)) (v_maxFid v + 1) = None"
    using lt by (simp add: setFile_def)
  note fresh = createLogFile_fresh [OF _ _ cr, simplified, OF _ new, unfolded setFile_def, simplified, OF disk]
  show "v_maxFid v' = v_maxFid v + 1" "v_opt v' = v_opt v" using fresh by simp_all
  show "\<exists>lf'. v_filesMap v' = AList.update (v_maxFid v + 1) (fresh_file (v_maxFid v + 1))
         (AList.update (v_maxFid v) lf' (v_filesMap v)) \<and>
       lf_fd lf' = lf_fd lf @ footer (lf_maxTS lf) \<and> lf_end lf' \<and> lf_maxTS lf' = lf_maxTS lf"
    using fresh(1) finalize_fields [OF fin] by auto
  have "lf_fid lf' = v_maxFid v" "lf_path lf' = filePath (v_maxFid v)"
    using wf cur finalize_fields(1,2) [OF fin] by (auto simp: vlog_wf_def)
  moreover have le_next: "fid \<le> v_maxFid v + 1" if "fid \<le> v_maxFid v" for fid
    using that lt by (rule order_trans [OF _ less_imp_le])
  ultimately show "vlog_wf v'"
    using wf lt fresh le_next
    by (auto simp: vlog_wf_def distinct_update fresh_file_def split: if_splits intro: less_trans)
qed

lemma rotate_extends:
  assumes wf: "vlog_wf v" and cur: "map_of (v_filesMap v) (v_maxFid v) = Some lf"
    and rm: "room (Suc n) v" and rot: "rotate u lf v = (err, v')"
  shows "extends v v'"
proof -
  obtain ferr lf' io where fin: "finalize lf (v_io v) = (ferr, lf', io)" by (cases "finalize lf (v_io v)")
  have ext: "extends v (setFile (v_maxFid v) lf' io v)"
    by (rule extends_setFile [OF cur finalize_fields(4) [OF fin]])
  show ?thesis
  proof (cases ferr)
    case (Some e)
    with rot fin ext show ?thesis by (auto simp: rotate_def Let_def)
  next
    case None
    let ?v = "(setFile (v_maxFid v) lf' io v)\<lparr>v_maxFid := v_maxFid v + 1\<rparr>"
    have cr: "createLogFile u (v_maxFid v + 1) ?v = (err, v')"
      using rot fin None by (simp add: rotate_def Let_def setFile_def)
    have "map_of (v_disk ?v) (filePath (v_maxFid v + 1)) = None"
      using wf next_fid(1) [OF rm] by (simp add: vlog_wf_def setFile_def)
    moreover have "map_of (v_filesMap v) (v_maxFid v + 1) = None"
      using wf next_fid(1) [OF rm] by (rule vlog_wf_above)
    moreover from this have "map_of (v_filesMap ?v) (v_maxFid v + 1) = None"
      using next_fid(1) [OF rm] by (simp add: setFile_def)
    ultimately show ?thesis
      using ext createLogFile_fresh(1) [of ?v _ u v'] createLogFile_err [of u _ ?v _ v'] cr
      by (cases err) (auto simp: extends_def setFile_def)
  qed
qed

lemma toDisk_cases:
  assumes "vlog_wf v" and "toDisk u buf reqs v = (err, v')"
  obtains (fail) cur lf io e where "map_of (v_filesMap v) (v_maxFid v) = Some cur" "err = Some e"
      "Write buf (v_sync v) cur (v_io v) = (Some e, lf, io)" "v' = setFile (v_maxFid v) lf io v"
  | (kept) cur lf io where "map_of (v_filesMap v) (v_maxFid v) = Some cur"
      "Write buf (v_sync v) cur (v_io v) = (None, lf, io)" "err = None"
      "v' = setFile (v_maxFid v) (fold (\<lambda>req. updateMaxTS (ts req)) reqs lf) io v"
      "lf_writeOffset lf \<le> ValueLogFileSize (v_opt v)"
  | (rotated) cur lf io where "map_of (v_filesMap v) (v_maxFid v) = Some cur"
      "Write buf (v_sync v) cur (v_io v) = (None, lf, io)"
      "rotate u (fold (\<lambda>req. updateMaxTS (ts req)) reqs lf)
         (setFile (v_maxFid v) (fold (\<lambda>req. updateMaxTS (ts req)) reqs lf) io v) = (err, v')"
proof -
  obtain cur where cur: "map_of (v_filesMap v) (v_maxFid v) = Some cur"
    using assms(1) by (rule vlog_wf_cur)
  obtain werr lf io where w: "Write buf (v_sync v) cur (v_io v) = (werr, lf, io)"
    by (cases "Write buf (v_sync v) cur (v_io v)")
  show ?thesis
    using assms(2) cur w that
    by (cases werr)
      (auto simp: toDisk_def Let_def GetWriteOffset_def setFile_def split: if_splits)
qed

lemma written_file:
  fixes reqs :: "request list"
  assumes wf: "vlog_wf v" and cur: "map_of (v_filesMap v) (v_maxFid v) = Some cur"
    and w: "Write buf sync cur io = (None, lf, io')"
  defines "lf' \<equiv> fold (\<lambda>req. updateMaxTS (ts req)) reqs lf"
  shows "vlog_wf (setFile (v_maxFid v) lf' io'' v)" "file_extends cur lf'"
    "lf_fd lf' = lf_fd cur @ buf" "\<forall>r\<in>set reqs. ts r \<le> lf_maxTS lf'"
    "lf_writeOffset lf' = int (length (lf_fd lf'))" "\<not> lf_end lf'"
proof -
  note f = Write_fields [OF w]
  obtain "lf_fid cur = v_maxFid v" "lf_path cur = filePath (v_maxFid v)" "\<not> lf_end cur" "lf_writeOffset cur = int (length (lf_fd cur))"
    using vlog_wf_cur [OF wf] cur by auto
  then show "vlog_wf (setFile (v_maxFid v) lf' io'' v)" "\<not> lf_end lf'"
    "lf_writeOffset lf' = int (length (lf_fd lf'))"
    unfolding lf'_def using f by (auto intro!: vlog_wf_setFile [OF wf])
  show "lf_fd lf' = lf_fd cur @ buf" "\<forall>r\<in>set reqs. ts r \<le> lf_maxTS lf'"
    unfolding lf'_def using f by (auto intro: fold_updateMaxTS_ge)
  show "file_extends cur lf'"
    using f fold_updateMaxTS_ge(1) [of lf reqs] by (auto simp: file_extends_def lf'_def)
qed

lemma toDisk_extends:
  assumes wf: "vlog_wf v" and rm: "room (Suc n) v" and td: "toDisk u buf reqs v = (err, v')"
  shows "extends v v'"
  using wf td
proof (cases rule: toDisk_cases)
  case (fail cur lf io e)
  then show ?thesis using extends_setFile Write_fields(5) by blast
next
  case (kept cur lf io)
  then show ?thesis using extends_setFile written_file(2) [OF wf kept(1,2)] by blast
next
  case (rotated cur lf io)
  note wr = written_file [OF wf rotated(1,2), of reqs]
  let ?v = "setFile (v_maxFid v) (fold (\<lambda>req. updateMaxTS (ts req)) reqs lf) io v"
  have rm': "room (Suc n) ?v" using rm by (simp add: room_def setFile_def)
  have "extends ?v v'"
    by (rule rotate_extends [OF wr(1) _ rm' rotated(3)]) (simp add: setFile_def)
  then show ?thesis by (rule extends_trans [OF extends_setFile [OF rotated(1) wr(2)]])
qed

lemma toDisk_ok:
  assumes wf: "vlog_wf v" and rm: "room (Suc n) v" and td: "toDisk u buf reqs v = (None, v')"
    and cur: "map_of (v_filesMap v) (v_maxFid v) = Some cur"
  shows "vlog_wf v'" "room n v'" "v_maxFid v \<le> v_maxFid v'"
    "\<exists>lf' suf. map_of (v_filesMap v') (v_maxFid v) = Some lf' \<and> lf_fd lf' = lf_fd cur @ buf @ suf \<and>
       (\<forall>r\<in>set reqs. ts r \<le> lf_maxTS lf') \<and> (v_maxFid v' = v_maxFid v \<longrightarrow> suf = [])"
proof -
  have "vlog_wf v' \<and> room n v' \<and> v_maxFid v \<le> v_maxFid v' \<and>
    (\<exists>lf' suf. map_of (v_filesMap v') (v_maxFid v) = Some lf' \<and> lf_fd lf' = lf_fd cur @ buf @ suf \<and>
       (\<forall>r\<in>set reqs. ts r \<le> lf_maxTS lf') \<and> (v_maxFid v' = v_maxFid v \<longrightarrow> suf = []))"
    using wf td
  proof (cases rule: toDisk_cases)
    case (kept cur lf io)
    with written_file [OF wf kept(1,2)] rm cur show ?thesis
      by (fastforce simp: room_def setFile_def)
  next
    case (rotated cur' lf io)
    note wr = written_file [OF wf rotated(1,2), of reqs]
    let ?v = "setFile (v_maxFid v) (fold (\<lambda>req. updateMaxTS (ts req)) reqs lf) io v"
    have rm': "room (Suc n) ?v" using rm by (simp add: room_def setFile_def)
    note rot = rotate_ok [OF wr(1) _ rm' rotated(3), simplified, unfolded setFile_def, simplified]
    have "v_maxFid v < v_maxFid v + 1" "room n v'"
      using next_fid [OF rm] rm rot(2) by (auto simp: room_def)
    with rot wr(3,4) rotated(1) cur show ?thesis by fastforce
  qed simp
  then show "vlog_wf v'" "room n v'" "v_maxFid v \<le> v_maxFid v'"
    "\<exists>lf' suf. map_of (v_filesMap v') (v_maxFid v) = Some lf' \<and> lf_fd lf' = lf_fd cur @ buf @ suf \<and>
       (\<forall>r\<in>set reqs. ts r \<le> lf_maxTS lf') \<and> (v_maxFid v' = v_maxFid v \<longrightarrow> suf = [])"
    by blast+
qed


lemma room_mono: "room n v \<Longrightarrow> m \<le> n \<Longrightarrow> room m v"
  by (simp add: room_def)

definition placed :: "logFile \<Rightarrow> bytes \<Rightarrow> request \<Rightarrow> request" where
  "placed cur buf req = req\<lparr>req_vp := VP (lf_fid cur) (GetWriteOffset cur + int (length buf))\<rparr>"

lemma placed_fields [simp]:
  "req_payload (placed cur buf req) = req_payload req" "ts (placed cur buf req) = ts req"
  by (simp_all add: placed_def ts_def)

lemma write_step_cases:
  assumes "write_loop u (req # reqs) buf bufReqs v = (err, out, v')"
    and "map_of (v_filesMap v) (v_maxFid v) = Some cur"
  obtains (fail) e where "err = Some e" "out = placed cur buf req # reqs"
      "toDisk u (buf @ frame (req_payload req)) (bufReqs @ [placed cur buf req]) v = (Some e, v')"
  | (now) v1 reqs' where "out = placed cur buf req # reqs'"
      "toDisk u (buf @ frame (req_payload req)) (bufReqs @ [placed cur buf req]) v = (None, v1)"
      "write_loop u reqs [] [] v1 = (err, reqs', v')"
  | (later) reqs' where "out = placed cur buf req # reqs'"
      "write_loop u reqs (buf @ frame (req_payload req)) (bufReqs @ [placed cur buf req]) v = (err, reqs', v')"
  using assms
  by (auto simp: Let_def placed_def [symmetric] simp del: length_append
      split: if_splits prod.splits option.splits)

lemma write_loop_extends:
  "vlog_wf v \<Longrightarrow> room (Suc (length reqs)) v \<Longrightarrow> write_loop u reqs buf bufReqs v = (err, reqs', v') \<Longrightarrow>
     extends v v'"
proof (induction reqs arbitrary: buf bufReqs v reqs')
  case Nil
  then show ?case by (auto split: prod.splits intro: toDisk_extends)
next
  case (Cons req reqs)
  obtain cur where cur: "map_of (v_filesMap v) (v_maxFid v) = Some cur"
    using Cons.prems(1) by (rule vlog_wf_cur)
  from Cons.prems(3) cur show ?case
  proof (cases rule: write_step_cases)
    case (fail e)
    then show ?thesis using toDisk_extends Cons.prems by blast
  next
    case (now v1 reqs')
    note ok = toDisk_ok [OF Cons.prems(1,2) [simplified] now(2) cur]
    have "extends v v1" using toDisk_extends Cons.prems now(2) by blast
    then show ?thesis by (rule extends_trans) (rule Cons.IH [OF ok(1,2) now(3)])
  next
    case (later reqs')
    then show ?thesis using Cons.IH [OF Cons.prems(1) room_mono [OF Cons.prems(2)]] by auto
  qed
qed

text \<open>A successful write: the buffered bytes reach the current file, every request of the batch stands
  at the pointer it was given, and pointers increase.\<close>

lemma write_loop_ok:
  assumes "vlog_wf v" "room (Suc (length reqs)) v" "map_of (v_filesMap v) (v_maxFid v) = Some cur"
    "write_loop u reqs buf bufReqs v = (None, reqs', v')"
  shows "vlog_wf v' \<and> map req_payload reqs' = map req_payload reqs \<and> map ts reqs' = map ts reqs \<and>
    (\<exists>lf suf. map_of (v_filesMap v') (v_maxFid v) = Some lf \<and> lf_fd lf = lf_fd cur @ buf @ suf \<and>
       (\<forall>r\<in>set bufReqs. ts r \<le> lf_maxTS lf)) \<and>
    (\<forall>r\<in>set reqs'. holds_at v' (req_vp r) (req_payload r) (ts r) \<and>
       VP (v_maxFid v) (int (length (lf_fd cur @ buf))) \<le> req_vp r) \<and>
    sorted_wrt (<) (map req_vp reqs')"
  using assms
proof (induction reqs arbitrary: buf bufReqs v reqs' cur)
  case Nil
  then show ?case
    using toDisk_ok [OF Nil(1) _ _ Nil(3), of 0 u buf bufReqs v'] by (auto split: prod.splits)
next
  case (Cons req reqs)
  let ?req = "placed cur buf req" and ?buf = "buf @ frame (req_payload req)"
  have vp: "req_vp ?req = VP (v_maxFid v) (int (length (lf_fd cur @ buf)))"
    using vlog_wf_cur [OF Cons.prems(1)] Cons.prems(3) by (fastforce simp: placed_def GetWriteOffset_def)
  have here: "holds_at v' (req_vp ?req) (req_payload ?req) (ts ?req)"
    if "map_of (v_filesMap v') (v_maxFid v) = Some lf" "lf_fd lf = lf_fd cur @ ?buf @ suf"
      "ts ?req \<le> lf_maxTS lf" for lf suf
    unfolding holds_at_def vp using that
    by (intro exI [of _ lf] exI [of _ "lf_fd cur @ buf"] exI [of _ suf]) simp
  from Cons.prems(4,3) show ?case
  proof (cases rule: write_step_cases)
    case (now v1 reqs1)
    note ok = toDisk_ok [OF Cons.prems(1,2) [simplified] now(2) Cons.prems(3)]
    obtain cur1 where cur1: "map_of (v_filesMap v1) (v_maxFid v1) = Some cur1" using ok(1) by (rule vlog_wf_cur)
    note IH = Cons.IH [OF ok(1,2) cur1 now(3)]
    obtain lf1 suf1 where lf1: "map_of (v_filesMap v1) (v_maxFid v) = Some lf1"
      "lf_fd lf1 = lf_fd cur @ ?buf @ suf1" "\<forall>r\<in>set (bufReqs @ [?req]). ts r \<le> lf_maxTS lf1"
      "v_maxFid v1 = v_maxFid v \<longrightarrow> suf1 = []"
      using ok(4) by blast
    have "extends v1 v'" by (rule write_loop_extends [OF ok(1,2) now(3)])
    with lf1 obtain lf suf where lf: "map_of (v_filesMap v') (v_maxFid v) = Some lf"
      "lf_fd lf = lf_fd cur @ ?buf @ suf" "\<forall>r\<in>set (bufReqs @ [?req]). ts r \<le> lf_maxTS lf"
      by (fastforce simp: extends_def file_extends_def)
    have below: "req_vp ?req < VP (v_maxFid v1) (int (length (lf_fd cur1 @ [])))"
      using ok(3) lf1 cur1 unfolding vp
      by (cases "v_maxFid v1 = v_maxFid v")
        (auto simp: less_valuePointer_def less_vp_def headerLength_def)
    with IH here [OF lf(1,2)] lf now(1) show ?thesis
      by (auto simp: vp less_imp_le intro: less_le_trans order_trans [OF less_imp_le])
  next
    case (later reqs1)
    note IH = Cons.IH [OF Cons.prems(1) room_mono [OF Cons.prems(2)] Cons.prems(3) later(2)]
    have "req_vp ?req < VP (v_maxFid v) (int (length (lf_fd cur @ ?buf)))"
      unfolding vp by (auto simp: less_valuePointer_def less_vp_def headerLength_def)
    with IH here later(1) show ?thesis
      by (fastforce simp: vp less_imp_le intro: less_le_trans order_trans [OF less_imp_le])
  qed simp
qed

lemma filePath_inject [simp]: "filePath a = filePath b \<longleftrightarrow> a = b"
  by (simp add: filePath_def pad_dec_inject word_unat_eq_iff)

subsection \<open>Without faults a write succeeds\<close>

lemma Write_no_fault: "\<exists>lf'. Write data sync lf [] = (None, lf', [])"
  by (simp add: Write_def fd_write_def fdatasync_def Let_def)

lemma createLogFile_no_fault:
  "map_of (v_disk v) (filePath fid) = None \<Longrightarrow> map_of (v_filesMap v) fid = None \<Longrightarrow> v_io v = [] \<Longrightarrow>
     \<exists>v'. createLogFile u fid v = (None, v') \<and> v_io v' = []"
  by (simp add: createLogFile_def openFile_def newLogFile_empty_ok Let_def)

lemma toDisk_no_fault:
  assumes wf: "vlog_wf v" and rm: "room (Suc n) v" and io: "v_io v = []"
  shows "\<exists>v'. toDisk u buf reqs v = (None, v') \<and> v_io v' = []"
proof -
  obtain cur where cur: "map_of (v_filesMap v) (v_maxFid v) = Some cur"
    using wf by (rule vlog_wf_cur)
  obtain lf where w: "Write buf (v_sync v) cur [] = (None, lf, [])" using Write_no_fault by blast
  let ?lf = "fold (\<lambda>req. updateMaxTS (ts req)) reqs lf"
  have "finalize ?lf [] = (None, ?lf\<lparr>lf_fd := lf_fd ?lf @ footer (lf_maxTS ?lf), lf_end := True\<rparr>, [])"
    by (rule finalize_ok) (rule written_file(6) [OF wf cur w])
  moreover have "map_of (v_disk v) (filePath (v_maxFid v + 1)) = None"
    using wf next_fid(1) [OF rm] by (simp add: vlog_wf_def)
  moreover have "map_of (v_filesMap v) (v_maxFid v + 1) = None"
    using wf next_fid(1) [OF rm] by (rule vlog_wf_above)
  ultimately show ?thesis
    using cur w io
    by (simp add: toDisk_def rotate_def Let_def setFile_def createLogFile_no_fault)
qed

lemma write_loop_no_fault:
  "vlog_wf v \<Longrightarrow> room (Suc (length reqs)) v \<Longrightarrow> v_io v = [] \<Longrightarrow>
     \<exists>reqs' v'. write_loop u reqs buf bufReqs v = (None, reqs', v') \<and> v_io v' = []"
proof (induction reqs arbitrary: buf bufReqs v)
  case Nil
  then show ?case using toDisk_no_fault [OF Nil(1), of 0 u buf bufReqs] by auto
next
  case (Cons req reqs)
  obtain cur where cur: "map_of (v_filesMap v) (v_maxFid v) = Some cur"
    using Cons.prems(1) by (rule vlog_wf_cur)
  let ?buf = "buf @ frame (req_payload req)" and ?reqs = "bufReqs @ [placed cur buf req]"
  obtain v1 where td: "toDisk u ?buf ?reqs v = (None, v1)" "v_io v1 = []"
    using toDisk_no_fault [OF Cons.prems(1,2,3) [simplified]] by blast
  note ok = toDisk_ok [OF Cons.prems(1,2) [simplified] td(1) cur]
  from Cons.IH [OF ok(1,2) td(2), of "[]" "[]"]
    Cons.IH [OF Cons.prems(1) room_mono [OF Cons.prems(2)] Cons.prems(3), of ?buf ?reqs]
  show ?case using cur td(1) by (auto simp: Let_def placed_def)
qed

subsection \<open>Garbage collection\<close>

lemma removeFiles_fields [simp]:
  "v_filesMap (removeFiles lfs v) = v_filesMap v" "v_maxFid (removeFiles lfs v) = v_maxFid v"
  by (induction lfs v rule: removeFiles.induct) (auto split: prod.splits io_outcome.splits)

lemma removeFiles_disk:
  "\<forall>lf\<in>set lfs. lf_path lf \<noteq> p \<Longrightarrow> map_of (v_disk (removeFiles lfs v)) p = map_of (v_disk v) p"
  by (induction lfs v rule: removeFiles.induct) (auto split: prod.splits io_outcome.splits)

lemma map_of_fold_delete:
  "map_of (fold (\<lambda>x. AList.delete (f x)) xs m) k = (if k \<in> f ` set xs then None else map_of m k)"
  by (induction xs arbitrary: m) auto

lemma distinct_fold_delete:
  "distinct (map_keys m) \<Longrightarrow> distinct (map_keys (fold (\<lambda>x. AList.delete (f x)) xs m))"
  by (induction xs arbitrary: m) (auto simp: distinct_delete)

lemma gcTS_files:
  assumes "vlog_wf v"
  shows "map_of (v_filesMap (gcTS g v)) fid =
    (case map_of (v_filesMap v) fid of
       None \<Rightarrow> None
     | Some lf \<Rightarrow> if fid \<noteq> v_maxFid v \<and> lf_maxTS lf \<le> g then None else Some lf)"
proof -
  have d: "distinct (map_keys (v_filesMap v))"
    and fid: "\<And>fid lf. map_of (v_filesMap v) fid = Some lf \<Longrightarrow> lf_fid lf = fid"
    using assms by (auto simp: vlog_wf_def)
  have "fid \<in> lf_fid ` {lf \<in> set (map snd (v_filesMap v)). lf_fid lf \<noteq> v_maxFid v \<and> lf_maxTS lf \<le> g} \<longleftrightarrow>
      (\<exists>lf. map_of (v_filesMap v) fid = Some lf \<and> fid \<noteq> v_maxFid v \<and> lf_maxTS lf \<le> g)"
    using d fid by (force simp: image_iff)
  then show ?thesis
    by (auto simp: gcTS_def Let_def map_of_fold_delete split: option.splits)
qed

lemma gcTS_wf: "vlog_wf v \<Longrightarrow> vlog_wf (gcTS g v)"
proof -
  assume wf: "vlog_wf v"
  have mx: "v_maxFid (gcTS g v) = v_maxFid v" by (simp add: gcTS_def Let_def)
  have d: "distinct (map_keys (v_filesMap (gcTS g v)))"
    using wf by (simp add: gcTS_def Let_def vlog_wf_def distinct_fold_delete)
  have disk: "map_of (v_disk (gcTS g v)) (filePath fid) = map_of (v_disk v) (filePath fid)"
    if "v_maxFid v < fid" for fid
  proof -
    have "lf_path lf \<noteq> filePath fid" if "lf \<in> set (map snd (v_filesMap v))" for lf
      using wf that \<open>v_maxFid v < fid\<close> by (force simp: vlog_wf_def)
    then show ?thesis by (auto simp: gcTS_def Let_def removeFiles_disk)
  qed
  show "vlog_wf (gcTS g v)"
    unfolding vlog_wf_def mx using d wf disk
    by (auto simp: vlog_wf_def gcTS_files [OF wf] split: option.splits if_splits)
qed

lemma gcTS_holds_at:
  "vlog_wf v \<Longrightarrow> holds_at v vp pl t \<Longrightarrow> g < t \<Longrightarrow> holds_at (gcTS g v) vp pl t"
  unfolding holds_at_def gcTS_files by (elim exE conjE, intro exI conjI) auto

subsection \<open>Opening a directory\<close>

lemma newLogFile_fields:
  assumes "newLogFile u fid name content io = (Inr lf, io')"
  shows "lf_fid lf = fid" "lf_path lf = name" "lf_fd lf = content" "lf_writeOffset lf = int (length content)"
  using assms
  by (auto simp: newLogFile_def recover_def Let_def split: prod.splits io_outcome.splits if_splits option.splits)

text \<open>The bytes stored under a number, in an open file or else on disk.\<close>

definition content :: "valueLog \<Rightarrow> u32 \<Rightarrow> bytes option" where
  "content v fid = (case map_of (v_filesMap v) fid of
     Some lf \<Rightarrow> Some (lf_fd lf) | None \<Rightarrow> map_of (v_disk v) (filePath fid))"

definition files_ok :: "valueLog \<Rightarrow> bool" where
  "files_ok v \<longleftrightarrow> distinct (map_keys (v_filesMap v)) \<and>
     (\<forall>fid lf. map_of (v_filesMap v) fid = Some lf \<longrightarrow> lf_fid lf = fid \<and>
        lf_path lf = filePath fid \<and> fid \<le> v_maxFid v \<and> lf_writeOffset lf = int (length (lf_fd lf)))"

lemma openFile_ok:
  assumes "openFile u fid v = (None, v')"
  obtains lf where "v_filesMap v' = AList.update fid lf (v_filesMap v)" "lf_fid lf = fid"
    "lf_path lf = filePath fid" "lf_writeOffset lf = int (length (lf_fd lf))"
    "lf_fd lf = (case content v fid of None \<Rightarrow> [] | Some bs \<Rightarrow> bs)"
    "v_disk v' = AList.delete (filePath fid) (v_disk v)" "v_maxFid v' = v_maxFid v"
proof -
  let ?c = "case content v fid of None \<Rightarrow> [] | Some bs \<Rightarrow> bs"
  have "(case map_of (v_filesMap v) fid of Some lf \<Rightarrow> lf_fd lf
      | None \<Rightarrow> (case map_of (v_disk v) (filePath fid) of None \<Rightarrow> [] | Some bs \<Rightarrow> bs)) = ?c"
    by (simp add: content_def split: option.splits)
  then obtain lf io where "newLogFile u fid (filePath fid) ?c (v_io v) = (Inr lf, io)"
    "v' = v\<lparr>v_filesMap := AList.update fid lf (v_filesMap v),
            v_disk := AList.delete (filePath fid) (v_disk v), v_io := io\<rparr>"
    using assms by (auto simp: openFile_def Let_def split: prod.splits sum.splits)
  then show thesis using newLogFile_fields by (intro that [of lf]) auto
qed

lemma openFile_content:
  "openFile u fid v = (None, v') \<Longrightarrow> content v f = Some bs \<Longrightarrow> content v' f = Some bs"
  by (erule openFile_ok) (auto simp: content_def split: option.splits if_splits)

lemma openFile_disk:
  "openFile u fid v = (None, v') \<Longrightarrow> map_of (v_disk v) p = None \<Longrightarrow> map_of (v_disk v') p = None"
  by (erule openFile_ok) auto

lemma openFile_files_ok:
  assumes "openFile u fid v = (None, v')" "files_ok v"
  shows "files_ok (v'\<lparr>v_maxFid := (if fid > v_maxFid v' then fid else v_maxFid v')\<rparr>)"
proof -
  let ?m = "if fid > v_maxFid v' then fid else v_maxFid v'"
  obtain lf where lf: "v_filesMap v' = AList.update fid lf (v_filesMap v)" "lf_fid lf = fid"
    "lf_path lf = filePath fid" "lf_writeOffset lf = int (length (lf_fd lf))" "v_maxFid v' = v_maxFid v"
    using assms(1) by (rule openFile_ok)
  have m: "fid \<le> ?m" "v_maxFid v \<le> ?m" by (auto simp: lf(5) not_less intro: less_imp_le)
  show ?thesis
    using assms(2) lf(2-4) m(1) order_trans [OF _ m(2)]
    by (auto simp: files_ok_def lf(1) distinct_update simp del: if_split split: if_split_asm)
qed

definition file_names :: "(string \<times> bool) list \<Rightarrow> string list" where
  "file_names files = map fst (filter (\<lambda>(_, d). \<not> d) files)"

lemma file_names_simps [simp]:
  "file_names [] = []"
  "file_names ((n, d) # files) = (if d then file_names files else n # file_names files)"
  by (simp_all add: file_names_def)

lemma set_file_names: "n \<in> set (file_names files) \<longleftrightarrow> (n, False) \<in> set files"
  by (auto simp: file_names_def image_iff)

definition open_inv :: "valueLog \<Rightarrow> bool" where
  "open_inv v \<longleftrightarrow> files_ok v \<and> (v_filesMap v = [] \<longrightarrow> v_maxFid v = 0) \<and>
     (v_filesMap v \<noteq> [] \<longrightarrow> map_of (v_filesMap v) (v_maxFid v) \<noteq> None)"

definition open_step :: "valueLog \<Rightarrow> string list \<Rightarrow> valueLog \<Rightarrow> bool" where
  "open_step v names v' \<longleftrightarrow>
     (\<forall>f bs. content v f = Some bs \<longrightarrow> content v' f = Some bs) \<and>
     (\<forall>p. map_of (v_disk v) p = None \<longrightarrow> map_of (v_disk v') p = None) \<and>
     (\<forall>f. filePath f \<in> set names \<longrightarrow> map_of (v_disk v') (filePath f) = None \<and> map_of (v_filesMap v') f \<noteq> None) \<and>
     (\<forall>f. map_of (v_filesMap v) f \<noteq> None \<longrightarrow> map_of (v_filesMap v') f \<noteq> None)"

lemma open_step_trans:
  "open_step a xs b \<Longrightarrow> open_step b ys c \<Longrightarrow> open_step a (xs @ ys) c"
  unfolding open_step_def by simp

lemma update_not_Nil [simp]: "AList.update k v m \<noteq> []"
  by (cases m) auto

lemma openFile_step:
  assumes op: "openFile u fid v = (None, v1)" and inv: "open_inv v"
  shows "open_inv (v1\<lparr>v_maxFid := (if fid > v_maxFid v1 then fid else v_maxFid v1)\<rparr>)"
    "open_step v [filePath fid] (v1\<lparr>v_maxFid := (if fid > v_maxFid v1 then fid else v_maxFid v1)\<rparr>)"
proof -
  obtain lf where lf: "v_filesMap v1 = AList.update fid lf (v_filesMap v)" "v_maxFid v1 = v_maxFid v"
    "v_disk v1 = AList.delete (filePath fid) (v_disk v)"
    using op by (rule openFile_ok)
  have ok: "files_ok (v1\<lparr>v_maxFid := (if fid > v_maxFid v1 then fid else v_maxFid v1)\<rparr>)"
    using inv by (intro openFile_files_ok [OF op]) (simp add: open_inv_def)
  show "open_inv (v1\<lparr>v_maxFid := (if fid > v_maxFid v1 then fid else v_maxFid v1)\<rparr>)"
    using inv unfolding open_inv_def
    by (intro conjI ok) (auto simp: lf word_gt_0)
  have "content (v1\<lparr>v_maxFid := m\<rparr>) f = content v1 f" for m f
    by (simp add: content_def split: option.splits)
  then show "open_step v [filePath fid] (v1\<lparr>v_maxFid := (if fid > v_maxFid v1 then fid else v_maxFid v1)\<rparr>)"
    using openFile_content [OF op] by (auto simp: open_step_def lf)
qed

text \<open>What \<open>openFiles\<close> establishes, whatever the directory holds.\<close>

lemma openFiles_ok:
  "openFiles u files v = (None, v') \<Longrightarrow> open_inv v \<Longrightarrow>
     open_inv v' \<and> open_step v (file_names files) v'"
proof (induction files arbitrary: v)
  case Nil
  then show ?case by (simp add: open_step_def)
next
  case (Cons f files)
  obtain fName isDir where f: "f = (fName, isDir)" by (cases f)
  show ?case
  proof (cases "isDir \<or> \<not> has_suffix fName fileExt")
    case True
    then have "\<not> isDir \<Longrightarrow> \<forall>f. filePath f \<noteq> fName" by (auto simp: filePath_def)
    moreover have "openFiles u files v = (None, v')" using True Cons.prems(1) by (auto simp: f split: if_splits)
    note Cons.IH [OF this Cons.prems(2)]
    ultimately show ?thesis by (cases isDir) (auto simp: f open_step_def)
  next
    case False
    then obtain fid64 v1 where fid: "parse_uint 32 (trim_suffix fName fileExt) = Inr fid64"
      and op: "openFile u (of_nat fid64) v = (None, v1)"
      using Cons.prems(1) by (auto simp: f Let_def split: sum.splits prod.splits option.splits)
    let ?fid = "of_nat fid64 :: u32"
    let ?v = "v1\<lparr>v_maxFid := (if ?fid > v_maxFid v1 then ?fid else v_maxFid v1)\<rparr>"
    have rec: "openFiles u files ?v = (None, v')" using False Cons.prems(1) fid op by (simp add: f Let_def)
    have "fName = filePath g \<Longrightarrow> g = ?fid" for g
      using fid parse_uint_pad_dec [of "unat g" 32 6] unsigned_less [of g, where ?'a = nat]
      by (auto simp: filePath_def)
    then have "open_step v [fName] ?v"
      using openFile_step(2) [OF op Cons.prems(2)] by (auto simp: open_step_def)
    with Cons.IH [OF rec openFile_step(1) [OF op Cons.prems(2)]] False show ?thesis
      using open_step_trans [of v "[fName]" ?v] by (simp add: f)
  qed
qed


lemma word_less_succ: "a + 1 \<noteq> 0 \<Longrightarrow> a < a + 1" for a :: "'a::len word"
  using unatSuc [of a] by (simp add: word_less_nat_alt add.commute)

lemma files_ok_wf:
  assumes "files_ok v" "map_of (v_filesMap v) (v_maxFid v) = Some cur" "\<not> lf_end cur"
    and "\<And>f. map_of (v_disk v) (filePath f) = None"
  shows "vlog_wf v"
  using assms by (auto simp: vlog_wf_def files_ok_def)

lemma createLogFile_wf:
  assumes ok: "files_ok v" and cr: "createLogFile u fid (v\<lparr>v_maxFid := fid\<rparr>) = (None, v')"
    and new: "\<And>f lf. map_of (v_filesMap v) f = Some lf \<Longrightarrow> f < fid"
    and disk: "\<And>f. map_of (v_disk v) (filePath f) = None"
  shows "vlog_wf v' \<and> open_step v [] v'"
proof -
  have none: "map_of (v_filesMap v) fid = None" using new [of fid] by (cases "map_of (v_filesMap v) fid") auto
  note fresh = createLogFile_fresh [OF _ _ cr, simplified, OF disk none]
  have "files_ok v'"
    using ok new by (auto simp: files_ok_def fresh distinct_update fresh_file_def intro: less_imp_le)
  then have "vlog_wf v'"
    by (rule files_ok_wf) (auto simp: fresh fresh_file_def disk)
  moreover have "open_step v [] v'"
    using none by (auto simp: open_step_def content_def fresh disk split: option.splits)
  ultimately show ?thesis by simp
qed

lemma openOrCreateFiles_ok:
  assumes op: "openOrCreateFiles u files v = (None, v')" and inv: "open_inv v"
    and dir: "\<And>f. map_of (v_disk v) (filePath f) \<noteq> None \<Longrightarrow> (filePath f, False) \<in> set files"
    and last: "map_of (v_filesMap v') (- 1) = None"
  shows "vlog_wf v' \<and> open_step v (file_names files) v'"
proof -
  let ?names = "file_names files"
  obtain v1 where v1: "openFiles u files v = (None, v1)"
    using op by (auto simp: openOrCreateFiles_def split: prod.splits option.splits)
  note step = openFiles_ok [OF v1 inv]
  have disk: "map_of (v_disk v1) (filePath f) = None" for f
  proof (cases "map_of (v_disk v) (filePath f)")
    case (Some bs)
    then have "filePath f \<in> set ?names" using dir [of f] by (simp add: set_file_names)
    with step show ?thesis by (simp add: open_step_def)
  qed (use step in \<open>simp add: open_step_def\<close>)
  have trans: "open_step v ?names v'" if "open_step v1 [] v'"
    using open_step_trans [OF _ that, of v ?names] step by simp
  have ok: "files_ok v1" using step by (simp add: open_inv_def)
  show ?thesis
  proof (cases "map_of (v_filesMap v1) (v_maxFid v1)")
    case None
    then have e: "v_filesMap v1 = []" "v_maxFid v1 = 0" using step by (auto simp: open_inv_def)
    then have "v1\<lparr>v_maxFid := 0\<rparr> = v1" by (cases v1) simp
    moreover have "createLogFile u 0 v1 = (None, v')"
      using op by (simp add: openOrCreateFiles_def v1 e)
    ultimately have "createLogFile u 0 (v1\<lparr>v_maxFid := 0\<rparr>) = (None, v')" by (simp only:)
    with createLogFile_wf [OF ok this _ disk] trans e show ?thesis by simp
  next
    case (Some cur)
    then have ne: "v_filesMap v1 \<noteq> []" by auto
    show ?thesis
    proof (cases "lf_end cur")
      case True
      then have cr: "createLogFile u (v_maxFid v1 + 1) (v1\<lparr>v_maxFid := v_maxFid v1 + 1\<rparr>) = (None, v')"
        using op by (simp add: openOrCreateFiles_def v1 ne Some Let_def)
      have keep: "map_of (v_filesMap v') f \<noteq> None" if "map_of (v_filesMap v1) f \<noteq> None" for f
        using cr that unfolding createLogFile_def by (elim openFile_ok) auto
      then have "v_maxFid v1 \<noteq> - 1" using keep [of "- 1"] last Some by auto
      then have "v_maxFid v1 + 1 \<noteq> 0" using eq_neg_iff_add_eq_0 by blast
      then have lt: "v_maxFid v1 < v_maxFid v1 + 1" by (rule word_less_succ)
      have "f < v_maxFid v1 + 1" if "map_of (v_filesMap v1) f = Some lf" for f lf
        using ok that lt unfolding files_ok_def by (meson le_less_trans)
      with createLogFile_wf [OF ok cr _ disk] trans show ?thesis by blast
    next
      case False
      then have "v' = v1" using op by (simp add: openOrCreateFiles_def v1 ne Some)
      with files_ok_wf [OF ok Some False disk] step show ?thesis by simp
    qed
  qed
qed

end
