(* ===== verification/VLogStore.thy ===== *)
theory VLogStore
  imports VLog
begin

text \<open>
  The value log seen from above: the exact records of a log and what a scan delivers, the contract
  the storage relies on (\<open>value_store\<close>, interpreted by the value log), and the properties of the
  component: writes read back, scans are exact, garbage collection and restarts are safe.
\<close>

section \<open>The records of a value log\<close>

fun offsets_from :: "int \<Rightarrow> bytes list \<Rightarrow> (int \<times> bytes) list" where
  "offsets_from off [] = []"
| "offsets_from off (pl # pls) = (off, pl) # offsets_from (off + int (length (frame pl))) pls"

text \<open>A file without damage: records, and the footer if it is finished.\<close>

definition file_holds :: "logFile \<Rightarrow> bytes list \<Rightarrow> bool" where
  "file_holds lf pls \<longleftrightarrow> list_all (\<lambda>pl. length pl \<le> 2 ^ 48) pls \<and>
     (\<exists>ft. lf_fd lf = concat (map frame pls) @ ft \<and>
        (if lf_end lf then length ft = fileFooterLength else ft = []))"

definition file_records :: "u32 \<Rightarrow> bytes list \<Rightarrow> (valuePointer \<times> bytes) list" where
  "file_records fid pls = map (\<lambda>(off, pl). (VP fid off, pl)) (offsets_from 0 pls)"

definition log_records :: "(u32 \<Rightarrow> bytes list) \<Rightarrow> u32 list \<Rightarrow> (valuePointer \<times> bytes) list" where
  "log_records g fids = concat (map (\<lambda>fid. file_records fid (g fid)) fids)"

definition vlog_holds :: "valueLog \<Rightarrow> (valuePointer \<times> bytes) list \<Rightarrow> bool" where
  "vlog_holds v recs \<longleftrightarrow>
     (\<exists>g. (\<forall>fid lf. map_of (v_filesMap v) fid = Some lf \<longrightarrow> file_holds lf (g fid)) \<and>
        recs = log_records g (sortedFids v))"

lemma log_records_simps [simp]:
  "log_records g [] = []" "log_records g (fid # fids) = file_records fid (g fid) @ log_records g fids"
  "log_records g (fids @ fids') = log_records g fids @ log_records g fids'"
  by (simp_all add: log_records_def)

lemma log_records_cong: "(\<And>f. f \<in> set fids \<Longrightarrow> g f = g' f) \<Longrightarrow> log_records g fids = log_records g' fids"
  by (induction fids) auto

lemma offsets_from_append:
  "offsets_from off (xs @ ys) =
     offsets_from off xs @ offsets_from (off + int (length (concat (map frame xs)))) ys"
  by (induction xs arbitrary: off) (auto simp: algebra_simps)

lemma layout_offsets:
  "list_all (\<lambda>pl. length pl \<le> 2 ^ 48) pls \<Longrightarrow> layout (concat (map frame pls)) off (offsets_from off pls)"
  by (induction pls arbitrary: off) (auto intro: layout_end layout_record)

lemma offsets_ge: "(o', pl) \<in> set (offsets_from off pls) \<Longrightarrow> off \<le> o'"
  by (induction pls arbitrary: off) (fastforce simp: headerLength_def)+

lemma offsets_split:
  "(o', pl) \<in> set (offsets_from off pls) \<Longrightarrow>
     \<exists>a b. pls = a @ pl # b \<and> o' = off + int (length (concat (map frame a))) \<and>
       filter (\<lambda>(x, _). o' \<le> x) (offsets_from off pls) = offsets_from o' (pl # b)"
proof (induction pls arbitrary: off)
  case (Cons p pls)
  show ?case
  proof (cases "(o', pl) \<in> set (offsets_from (off + int (length (frame p))) pls)")
    case True
    then have "off < o'" using offsets_ge [OF True] by (simp add: headerLength_def)
    with Cons.IH [OF True] show ?thesis
      by (elim exE) (rule exI [of _ "p # _"], auto)
  next
    case False
    with Cons.prems have "o' = off" "pl = p" by auto
    then show ?thesis
      using offsets_ge [of _ _ "off + int (length (frame p))" pls]
      by (intro exI [of _ "[]"] exI [of _ pls]) (fastforce intro!: filter_True simp: headerLength_def)
  qed
qed simp

text \<open>The calls of the callback over the records of several files, up to the first error.\<close>

fun visits :: "'s scan_fn \<Rightarrow> (valuePointer \<times> bytes) list \<Rightarrow> 's \<Rightarrow> go_error option \<times> 's" where
  "visits fn [] s = (None, s)"
| "visits fn ((vp, pl) # rs) s =
     (case fn vp (record_of pl) s of (Some e, s) \<Rightarrow> (Some e, s) | (None, s) \<Rightarrow> visits fn rs s)"

lemma visits_append:
  "visits fn (xs @ ys) s =
     (case visits fn xs s of (Some e, s) \<Rightarrow> (Some e, s) | (None, s) \<Rightarrow> visits fn ys s)"
  by (induction fn xs s rule: visits.induct) (auto split: prod.splits option.splits)

lemma visit_visits: "visit fn fid rs s = visits fn (map (\<lambda>(off, pl). (VP fid off, pl)) rs) s"
  by (induction fn fid rs s rule: visit.induct) (auto split: prod.splits option.splits)

text \<open>A scan of one file from the start or from a record.\<close>

lemma scan_file:
  assumes fh: "file_holds lf pls" and fid: "lf_fid lf = fid"
    and off: "off = 0 \<or> off \<in> fst ` set (offsets_from 0 pls)"
  shows "\<exists>reports. scan lf off fn s =
    (case visits fn (map (\<lambda>(o', pl). (VP fid o', pl)) (filter (\<lambda>(o', _). off \<le> o') (offsets_from 0 pls))) s of
       (err, s) \<Rightarrow> (err, s, reports))"
proof -
  obtain ft where ft: "lf_fd lf = concat (map frame pls) @ ft"
    "if lf_end lf then length ft = fileFooterLength else ft = []"
    and small: "list_all (\<lambda>pl. length pl \<le> 2 ^ 48) pls"
    using fh by (auto simp: file_holds_def)
  obtain a b where ab: "pls = a @ b" "off = int (length (concat (map frame a)))"
    "filter (\<lambda>(o', _). off \<le> o') (offsets_from 0 pls) = offsets_from off b"
  proof (cases "off = 0")
    case True
    then have "filter (\<lambda>(o', _). off \<le> o') (offsets_from 0 pls) = offsets_from off pls"
      using offsets_ge [of _ _ 0 pls] by (auto intro: filter_True)
    then show ?thesis using that [of "[]" pls] True by simp
  next
    case False
    with off obtain pl where "(off, pl) \<in> set (offsets_from 0 pls)" by auto
    from offsets_split [OF this] show ?thesis using that by auto
  qed
  have sz: "scan_size lf = int (length (concat (map frame pls)))"
    using ft by (auto simp: scan_size_def)
  have "section_at lf (scan_size lf) off = concat (map frame b)"
    unfolding section_at_def sz ft(1) by (simp add: ab(1,2))
  moreover have "layout (concat (map frame b)) off (offsets_from off b)"
    using small ab(1) by (intro layout_offsets) auto
  ultimately have lay: "layout (section_at lf (scan_size lf) off) off (offsets_from off b)" by simp
  have "0 \<le> off" "off \<le> scan_size lf" by (simp_all add: sz ab(1,2))
  from scan_layout [OF lay this scan_size_def, of fn s] show ?thesis
    unfolding ab(3) by (simp add: visit_visits fid)
qed

lemma sortedFids_set [simp]: "set (sortedFids v) = dom (map_of (v_filesMap v))"
  by (simp add: sortedFids_def dom_map_of_conv_image_fst)

lemma sortedFids_sorted [simp]: "sorted (sortedFids v)"
  by (simp add: sortedFids_def)

text \<open>A scan of the whole log from the start or from a stored record.\<close>

definition as_scanned :: "(valuePointer \<times> bytes) list \<Rightarrow> (valuePointer \<times> Record) list" where
  "as_scanned = map (\<lambda>(vp, pl). (vp, record_of pl))"

lemma visits_collect: "visits collect_fn recs s = (None, s @ as_scanned recs)"
  by (induction recs arbitrary: s) (auto simp: collect_fn_def as_scanned_def)

lemma scan_files_visits:
  assumes "\<forall>fid\<in>set fids. \<exists>lf. m fid = Some lf \<and> lf_fid lf = fid \<and> file_holds lf (g fid)"
    and "\<forall>fid\<in>set fids. Fid start \<le> fid"
    and "Offset start = 0 \<or> Offset start \<in> fst ` set (offsets_from 0 (g (Fid start)))"
  shows "scan_files start fn (List.map_filter m fids) s =
    visits fn (filter (\<lambda>(vp, _). start \<le> vp) (log_records g fids)) s"
  using assms(1,2)
proof (induction fids arbitrary: s)
  case Nil
  then show ?case by (simp add: List.map_filter_def)
next
  case (Cons fid fids)
  obtain lf where lf: "m fid = Some lf" "lf_fid lf = fid" "file_holds lf (g fid)"
    using Cons.prems by auto
  let ?off = "if lf_fid lf = Fid start then Offset start else 0"
  have "?off = 0 \<or> ?off \<in> fst ` set (offsets_from 0 (g fid))" using assms(3) lf(2) by auto
  from scan_file [OF lf(3,2) this, of fn s] obtain reports where sc: "scan lf ?off fn s =
      (case visits fn (map (\<lambda>(o', pl). (VP fid o', pl)) (filter (\<lambda>(o', _). ?off \<le> o') (offsets_from 0 (g fid)))) s of
         (err, s) \<Rightarrow> (err, s, reports))"
    by (elim exE)
  have "start \<le> VP fid o' \<longleftrightarrow> ?off \<le> o'" if "(o', pl) \<in> set (offsets_from 0 (g fid))" for o' pl
    using Cons.prems(2) lf(2) offsets_ge [OF that]
    by (cases start) (auto simp: less_eq_valuePointer_def less_vp_def)
  then have flt: "filter (\<lambda>(vp, _). start \<le> vp) (file_records fid (g fid)) =
      map (\<lambda>(off, pl). (VP fid off, pl)) (filter (\<lambda>(o', _). ?off \<le> o') (offsets_from 0 (g fid)))"
    by (auto simp: file_records_def filter_map comp_def intro!: arg_cong [where f = "map _"] filter_cong)
  let ?here = "filter (\<lambda>(vp, _). start \<le> vp) (file_records fid (g fid))"
  have "scan lf ?off fn s = (case visits fn ?here s of (err, s) \<Rightarrow> (err, s, reports))"
    unfolding sc flt by simp
  moreover have "scan_files start fn (List.map_filter m fids) s' =
      visits fn (filter (\<lambda>(vp, _). start \<le> vp) (log_records g fids)) s'" for s'
    by (rule Cons.IH) (use Cons.prems in auto)
  ultimately have "scan_files start fn (lf # List.map_filter m fids) s =
      visits fn (?here @ filter (\<lambda>(vp, _). start \<le> vp) (log_records g fids)) s"
    by (simp add: visits_append split: prod.split option.split del: filter_append)
  then show ?case by (simp add: List.map_filter_simps lf(1))
qed

lemma vlog_scan_visits:
  assumes wf: "vlog_wf v" and holds: "vlog_holds v recs"
    and start: "start = VP 0 0 \<or> start \<in> fst ` set recs"
  shows "vlog_scan v start fn s = visits fn (filter (\<lambda>(vp, _). start \<le> vp) recs) s"
proof -
  obtain g where g: "\<And>fid lf. map_of (v_filesMap v) fid = Some lf \<Longrightarrow> file_holds lf (g fid)"
    "recs = log_records g (sortedFids v)"
    using holds by (auto simp: vlog_holds_def)
  have below: "filter (\<lambda>(vp, _). start \<le> vp) (file_records fid (g fid)) = []" if "\<not> Fid start \<le> fid" for fid
    using that by (cases start) (auto simp: file_records_def filter_empty_conv
        less_eq_valuePointer_def less_vp_def split: if_splits)
  have flt: "filter (\<lambda>(vp, _). start \<le> vp) (log_records g fids) =
      filter (\<lambda>(vp, _). start \<le> vp) (log_records g (filter (\<lambda>fid. Fid start \<le> fid) fids))" for fids
    by (induction fids) (auto simp: below)
  have "Offset start = 0 \<or> Offset start \<in> fst ` set (offsets_from 0 (g (Fid start)))"
    using start g(2) by (force simp: log_records_def file_records_def)
  moreover have "\<forall>fid\<in>set (filter (\<lambda>fid. Fid start \<le> fid) (sortedFids v)).
      \<exists>lf. map_of (v_filesMap v) fid = Some lf \<and> lf_fid lf = fid \<and> file_holds lf (g fid)"
    using g(1) wf by (fastforce simp: vlog_wf_def)
  ultimately have "scan_files start fn
      (List.map_filter (map_of (v_filesMap v)) (filter (\<lambda>fid. Fid start \<le> fid) (sortedFids v))) s =
    visits fn (filter (\<lambda>(vp, _). start \<le> vp) (log_records g (filter (\<lambda>fid. Fid start \<le> fid) (sortedFids v)))) s"
    by (intro scan_files_visits) auto
  then show ?thesis
    unfolding vlog_scan_def Let_def g(2) by (subst flt) simp
qed

lemma vlog_scan_holds:
  assumes "vlog_wf v" "vlog_holds v recs" "start = VP 0 0 \<or> start \<in> fst ` set recs"
  shows "vlog_scan v start collect_fn [] = (None, as_scanned (filter (\<lambda>(vp, _). start \<le> vp) recs))"
  by (simp add: vlog_scan_visits [OF assms] visits_collect)

lemma sorted_last:
  fixes m :: "'a::linorder"
  assumes "sorted xs" "distinct xs" "m \<in> set xs" "\<And>x. x \<in> set xs \<Longrightarrow> x \<le> m"
  obtains fs where "xs = fs @ [m]" "m \<notin> set fs"
proof (cases xs rule: rev_cases)
  case (snoc ys y)
  then have "y = m" using assms by (auto simp: sorted_append dest: order.antisym)
  with snoc assms(2) that show thesis by auto
qed (use assms in simp)

lemma sort_snoc_max:
  "distinct xs \<Longrightarrow> \<forall>x\<in>set xs. x < y \<Longrightarrow> sort (xs @ [y]) = sort xs @ [y]" for y :: "'a::linorder"
  by (rule sorted_distinct_set_unique) (auto simp: sorted_append less_imp_le)

lemma vlog_holds_append:
  assumes wf: "vlog_wf v" and cur: "map_of (v_filesMap v) (v_maxFid v) = Some cur"
    and holds: "vlog_holds v recs" and small: "list_all (\<lambda>pl. length pl \<le> 2 ^ 48) bs"
    and fm: "v_filesMap v' = AList.update (v_maxFid v) lf (v_filesMap v)"
    and fd: "lf_fd lf = lf_fd cur @ concat (map frame bs) @ ft"
    and ft: "if lf_end lf then length ft = fileFooterLength else ft = []"
  shows "vlog_holds v' (recs @ map (\<lambda>(off, pl). (VP (v_maxFid v) off, pl))
    (offsets_from (int (length (lf_fd cur))) bs))"
proof -
  let ?m = "v_maxFid v"
  obtain g where g: "\<And>fid lf. map_of (v_filesMap v) fid = Some lf \<Longrightarrow> file_holds lf (g fid)"
    "recs = log_records g (sortedFids v)"
    using holds by (auto simp: vlog_holds_def)
  let ?g = "g(?m := g ?m @ bs)"
  have "\<not> lf_end cur" using wf cur by (auto simp: vlog_wf_def)
  then have cur_fd: "lf_fd cur = concat (map frame (g ?m))" and cur_small: "list_all (\<lambda>pl. length pl \<le> 2 ^ 48) (g ?m)"
    using g(1) [OF cur] by (auto simp: file_holds_def)
  have "sortedFids v' = sortedFids v"
    using cur by (auto simp: sortedFids_def fm update_keys dom_map_of_conv_image_fst [symmetric])
  moreover have "distinct (sortedFids v)" "?m \<in> set (sortedFids v)" "\<And>x. x \<in> set (sortedFids v) \<Longrightarrow> x \<le> ?m"
    using wf cur by (force simp: sortedFids_def vlog_wf_def)+
  then obtain fs where fs: "sortedFids v = fs @ [?m]" "?m \<notin> set fs"
    by (rule sorted_last [OF sortedFids_sorted])
  moreover have "log_records ?g fs = log_records g fs"
    using fs(2) by (intro log_records_cong) auto
  ultimately have "recs @ map (\<lambda>(off, pl). (VP ?m off, pl)) (offsets_from (int (length (lf_fd cur))) bs) =
      log_records ?g (sortedFids v')"
    by (simp add: g(2) file_records_def offsets_from_append cur_fd)
  moreover have "file_holds lf (g ?m @ bs)"
    using small cur_small ft unfolding file_holds_def by (auto simp: fd cur_fd)
  then have "\<forall>fid lf. map_of (v_filesMap v') fid = Some lf \<longrightarrow> file_holds lf (?g fid)"
    using g(1) by (auto simp: fm)
  ultimately show ?thesis unfolding vlog_holds_def by blast
qed

lemma vlog_holds_new:
  assumes holds: "vlog_holds v recs" and d: "distinct (map_keys (v_filesMap v))"
    and above: "\<And>f lf. map_of (v_filesMap v) f = Some lf \<Longrightarrow> f < fid"
    and fm: "v_filesMap v' = AList.update fid (fresh_file fid) (v_filesMap v)"
  shows "vlog_holds v' recs"
proof -
  obtain g where g: "\<And>fid lf. map_of (v_filesMap v) fid = Some lf \<Longrightarrow> file_holds lf (g fid)"
    "recs = log_records g (sortedFids v)"
    using holds by (auto simp: vlog_holds_def)
  have new: "f \<in> set (map_keys (v_filesMap v)) \<Longrightarrow> f < fid" for f
    using above d by (metis domD dom_map_of_conv_image_fst list.set_map)
  then have "sortedFids v' = sortedFids v @ [fid]"
    using d by (auto simp: sortedFids_def fm update_keys intro!: sort_snoc_max)
  moreover have "log_records (g(fid := [])) (sortedFids v) = log_records g (sortedFids v)"
    using new by (intro log_records_cong) (auto simp: sortedFids_def)
  ultimately have "recs = log_records (g(fid := [])) (sortedFids v')"
    by (simp add: g(2) file_records_def)
  moreover have "file_holds (fresh_file fid) []" by (simp add: file_holds_def fresh_file_def)
  then have "\<forall>f lf. map_of (v_filesMap v') f = Some lf \<longrightarrow> file_holds lf ((g(fid := [])) f)"
    using g(1) by (auto simp: fm)
  ultimately show ?thesis unfolding vlog_holds_def by blast
qed


definition pointed :: "u32 \<Rightarrow> int \<Rightarrow> bytes list \<Rightarrow> (valuePointer \<times> bytes) list" where
  "pointed fid off bs = map (\<lambda>(off, pl). (VP fid off, pl)) (offsets_from off bs)"

lemma toDisk_holds:
  assumes wf: "vlog_wf v" and rm: "room (Suc n) v" and holds: "vlog_holds v recs"
    and cur: "map_of (v_filesMap v) (v_maxFid v) = Some cur"
    and small: "list_all (\<lambda>pl. length pl \<le> 2 ^ 48) bs"
    and td: "toDisk u (concat (map frame bs)) reqs v = (None, v')"
  shows "vlog_holds v' (recs @ pointed (v_maxFid v) (int (length (lf_fd cur))) bs)"
  using wf td
proof (cases rule: toDisk_cases)
  case (kept cur' lf io)
  with cur have cur': "cur' = cur" by simp
  note wr = written_file [OF wf kept(1,2), of reqs, unfolded cur']
  show ?thesis
    unfolding pointed_def
    by (rule vlog_holds_append [OF wf cur holds small,
        where ft = "[]" and lf = "fold (\<lambda>req. updateMaxTS (ts req)) reqs lf"])
      (use kept(4) wr in \<open>simp_all add: setFile_def\<close>)
next
  case (rotated cur' lf io)
  with cur have cur': "cur' = cur" by simp
  note wr = written_file [OF wf rotated(1,2), of reqs, unfolded cur']
  let ?lf = "fold (\<lambda>req. updateMaxTS (ts req)) reqs lf"
  let ?v = "setFile (v_maxFid v) ?lf io v"
  have rm': "room (Suc n) ?v" using rm by (simp add: room_def setFile_def)
  have cur2: "map_of (v_filesMap ?v) (v_maxFid ?v) = Some ?lf" by (simp add: setFile_def)
  obtain lf' where lf': "v_filesMap v' = AList.update (v_maxFid v + 1) (fresh_file (v_maxFid v + 1))
      (AList.update (v_maxFid v) lf' (v_filesMap ?v))"
    "lf_fd lf' = lf_fd ?lf @ footer (lf_maxTS ?lf)" "lf_end lf'"
    using rotate_ok(4) [OF wr(1) cur2 rm' rotated(3)] by (auto simp: setFile_def)
  let ?v1 = "v\<lparr>v_filesMap := AList.update (v_maxFid v) lf' (v_filesMap ?v)\<rparr>"
  have upd: "v_filesMap ?v1 = AList.update (v_maxFid v) lf' (v_filesMap v)"
    by (simp add: setFile_def)
  have "vlog_holds ?v1 (recs @ pointed (v_maxFid v) (int (length (lf_fd cur))) bs)"
    unfolding pointed_def
    by (rule vlog_holds_append [OF wf cur holds small upd, where ft = "footer (lf_maxTS ?lf)"])
      (use lf' wr(3) in simp_all)
  then show ?thesis
  proof (rule vlog_holds_new)
    show "distinct (map_keys (v_filesMap ?v1))" using wf by (simp add: upd distinct_update vlog_wf_def)
    show "f < v_maxFid v + 1" if "map_of (v_filesMap ?v1) f = Some x" for f x
      using that wf next_fid(1) [OF rm] unfolding upd vlog_wf_def
      by (metis fun_upd_apply le_less_trans map_of_update)
    show "v_filesMap v' = AList.update (v_maxFid v + 1) (fresh_file (v_maxFid v + 1)) (v_filesMap ?v1)"
      using lf'(1) by simp
  qed
qed simp

abbreviation stored :: "request list \<Rightarrow> (valuePointer \<times> bytes) list" where
  "stored reqs \<equiv> map (\<lambda>r. (req_vp r, req_payload r)) reqs"

lemma pointed_snoc:
  "pointed fid off (bs @ [b]) = pointed fid off bs @ [(VP fid (off + int (length (concat (map frame bs)))), b)]"
  by (simp add: pointed_def offsets_from_append)

lemma write_loop_holds:
  "vlog_wf v \<Longrightarrow> room (Suc (length reqs)) v \<Longrightarrow> vlog_holds v recs \<Longrightarrow>
   map_of (v_filesMap v) (v_maxFid v) = Some cur \<Longrightarrow>
   list_all (\<lambda>pl. length pl \<le> 2 ^ 48) bs \<Longrightarrow> list_all (\<lambda>r. length (req_payload r) \<le> 2 ^ 48) reqs \<Longrightarrow>
   write_loop u reqs (concat (map frame bs)) bufReqs v = (None, reqs', v') \<Longrightarrow>
   vlog_holds v' (recs @ pointed (v_maxFid v) (int (length (lf_fd cur))) bs @ stored reqs')"
proof (induction reqs arbitrary: bs bufReqs v recs reqs' cur)
  case Nil
  then show ?case
    using toDisk_holds [OF Nil.prems(1) _ Nil.prems(3-5), of 0 u bufReqs v'] by (auto split: prod.splits)
next
  case (Cons req reqs)
  let ?req = "placed cur (concat (map frame bs)) req" and ?bs = "bs @ [req_payload req]"
  have buf: "concat (map frame bs) @ frame (req_payload req) = concat (map frame ?bs)" by simp
  have small: "list_all (\<lambda>pl. length pl \<le> 2 ^ 48) ?bs" using Cons.prems(5,6) by simp
  have "lf_fid cur = v_maxFid v" "lf_writeOffset cur = int (length (lf_fd cur))"
    using Cons.prems(1,4) by (auto simp: vlog_wf_def)
  then have vp: "req_vp ?req = VP (v_maxFid v) (int (length (lf_fd cur)) + int (length (concat (map frame bs))))"
    by (simp add: placed_def GetWriteOffset_def)
  from Cons.prems(7,4) show ?case
  proof (cases rule: write_step_cases)
    case (now v1 reqs1)
    note ok = toDisk_ok [OF Cons.prems(1,2) [simplified] now(2) Cons.prems(4)]
    obtain cur1 where cur1: "map_of (v_filesMap v1) (v_maxFid v1) = Some cur1" using ok(1) by (rule vlog_wf_cur)
    have "vlog_holds v1 (recs @ pointed (v_maxFid v) (int (length (lf_fd cur))) ?bs)"
      by (rule toDisk_holds [OF Cons.prems(1-4) small now(2) [unfolded buf]])
    from Cons.IH [OF ok(1,2) this cur1 _ _, of "[]" "[]" reqs1] Cons.prems(6) now show ?thesis
      by (simp add: pointed_snoc vp pointed_def [of _ _ "[]"])
  next
    case (later reqs1)
    from Cons.IH [OF Cons.prems(1) room_mono [OF Cons.prems(2)] Cons.prems(3,4) small _
        later(2) [unfolded buf]] Cons.prems(6) later(1) show ?thesis
      by (simp add: pointed_snoc vp)
  qed simp
qed

section \<open>The value log as a store\<close>

lemma read_at_append_right: "read_at fd n off = Inr xs \<Longrightarrow> read_at (fd @ suf) n off = Inr xs"
  by (auto simp: read_at_def split: if_splits)

lemma lf_readRecord_append:
  "lf_readRecord lf off = Inr r \<Longrightarrow> lf_fd lf' = lf_fd lf @ suf \<Longrightarrow> lf_readRecord lf' off = Inr r"
  by (auto simp: lf_readRecord_def Let_def read_at_append_right split: sum.splits if_splits)

lemma readValue_extends:
  "readValue v vp = Inr pl \<Longrightarrow> extends v v' \<Longrightarrow> readValue v' vp = Inr pl"
proof -
  assume rd: "readValue v vp = Inr pl" and ext: "extends v v'"
  then obtain lf r where lf: "map_of (v_filesMap v) (Fid vp) = Some lf" "lf_readRecord lf (Offset vp) = Inr r"
    "pl = payload r"
    by (auto simp: readValue_def getFile_def split: option.splits sum.splits)
  with ext obtain lf' suf where "map_of (v_filesMap v') (Fid vp) = Some lf'" "lf_fd lf' = lf_fd lf @ suf"
    unfolding extends_def file_extends_def by blast
  with lf_readRecord_append [OF lf(2)] lf(3) show ?thesis by (simp add: readValue_def getFile_def)
qed

text \<open>What the storage above relies on: a successful batch can be read back at the pointers it was
  given, and nothing that could be read is lost. \<open>capacity\<close> bounds the batch sizes still accepted.\<close>

locale value_store =
  fixes inv :: "'v \<Rightarrow> bool"
    and capacity :: "nat \<Rightarrow> 'v \<Rightarrow> bool"
    and put :: "request list \<Rightarrow> 'v \<Rightarrow> go_error option \<times> request list \<times> 'v"
    and get :: "'v \<Rightarrow> valuePointer \<Rightarrow> go_error + bytes"
  assumes write_inv: "inv v \<Longrightarrow> capacity (Suc (length reqs)) v \<Longrightarrow> put reqs v = (None, reqs', v') \<Longrightarrow> inv v'"
    and write_payloads: "inv v \<Longrightarrow> capacity (Suc (length reqs)) v \<Longrightarrow> put reqs v = (None, reqs', v') \<Longrightarrow>
      map req_payload reqs' = map req_payload reqs \<and> map ts reqs' = map ts reqs"
    and write_reads: "inv v \<Longrightarrow> capacity (Suc (length reqs)) v \<Longrightarrow> put reqs v = (None, reqs', v') \<Longrightarrow>
      r \<in> set reqs' \<Longrightarrow> length (req_payload r) \<le> 2 ^ 48 \<Longrightarrow> get v' (req_vp r) = Inr (req_payload r)"
    and write_keeps: "inv v \<Longrightarrow> capacity (Suc (length reqs)) v \<Longrightarrow> put reqs v = (err, reqs', v') \<Longrightarrow>
      get v vp = Inr pl \<Longrightarrow> get v' vp = Inr pl"
begin

text \<open>Two successful batches: both can be get back afterwards.\<close>

lemma two_writes:
  assumes "inv v" "capacity (Suc (length reqs)) v" "put reqs v = (None, reqs1, v1)"
    and "capacity (Suc (length later)) v1" "put later v1 = (None, reqs2, v2)"
    and "r \<in> set reqs1 \<union> set reqs2" "length (req_payload r) \<le> 2 ^ 48"
  shows "get v2 (req_vp r) = Inr (req_payload r)"
proof -
  have inv1: "inv v1" by (rule write_inv [OF assms(1-3)])
  from assms(6) show ?thesis
  proof
    assume "r \<in> set reqs1"
    then have "get v1 (req_vp r) = Inr (req_payload r)" by (rule write_reads [OF assms(1-3) _ assms(7)])
    then show ?thesis by (rule write_keeps [OF inv1 assms(4,5)])
  next
    assume "r \<in> set reqs2"
    then show ?thesis by (rule write_reads [OF inv1 assms(4,5) _ assms(7)])
  qed
qed

end

lemma vlog_write_ok:
  assumes "vlog_wf v" "room (Suc (length reqs)) v" "vlog_write u reqs v = (None, reqs', v')"
  shows "vlog_wf v'" "map req_payload reqs' = map req_payload reqs" "map ts reqs' = map ts reqs"
    "\<And>r. r \<in> set reqs' \<Longrightarrow> holds_at v' (req_vp r) (req_payload r) (ts r)"
    "sorted_wrt (<) (map req_vp reqs')"
proof -
  obtain cur where "map_of (v_filesMap v) (v_maxFid v) = Some cur" using assms(1) by (rule vlog_wf_cur)
  note ok = write_loop_ok [OF assms(1,2) this assms(3) [unfolded vlog_write_def]]
  then show "vlog_wf v'" "map req_payload reqs' = map req_payload reqs" "map ts reqs' = map ts reqs"
    "\<And>r. r \<in> set reqs' \<Longrightarrow> holds_at v' (req_vp r) (req_payload r) (ts r)"
    "sorted_wrt (<) (map req_vp reqs')"
    by auto
qed

lemma vlog_write_keeps:
  assumes "vlog_wf v" "room (Suc (length reqs)) v" "vlog_write u reqs v = (err, reqs', v')"
    and "readValue v vp = Inr pl"
  shows "readValue v' vp = Inr pl"
  using readValue_extends [OF assms(4) write_loop_extends [OF assms(1,2) assms(3) [unfolded vlog_write_def]]] .

interpretation vlog: value_store vlog_wf room "vlog_write u" readValue for u
  by unfold_locales
    (auto simp: vlog_write_ok(1-3) intro: readValue_holds_at [OF vlog_write_ok(4)] vlog_write_keeps)

section \<open>The value log is correct\<close>

definition example_opt :: Options where
  "example_opt = \<lparr>ValueLogFileSize = 38, opt_Sync = True, KVChanCapacity = 1, StopWriteAtAvailableSpace = 0\<rparr>"

definition example_vlog :: valueLog where
  "example_vlog = \<lparr>v_sync = True, v_maxFid = 0, v_filesMap = [(0, fresh_file 0)], v_opt = example_opt,
     v_disk = [], v_io = []\<rparr>"

definition example_req :: "int \<Rightarrow> bytes \<Rightarrow> request" where
  "example_req t pl = \<lparr>startTS = t, commitTS = 0, tp = Prewrite, req_payload = pl, req_vp = VP 0 0, req_err = None\<rparr>"

lemma example_vlog_wf: "vlog_wf example_vlog" "room 4 example_vlog"
  by (auto simp: vlog_wf_def example_vlog_def fresh_file_def room_def)

definition example_batch :: "request list" where
  "example_batch = [example_req 5 [1, 2], example_req 7 [3, 4, 5, 6, 7], example_req 9 [8]]"

lemma example_batch_written:
  "\<exists>reqs' v'. vlog_write example_unmarshal example_batch example_vlog = (None, reqs', v') \<and>
     map req_vp reqs' = [VP 0 0, VP 0 18, VP 1 0]"
proof -
  have "case vlog_write example_unmarshal example_batch example_vlog of
      (err, reqs', v') \<Rightarrow> err = None \<and> map req_vp reqs' = [VP 0 0, VP 0 18, VP 1 0]"
    by code_simp
  then show ?thesis by (simp add: case_prod_unfold) (metis prod.collapse)
qed

lemma example_batch_small: "list_all (\<lambda>r. length (req_payload r) \<le> 2 ^ 48) example_batch" "length example_batch = 3"
  by (simp_all add: example_batch_def example_req_def)

text \<open>C1. After a successful write of a batch, which may have rotated the file any number of times, every
  request of the batch reads back at the value pointer it was given; the pointers strictly increase.\<close>

theorem write_then_read:
  assumes "vlog_wf v" "room (Suc (length reqs)) v" "list_all (\<lambda>r. length (req_payload r) \<le> 2 ^ 48) reqs"
    and "vlog_write u reqs v = (None, reqs', v')"
  shows "map req_payload reqs' = map req_payload reqs \<and> vlog_wf v' \<and>
    list_all (\<lambda>r. readValue v' (req_vp r) = Inr (req_payload r)) reqs' \<and>
    sorted_wrt (<) (map req_vp reqs')"
proof -
  note ok = vlog_write_ok [OF assms(1,2,4)]
  have "list_all (\<lambda>pl. length pl \<le> 2 ^ 48) (map req_payload reqs')"
    unfolding ok(2) using assms(3) by (simp add: list.pred_map comp_def)
  then have "length (req_payload r) \<le> 2 ^ 48" if "r \<in> set reqs'" for r using that by (simp add: list_all_iff)
  then have "readValue v' (req_vp r) = Inr (req_payload r)" if "r \<in> set reqs'" for r
    using vlog.write_reads [OF assms(1,2,4) that] that by blast
  with ok(1,2,5) show ?thesis by (simp add: list_all_iff)
qed

theorem write_then_read_witness:
  "\<exists>reqs' v'. vlog_write example_unmarshal example_batch example_vlog = (None, reqs', v') \<and>
     list_all (\<lambda>r. readValue v' (req_vp r) = Inr (req_payload r)) reqs'"
proof -
  obtain reqs' v' where w: "vlog_write example_unmarshal example_batch example_vlog = (None, reqs', v')"
    using example_batch_written by blast
  from write_then_read [OF example_vlog_wf(1) _ example_batch_small(1) w] w show ?thesis
    using example_vlog_wf(2) by (auto simp: example_batch_small(2))
qed

text \<open>Without system call faults a write succeeds, whatever the batch.\<close>

theorem write_succeeds:
  assumes "vlog_wf v" "room (Suc (length reqs)) v" "v_io v = []"
  shows "\<exists>reqs' v'. vlog_write u reqs v = (None, reqs', v') \<and> v_io v' = []"
  unfolding vlog_write_def by (rule write_loop_no_fault [OF assms])

theorem write_succeeds_witness:
  "\<exists>reqs' v'. vlog_write example_unmarshal example_batch example_vlog = (None, reqs', v') \<and> v_io v' = []"
  using write_succeeds [OF example_vlog_wf(1), of example_batch] example_vlog_wf(2)
  by (simp add: example_batch_small(2)) (simp add: example_vlog_def)

text \<open>C14. A write never makes a stored value unreadable, not even when it fails half way.\<close>

theorem write_keeps_values:
  assumes "vlog_wf v" "room (Suc (length reqs)) v" "vlog_write u reqs v = (err, reqs', v')"
    and "readValue v vp = Inr pl"
  shows "readValue v' vp = Inr pl"
  using assms by (rule vlog.write_keeps)

text \<open>The failing write: its outcomes let the data through and fail in the footer of the rotation.\<close>

definition example_full :: valueLog where
  "example_full = (snd (snd (vlog_write example_unmarshal [example_req 5 [1, 2]] example_vlog)))
     \<lparr>v_io := [IoOk, IoOk, IoErr 3]\<rparr>"

lemma vlog_wf_io [simp]: "vlog_wf (v\<lparr>v_io := io\<rparr>) = vlog_wf v"
  by (simp add: vlog_wf_def)

lemma example_full_wf: "vlog_wf example_full" "room 3 example_full"
  "readValue example_full (VP 0 0) = Inr [1, 2]"
proof -
  let ?v = "snd (snd (vlog_write example_unmarshal [example_req 5 [1, 2]] example_vlog))"
  have "fst (vlog_write example_unmarshal [example_req 5 [1, 2]] example_vlog) = None" by code_simp
  then obtain reqs' where "vlog_write example_unmarshal [example_req 5 [1, 2]] example_vlog = (None, reqs', ?v)"
    by (metis prod.collapse)
  then have "vlog_wf ?v"
    by (rule vlog_write_ok(1) [OF example_vlog_wf(1) room_mono [OF example_vlog_wf(2)], rotated]) simp
  then show "vlog_wf example_full" by (simp add: example_full_def)
  have "v_maxFid ?v = 0" by code_simp
  then show "room 3 example_full" by (simp add: example_full_def room_def)
  show "readValue example_full (VP 0 0) = Inr [1, 2]" by code_simp
qed

theorem write_keeps_values_witness:
  "\<exists>reqs' v'. vlog_write example_unmarshal [example_req 6 [1, 2, 3, 4, 5]] example_full = (Some ErrIO, reqs', v') \<and>
     readValue v' (VP 0 0) = Inr [1, 2]"
proof -
  have "fst (vlog_write example_unmarshal [example_req 6 [1, 2, 3, 4, 5]] example_full) = Some ErrIO" by code_simp
  then obtain reqs' v' where
    w: "vlog_write example_unmarshal [example_req 6 [1, 2, 3, 4, 5]] example_full = (Some ErrIO, reqs', v')"
    by (metis prod.collapse)
  from write_keeps_values [OF example_full_wf(1) _ w example_full_wf(3)] w show ?thesis
    using room_mono [OF example_full_wf(2)] by simp
qed

text \<open>C2. A log that holds exactly the records \<open>recs\<close> holds exactly \<open>recs\<close> and the batch after a successful
  write, and a scan from the start or from any stored pointer delivers exactly the records at or after
  that pointer, in pointer order.\<close>

theorem scan_after_write:
  assumes "vlog_wf v" "room (Suc (length reqs)) v" "vlog_holds v recs"
    and "list_all (\<lambda>r. length (req_payload r) \<le> 2 ^ 48) reqs"
    and "vlog_write u reqs v = (None, reqs', v')"
    and "start = VP 0 0 \<or> start \<in> set (map fst (recs @ stored reqs'))"
  shows "vlog_holds v' (recs @ stored reqs') \<and>
    vlog_scan v' start collect_fn [] =
      (None, as_scanned (filter (\<lambda>(vp, _). start \<le> vp) (recs @ stored reqs')))"
proof -
  obtain cur where cur: "map_of (v_filesMap v) (v_maxFid v) = Some cur" using assms(1) by (rule vlog_wf_cur)
  have holds: "vlog_holds v' (recs @ stored reqs')"
    using write_loop_holds [OF assms(1-3) cur _ assms(4), of "[]" u "[]" reqs' v'] assms(5)
    by (simp add: vlog_write_def pointed_def)
  have "start = VP 0 0 \<or> start \<in> fst ` set (recs @ stored reqs')" using assms(6) by (simp only: set_map)
  from vlog_scan_holds [OF vlog_write_ok(1) [OF assms(1,2,5)] holds this] holds show ?thesis by blast
qed

lemma example_vlog_holds: "vlog_holds example_vlog []"
proof -
  have "file_holds (fresh_file 0) []" by (simp add: file_holds_def fresh_file_def)
  then show ?thesis
    unfolding vlog_holds_def
    by (intro exI [of _ "\<lambda>_. []"]) (simp add: example_vlog_def sortedFids_def file_records_def)
qed

theorem scan_after_write_witness:
  "\<exists>reqs' v'. vlog_write example_unmarshal example_batch example_vlog = (None, reqs', v') \<and>
     vlog_scan v' (VP 0 18) collect_fn [] = (None, as_scanned (filter (\<lambda>(vp, _). VP 0 18 \<le> vp) (stored reqs')))"
proof -
  obtain reqs' v' where w: "vlog_write example_unmarshal example_batch example_vlog = (None, reqs', v')"
    "map req_vp reqs' = [VP 0 0, VP 0 18, VP 1 0]"
    using example_batch_written by (elim exE conjE)
  have "VP 0 18 \<in> set (map fst ([] @ stored reqs'))" using w(2) by (simp add: comp_def)
  with scan_after_write [OF example_vlog_wf(1) _ example_vlog_holds example_batch_small(1) w(1), of "VP 0 18"] w(1)
  show ?thesis using example_vlog_wf(2) by (auto simp: example_batch_small(2))
qed

text \<open>Garbage collection up to a timestamp removes exactly the files, other than the current one, whose
  maximal timestamp is not above it, and keeps the log well-formed.\<close>

theorem gcTS_exact:
  assumes "vlog_wf v"
  shows "vlog_wf (gcTS g v) \<and> v_maxFid (gcTS g v) = v_maxFid v \<and>
    map_of (v_filesMap (gcTS g v)) fid =
      (case map_of (v_filesMap v) fid of
         None \<Rightarrow> None
       | Some lf \<Rightarrow> if fid \<noteq> v_maxFid v \<and> lf_maxTS lf \<le> g then None else Some lf)"
  using gcTS_wf [OF assms] gcTS_files [OF assms] by (simp add: gcTS_def Let_def)

theorem gcTS_exact_witness:
  "vlog_wf (gcTS 100 example_full) \<and> map_of (v_filesMap (gcTS 100 example_full)) 0 = map_of (v_filesMap example_full) 0"
proof -
  have "v_maxFid example_full = 0" by code_simp
  with gcTS_exact [OF example_full_wf(1), of 100 0] show ?thesis by (auto split: option.splits)
qed



text \<open>The directory of a log: the files it has open.\<close>

definition disk_of :: "valueLog \<Rightarrow> (string \<times> bytes) list" where
  "disk_of v = map (\<lambda>(fid, lf). (lf_path lf, lf_fd lf)) (v_filesMap v)"

lemma map_of_disk_of:
  assumes "vlog_wf v"
  shows "map_of (disk_of v) (filePath fid) = map_option lf_fd (map_of (v_filesMap v) fid)"
proof -
  have "\<forall>(fid, lf)\<in>set fm. lf_path lf = filePath fid \<Longrightarrow>
      map_of (map (\<lambda>(fid, lf). (lf_path lf, lf_fd lf)) fm) (filePath fid) = map_option lf_fd (map_of fm fid)" for fm
    by (induction fm) auto
  moreover have "\<forall>(fid, lf)\<in>set (v_filesMap v). lf_path lf = filePath fid"
    using assms by (auto simp: vlog_wf_def)
  ultimately show ?thesis unfolding disk_of_def by blast
qed

text \<open>C17. Restart: opening the directory of a well-formed log gives a well-formed log in which every value
  that could be read before still reads back at the same pointer.\<close>

theorem reopen_keeps_values:
  assumes wf: "vlog_wf v"
    and files: "\<forall>fid. map_of (v_filesMap v) fid \<noteq> None \<longrightarrow> (filePath fid, False) \<in> set files"
    and new: "newValueLog u files (disk_of v) opt io = Inr v'"
    and last: "map_of (v_filesMap v') (- 1) = None"
    and rd: "readValue v vp = Inr pl"
  shows "vlog_wf v' \<and> readValue v' vp = Inr pl"
proof -
  let ?v0 = "\<lparr>v_sync = opt_Sync (case opt of None \<Rightarrow> DefaultOptions | Some opt \<Rightarrow> opt), v_maxFid = 0,
     v_filesMap = [], v_opt = (case opt of None \<Rightarrow> DefaultOptions | Some opt \<Rightarrow> opt), v_disk = disk_of v, v_io = io\<rparr>"
  have op: "openOrCreateFiles u files ?v0 = (None, v')"
    using new by (auto simp: newValueLog_def Let_def split: prod.splits option.splits)
  have inv: "open_inv ?v0" by (simp add: open_inv_def files_ok_def)
  have dir: "(filePath f, False) \<in> set files" if "map_of (v_disk ?v0) (filePath f) \<noteq> None" for f
    using that files by (simp add: map_of_disk_of [OF wf])
  note res = openOrCreateFiles_ok [OF op inv dir last]
  obtain lf r where lf: "map_of (v_filesMap v) (Fid vp) = Some lf" "lf_readRecord lf (Offset vp) = Inr r" "pl = payload r"
    using rd by (auto simp: readValue_def getFile_def split: option.splits sum.splits)
  have "content ?v0 (Fid vp) = Some (lf_fd lf)"
    using lf(1) by (simp add: content_def map_of_disk_of [OF wf])
  moreover have "filePath (Fid vp) \<in> set (file_names files)" using files lf(1) by (simp add: set_file_names)
  ultimately have "content v' (Fid vp) = Some (lf_fd lf)" "map_of (v_filesMap v') (Fid vp) \<noteq> None"
    using res unfolding open_step_def by blast+
  then obtain lf' where "map_of (v_filesMap v') (Fid vp) = Some lf'" "lf_fd lf' = lf_fd lf"
    by (auto simp: content_def)
  with res lf lf_readRecord_append [OF lf(2), of lf' "[]"] show ?thesis by (simp add: readValue_def getFile_def)
qed


lemma example_reopen:
  "\<exists>v'. newValueLog example_unmarshal [(''000000.vlog'', False)] (disk_of example_full) None [] = Inr v' \<and>
     map_of (v_filesMap v') (- 1) = None"
proof -
  have "case newValueLog example_unmarshal [(''000000.vlog'', False)] (disk_of example_full) None [] of
      Inl e \<Rightarrow> False | Inr v \<Rightarrow> map_of (v_filesMap v) (- 1) = None"
    by code_simp
  then show ?thesis by (simp split: sum.splits)
qed

theorem reopen_keeps_values_witness:
  "\<exists>v'. newValueLog example_unmarshal [(''000000.vlog'', False)] (disk_of example_full) None [] = Inr v' \<and>
     vlog_wf v' \<and> readValue v' (VP 0 0) = Inr [1, 2]"
proof -
  obtain v' where v': "newValueLog example_unmarshal [(''000000.vlog'', False)] (disk_of example_full) None [] = Inr v'"
    "map_of (v_filesMap v') (- 1) = None"
    using example_reopen by (elim exE conjE)
  have "map fst (v_filesMap example_full) = [0]" "filePath 0 = ''000000.vlog''" by code_simp+
  then have "\<forall>fid. map_of (v_filesMap example_full) fid \<noteq> None \<longrightarrow>
      (filePath fid, False) \<in> set [(''000000.vlog'', False)]"
    by (cases "v_filesMap example_full") auto
  from reopen_keeps_values [OF example_full_wf(1) this v' example_full_wf(3)] v'(1) show ?thesis by blast
qed


end
