(* ===== verification/Sorter.thy ===== *)
theory Sorter
  imports Wire
begin

text \<open>
  The sorter of a pump, \<^verbatim>\<open>pump/storage/sorter.go\<close>: it receives every binlog of the value log in
  write order and reports commits in increasing order of commit timestamp, waiting at each prewrite
  until its commit or rollback has arrived or the resolver has settled it.

  The two goroutines share the state under one lock: \<^verbatim>\<open>pushTSItem\<close> is one step, and the goroutine
  \<^verbatim>\<open>run\<close> proceeds in steps that end where it releases the lock (\<^verbatim>\<open>Unlock\<close>, or \<^verbatim>\<open>cond.Wait\<close>).
  \<open>run_pc\<close> says where it waits. A step of \<^verbatim>\<open>run\<close> carries what it observes of its environment: whether
  a second has passed since the prewrite was taken, and the answers of the resolver (an absent
  resolver answers False). \<open>emitted\<close> lists the calls of \<^verbatim>\<open>maxTSItemCB\<close>.
\<close>

record sortItem =
  si_start :: int
  si_commit :: int
  si_tp :: BinlogType

datatype run_pc = Top | Waiting sortItem | Quit

record sorter =
  waitStartTS :: "int set"
  items :: "sortItem list"
  closed :: bool
  pc :: run_pc
  maxTSItem :: sortItem
  emitted :: "sortItem list"

definition newSorter :: sorter where
  "newSorter = \<lparr>waitStartTS = {}, items = [], closed = False, pc = Top,
     maxTSItem = \<lparr>si_start = 0, si_commit = 0, si_tp = Prewrite\<rparr>, emitted = []\<rparr>"

definition allMatched :: "sorter \<Rightarrow> bool" where
  "allMatched s \<longleftrightarrow> waitStartTS s = {}"

definition pushTSItem :: "sortItem \<Rightarrow> sorter \<Rightarrow> sorter" where
  "pushTSItem item s =
     (let s = (if si_tp item = Prewrite
               then s\<lparr>waitStartTS := insert (si_start item) (waitStartTS s)\<rparr>
               else s\<lparr>waitStartTS := waitStartTS s - {si_start item}\<rparr>)
      in s\<lparr>items := items s @ [item]\<rparr>)"

text \<open>The inner loop of \<^verbatim>\<open>run\<close> for a prewrite, up to the next release of the lock.\<close>

definition wait_step :: "bool \<Rightarrow> (int \<Rightarrow> bool) \<Rightarrow> sortItem \<Rightarrow> sorter \<Rightarrow> sorter" where
  "wait_step elapsed resolver item s =
     (if si_start item \<notin> waitStartTS s then s\<lparr>pc := Top\<rparr>
      else if elapsed \<and> resolver (si_start item)
      then s\<lparr>waitStartTS := waitStartTS s - {si_start item}, pc := Top\<rparr>
      else if closed s then s\<lparr>pc := Quit\<rparr>
      else s\<lparr>pc := Waiting item\<rparr>)"

definition run_step :: "bool \<Rightarrow> (int \<Rightarrow> bool) \<Rightarrow> sorter \<Rightarrow> sorter" where
  "run_step elapsed resolver s =
     (case pc s of
        Quit \<Rightarrow> s
      | Waiting item \<Rightarrow> wait_step elapsed resolver item s
      | Top \<Rightarrow>
          (case items s of
             [] \<Rightarrow> if closed s then s\<lparr>pc := Quit\<rparr> else s
           | item # rest \<Rightarrow>
               let s = s\<lparr>items := rest\<rparr> in
               if si_tp item = Prewrite then wait_step elapsed resolver item s
               else if si_commit item > si_commit (maxTSItem s)
               then s\<lparr>maxTSItem := item, emitted := emitted s @ [item]\<rparr>
               else s))"

definition close_sorter :: "sorter \<Rightarrow> sorter" where
  "close_sorter s = s\<lparr>closed := True\<rparr>"

text \<open>An execution interleaves the steps of the pushers, of \<^verbatim>\<open>run\<close> and of \<^verbatim>\<open>close\<close>.\<close>

datatype sorter_event = Push sortItem | Run bool "int \<Rightarrow> bool" | Close

fun sorter_step :: "sorter_event \<Rightarrow> sorter \<Rightarrow> sorter" where
  "sorter_step (Push item) s = pushTSItem item s"
| "sorter_step (Run elapsed resolver) s = run_step elapsed resolver s"
| "sorter_step Close s = close_sorter s"

definition sorter_exec :: "sorter_event list \<Rightarrow> sorter" where
  "sorter_exec evs = fold sorter_step evs newSorter"

lemma sorter_exec_simps [simp]:
  "sorter_exec [] = newSorter" "sorter_exec (evs @ [e]) = sorter_step e (sorter_exec evs)"
  by (simp_all add: sorter_exec_def)

section \<open>What a run has seen\<close>

fun pushes :: "sorter_event list \<Rightarrow> sortItem list" where
  "pushes [] = []"
| "pushes (Push item # evs) = item # pushes evs"
| "pushes (e # evs) = pushes evs"

lemma pushes_append [simp]: "pushes (xs @ ys) = pushes xs @ pushes ys"
  by (induction xs rule: pushes.induct) auto

text \<open>Events that settle a transaction: its commit or rollback arrives, or the resolver settles it.\<close>

fun settles :: "int \<Rightarrow> sorter_event \<Rightarrow> bool" where
  "settles st (Push item) \<longleftrightarrow> si_tp item \<noteq> Prewrite \<and> si_start item = st"
| "settles st (Run elapsed resolver) \<longleftrightarrow> elapsed \<and> resolver st"
| "settles st Close \<longleftrightarrow> False"

text \<open>The \<open>i\<close>-th pushed item, a prewrite, has been settled after it was pushed.\<close>

definition settled :: "sorter_event list \<Rightarrow> nat \<Rightarrow> bool" where
  "settled evs i \<longleftrightarrow>
     (\<exists>before after. evs = before @ after \<and> i < length (pushes before) \<and>
        list_ex (settles (si_start (pushes evs ! i))) after)"

text \<open>The items with a new maximal commit timestamp, in order.\<close>

fun new_maxima :: "int \<Rightarrow> sortItem list \<Rightarrow> sortItem list" where
  "new_maxima m [] = []"
| "new_maxima m (item # rest) =
     (if si_tp item \<noteq> Prewrite \<and> si_commit item > m then item # new_maxima (si_commit item) rest
      else new_maxima m rest)"

definition last_commit :: "int \<Rightarrow> sortItem list \<Rightarrow> int" where
  "last_commit m xs = (if xs = [] then m else si_commit (last xs))"

lemma new_maxima_snoc:
  "new_maxima m (xs @ [x]) = new_maxima m xs @
     (if si_tp x \<noteq> Prewrite \<and> si_commit x > last_commit m (new_maxima m xs) then [x] else [])"
  by (induction m xs rule: new_maxima.induct) (auto simp: last_commit_def)

lemma new_maxima_increasing:
  "sorted_wrt (<) (map si_commit (new_maxima m xs)) \<and> list_all (\<lambda>x. m < si_commit x) (new_maxima m xs)"
proof (induction m xs rule: new_maxima.induct)
  case (2 m item rest)
  then show ?case by (fastforce simp: list_all_iff)
qed simp

lemma new_maxima_subset: "set (new_maxima m xs) \<subseteq> {x \<in> set xs. si_tp x \<noteq> Prewrite}"
  by (induction m xs rule: new_maxima.induct) auto

lemma settled_append: "i < length (pushes evs) \<Longrightarrow> settled evs i \<Longrightarrow> settled (evs @ later) i"
  unfolding settled_def
  by (elim exE conjE) (rule_tac x = before in exI, auto simp: nth_append)

lemma settled_by_last:
  "i < length (pushes evs) \<Longrightarrow> settles (si_start (pushes evs ! i)) e \<Longrightarrow> settled (evs @ [e]) i"
  unfolding settled_def by (intro exI [of _ evs] exI [of _ "[e]"]) (auto simp: nth_append)

section \<open>The invariant\<close>

text \<open>\<^verbatim>\<open>run\<close> has taken \<open>n\<close> items off the list and is done with \<open>k\<close> of them: an unsettled prewrite keeps its
  transaction in \<open>waitStartTS\<close>, the prewrites \<^verbatim>\<open>run\<close> is done with are settled, and the callback
  has seen the new maxima among the items it is done with.\<close>

definition sorter_inv :: "sorter_event list \<Rightarrow> nat \<Rightarrow> nat \<Rightarrow> bool" where
  "sorter_inv evs n k \<longleftrightarrow>
     (let s = sorter_exec evs; ps = pushes evs in
        n \<le> length ps \<and> items s = drop n ps \<and> k \<le> n \<and>
        (pc s = Top \<longrightarrow> k = n) \<and>
        (\<forall>item. pc s = Waiting item \<longrightarrow> n = Suc k \<and> item = ps ! k \<and> si_tp item = Prewrite) \<and>
        (\<forall>i<length ps. si_tp (ps ! i) = Prewrite \<longrightarrow> \<not> settled evs i \<longrightarrow> si_start (ps ! i) \<in> waitStartTS s) \<and>
        (\<forall>i<k. si_tp (ps ! i) = Prewrite \<longrightarrow> settled evs i) \<and>
        emitted s = new_maxima 0 (take k ps) \<and>
        si_commit (maxTSItem s) = last_commit 0 (emitted s))"

lemma sorter_inv_init: "sorter_inv [] 0 0"
  by (simp add: sorter_inv_def newSorter_def last_commit_def)

lemma sorter_inv_push:
  assumes "sorter_inv evs n k"
  shows "sorter_inv (evs @ [Push item]) n k"
proof -
  let ?s = "sorter_exec evs" and ?ps = "pushes evs"
  have kept: "settled (evs @ [Push item]) i" if "i < length ?ps" "settled evs i" for i
    using settled_append [OF that] .
  have wait: "si_start (?ps ! i) \<in> waitStartTS (pushTSItem item ?s)"
    if "i < length ?ps" "si_tp (?ps ! i) = Prewrite" "\<not> settled (evs @ [Push item]) i" for i
  proof -
    have "\<not> settled evs i" using kept that by blast
    then have "si_start (?ps ! i) \<in> waitStartTS ?s" using assms that by (simp add: sorter_inv_def Let_def)
    moreover have "\<not> settles (si_start (?ps ! i)) (Push item)" using settled_by_last that by blast
    ultimately show ?thesis by (auto simp: pushTSItem_def Let_def)
  qed
  show ?thesis
    using assms kept wait
    by (auto simp: sorter_inv_def Let_def nth_append less_Suc_eq pushTSItem_def)
qed

text \<open>\<^verbatim>\<open>run\<close> holds the \<open>k\<close>-th item, a prewrite: either it settles and is done, or \<^verbatim>\<open>run\<close> stays or quits.\<close>

lemma sorter_inv_wait:
  fixes evs el res
  defines "s \<equiv> sorter_exec evs" and "ps \<equiv> pushes evs" and "e \<equiv> Run el res"
  assumes k: "k < length ps" "si_tp (ps ! k) = Prewrite"
    and wait: "\<forall>i<length ps. si_tp (ps ! i) = Prewrite \<longrightarrow> \<not> settled evs i \<longrightarrow> si_start (ps ! i) \<in> waitStartTS s"
    and passed: "\<forall>i<k. si_tp (ps ! i) = Prewrite \<longrightarrow> settled evs i"
    and em: "emitted s = new_maxima 0 (take k ps)" "si_commit (maxTSItem s) = last_commit 0 (emitted s)"
    and step: "run_step el res s = wait_step el res (ps ! k) (s\<lparr>items := drop (Suc k) ps\<rparr>)"
  shows "\<exists>k'. sorter_inv (evs @ [e]) (Suc k) k'"
proof -
  have kept: "settled (evs @ [e]) i" if "settled evs i" "i < length ps" for i
    using settled_append that by (auto simp: ps_def)
  have "\<exists>k'\<in>{k, Suc k}. sorter_inv (evs @ [e]) (Suc k) k'"
  proof (cases "si_start (ps ! k) \<notin> waitStartTS s \<or> (el \<and> res (si_start (ps ! k)))")
    case True
    then have here: "settled (evs @ [e]) k"
    proof
      assume "si_start (ps ! k) \<notin> waitStartTS s"
      then show ?thesis using wait k kept by blast
    next
      assume "el \<and> res (si_start (ps ! k))"
      then show ?thesis using settled_by_last [of k evs e] k(1) by (simp add: e_def ps_def)
    qed
    have "\<not> settled (evs @ [e]) i \<Longrightarrow> si_start (ps ! i) \<noteq> si_start (ps ! k)"
      if "el \<and> res (si_start (ps ! k))" "i < length ps" for i
      using settled_by_last [of i evs e] that by (auto simp: e_def ps_def)
    then have "sorter_inv (evs @ [e]) (Suc k) (Suc k)"
      using True here k wait passed em kept
      by (auto simp: sorter_inv_def Let_def s_def [symmetric] ps_def [symmetric] step
          e_def wait_step_def less_Suc_eq take_Suc_conv_app_nth new_maxima_snoc)
    then show ?thesis by simp
  next
    case False
    then have "sorter_inv (evs @ [e]) (Suc k) k"
      using k wait passed em kept
      by (auto simp: sorter_inv_def Let_def s_def [symmetric] ps_def [symmetric] step
          e_def wait_step_def)
    then show ?thesis by simp
  qed
  then show ?thesis by blast
qed

lemma sorter_inv_run:
  assumes inv: "sorter_inv evs n k"
  shows "\<exists>n' k'. sorter_inv (evs @ [Run el res]) n' k'"
proof -
  let ?s = "sorter_exec evs" and ?ps = "pushes evs" and ?e = "Run el res"
  note I = inv [unfolded sorter_inv_def Let_def]
  have kept: "settled (evs @ [?e]) i" if "settled evs i" "i < length ?ps" for i
    using settled_append that by blast
  have same: "sorter_inv (evs @ [?e]) n k"
    if "sorter_step ?e ?s = ?s \<or> sorter_step ?e ?s = ?s\<lparr>pc := Quit\<rparr>"
    using I kept that by (auto simp: sorter_inv_def Let_def)
  show ?thesis
  proof (cases "pc ?s")
    case Top
    show ?thesis
    proof (cases "items ?s")
      case Nil
      then have "sorter_step ?e ?s = ?s \<or> sorter_step ?e ?s = ?s\<lparr>pc := Quit\<rparr>"
        using Top by (simp add: run_step_def)
      with same show ?thesis by blast
    next
      case (Cons item rest)
      then have d: "drop n ?ps = item # rest" using I by simp
      then have "n < length ?ps" by (metis drop_eq_Nil list.distinct(1) not_le)
      with d have n: "n < length ?ps" "item = ?ps ! n" "rest = drop (Suc n) ?ps"
        by (auto simp: Cons_nth_drop_Suc [symmetric])
      show ?thesis
      proof (cases "si_tp item = Prewrite")
        case True
        have "run_step el res ?s = wait_step el res (?ps ! n) (?s\<lparr>items := drop (Suc n) ?ps\<rparr>)"
          using Top Cons True n by (simp add: run_step_def)
        then show ?thesis
          using sorter_inv_wait [of n evs el res] I Top True n by blast
      next
        case False
        let ?new = "si_commit item > si_commit (maxTSItem ?s)" and ?s' = "run_step el res ?s"
        have s': "pc ?s' = Top" "waitStartTS ?s' = waitStartTS ?s" "items ?s' = drop (Suc n) ?ps"
          "emitted ?s' = emitted ?s @ (if ?new then [item] else [])"
          "maxTSItem ?s' = (if ?new then item else maxTSItem ?s)"
          using Top Cons False n(3) by (simp_all add: run_step_def Let_def)
        have mx: "si_commit (maxTSItem ?s') = last_commit 0 (emitted ?s')"
          using I by (simp add: s' last_commit_def)
        have em: "emitted ?s' = new_maxima 0 (take (Suc n) ?ps)"
          using False I Top n(1,2) by (simp add: s' take_Suc_conv_app_nth new_maxima_snoc)
        have "\<forall>i<Suc n. si_tp (?ps ! i) = Prewrite \<longrightarrow> settled (evs @ [?e]) i"
          using I Top False n(1,2) kept by (auto simp: less_Suc_eq)
        then have "sorter_inv (evs @ [?e]) (Suc n) (Suc n)"
          using I n(1) kept em mx unfolding sorter_inv_def Let_def by (auto simp: s'(1-3))
        then show ?thesis by blast
      qed
    qed
  next
    case (Waiting item)
    have "run_step el res ?s = wait_step el res (?ps ! k) (?s\<lparr>items := drop (Suc k) ?ps\<rparr>)"
    proof -
      have it: "drop (Suc k) ?ps = items ?s" "item = ?ps ! k" using I Waiting by auto
      show ?thesis unfolding it(1) using Waiting by (simp add: run_step_def it(2))
    qed
    then show ?thesis
      using sorter_inv_wait [of k evs el res] I Waiting by auto
  next
    case Quit
    with same show ?thesis by (auto simp: run_step_def)
  qed
qed

lemma sorter_inv_close:
  assumes "sorter_inv evs n k"
  shows "sorter_inv (evs @ [Close]) n k"
  using assms settled_append [of _ evs "[Close]"]
  by (auto simp: sorter_inv_def Let_def close_sorter_def)

lemma sorter_invariant: "\<exists>n k. sorter_inv evs n k"
proof (induction evs rule: rev_induct)
  case Nil
  then show ?case using sorter_inv_init by blast
next
  case (snoc e evs)
  then show ?case
    by (cases e) (use sorter_inv_push sorter_inv_run sorter_inv_close in blast)+
qed

text \<open>When nothing is waited for, \<^verbatim>\<open>run\<close> works off the list.\<close>

lemma run_step_free:
  assumes "waitStartTS s = {}" "pc s = Top" "items s = item # rest"
  shows "waitStartTS (run_step el res s) = {}" "pc (run_step el res s) = Top" "items (run_step el res s) = rest"
  using assms by (auto simp: run_step_def wait_step_def Let_def)

lemma run_drains:
  "waitStartTS s = {} \<Longrightarrow> pc s = Top \<Longrightarrow>
     \<exists>m. items ((run_step el res ^^ m) s) = [] \<and> pc ((run_step el res ^^ m) s) = Top"
proof (induction "items s" arbitrary: s)
  case Nil
  then show ?case by (intro exI [of _ 0]) simp
next
  case (Cons item rest)
  note free = run_step_free [OF Cons.prems Cons.hyps(2) [symmetric], of el res]
  from Cons.hyps(1) [OF free(3) [symmetric] free(1,2)] obtain m where
    "items ((run_step el res ^^ m) (run_step el res s)) = []" "pc ((run_step el res ^^ m) (run_step el res s)) = Top"
    by blast
  then show ?case by (intro exI [of _ "Suc m"]) (simp add: funpow_swap1)
qed

lemma sorter_exec_runs:
  "sorter_exec (evs @ replicate m (Run el res)) = (run_step el res ^^ m) (sorter_exec evs)"
proof (induction m)
  case (Suc m)
  have "replicate (Suc m) (Run el res) = replicate m (Run el res) @ [Run el res]"
    by (simp add: replicate_append_same)
  then have "sorter_exec (evs @ replicate (Suc m) (Run el res)) =
      sorter_exec ((evs @ replicate m (Run el res)) @ [Run el res])" by simp
  also have "\<dots> = run_step el res ((run_step el res ^^ m) (sorter_exec evs))"
    unfolding sorter_exec_simps(2) Suc by simp
  finally show ?case by simp
qed simp

lemma pushes_runs [simp]: "pushes (replicate m (Run el res)) = []"
  by (induction m) auto

section \<open>The sorter is correct\<close>

definition example_item :: "int \<Rightarrow> int \<Rightarrow> BinlogType \<Rightarrow> sortItem" where
  "example_item st co t = \<lparr>si_start = st, si_commit = co, si_tp = t\<rparr>"

definition example_events :: "sorter_event list" where
  "example_events = [Push (example_item 1 0 Prewrite), Push (example_item 2 0 Prewrite),
     Run False (\<lambda>_. False), Push (example_item 2 4 Commit), Run False (\<lambda>_. False),
     Push (example_item 1 3 Commit), Run True (\<lambda>_. False), Run False (\<lambda>_. False), Run False (\<lambda>_. False)]"

text \<open>C21. In every interleaving of pushes, steps of \<^verbatim>\<open>run\<close> and \<^verbatim>\<open>close\<close>, the commits that reach the callback
  have strictly increasing commit timestamps.\<close>

theorem sorter_emits_increasing:
  "sorted_wrt (<) (map si_commit (emitted (sorter_exec evs))) \<and>
   list_all (\<lambda>c. 0 < si_commit c \<and> si_tp c \<noteq> Prewrite) (emitted (sorter_exec evs))"
proof -
  obtain n k where "sorter_inv evs n k" using sorter_invariant by blast
  then have em: "emitted (sorter_exec evs) = new_maxima 0 (take k (pushes evs))"
    by (simp add: sorter_inv_def Let_def)
  show ?thesis
    unfolding em using new_maxima_increasing new_maxima_subset by (fastforce simp: list_all_iff)
qed

text \<open>C3. A commit reaches the callback only after every prewrite that was pushed before it has been
  settled: its commit or rollback was pushed after it, or the resolver settled it.\<close>

theorem sorter_waits_for_prewrites:
  assumes "c \<in> set (emitted (sorter_exec evs))"
  shows "\<exists>q<length (pushes evs). pushes evs ! q = c \<and>
    (\<forall>i<q. si_tp (pushes evs ! i) = Prewrite \<longrightarrow> settled evs i)"
proof -
  obtain n k where inv: "sorter_inv evs n k" using sorter_invariant by blast
  then have "c \<in> set (take k (pushes evs))"
    using assms new_maxima_subset by (fastforce simp: sorter_inv_def Let_def)
  then obtain q where "q < k" "q < length (pushes evs)" "pushes evs ! q = c"
    by (auto simp: in_set_conv_nth)
  with inv show ?thesis
    by (intro exI [of _ q] conjI) (auto simp: sorter_inv_def Let_def)
qed

theorem sorter_waits_for_prewrites_witness:
  "\<exists>q<length (pushes example_events). pushes example_events ! q = example_item 2 4 Commit"
proof -
  have "emitted (sorter_exec example_events) = [example_item 2 4 Commit]" by code_simp
  with sorter_waits_for_prewrites [of "example_item 2 4 Commit" example_events] show ?thesis by auto
qed

text \<open>C33. Once no prewrite is waited for, the goroutine works off the list, and the callback has then seen
  exactly the pushed commits that exceed every commit timestamp pushed before them.\<close>

theorem sorter_drains:
  assumes "allMatched (sorter_exec evs)" "pc (sorter_exec evs) \<noteq> Quit"
  shows "\<exists>m. emitted (sorter_exec (evs @ replicate m (Run el res))) = new_maxima 0 (pushes evs)"
proof -
  have drained: "emitted (sorter_exec evs') = new_maxima 0 (pushes evs')"
    if "items (sorter_exec evs') = []" "pc (sorter_exec evs') = Top" for evs'
    using sorter_invariant [of evs'] that by (auto simp: sorter_inv_def Let_def)
  obtain j where j: "pc (sorter_exec (evs @ replicate j (Run el res))) = Top"
    "waitStartTS (sorter_exec (evs @ replicate j (Run el res))) = {}"
  proof (cases "pc (sorter_exec evs)")
    case Top
    then show ?thesis using assms that [of 0] by (simp add: allMatched_def)
  next
    case (Waiting item)
    then show ?thesis
      using assms that [of 1] unfolding sorter_exec_runs
      by (simp add: allMatched_def run_step_def wait_step_def)
  qed (use assms in simp)
  obtain m where "items (sorter_exec (evs @ replicate (j + m) (Run el res))) = []"
    "pc (sorter_exec (evs @ replicate (j + m) (Run el res))) = Top"
    using run_drains [OF j(2,1), of el res] unfolding sorter_exec_runs
    by (metis add.commute comp_apply funpow_add)
  from drained [OF this] show ?thesis by auto
qed

theorem sorter_drains_witness:
  "\<exists>m. emitted (sorter_exec (example_events @ replicate m (Run False (\<lambda>_. False)))) = [example_item 2 4 Commit]"
proof -
  have "pc (sorter_exec example_events) = Top" "waitStartTS (sorter_exec example_events) = {}"
    "new_maxima 0 (pushes example_events) = [example_item 2 4 Commit]"
    by code_simp+
  with sorter_drains [of example_events] show ?thesis by (simp add: allMatched_def)
qed

end
