(* ===== verification/Storage.thy ===== *)
theory Storage
  imports Complex_Main VLogStore Sorter
begin

text \<open>
  The storage of a pump, \<^verbatim>\<open>pump/storage/storage.go\<close> and the key encoding of
  \<^verbatim>\<open>pump/storage/util.go\<close>: binlogs go to the value log, their pointers to the metadata database under
  their timestamp, then to the sorter, which moves \<^verbatim>\<open>maxCommitTS\<close> forward; a drainer pulls the commits
  below it. 

  The metadata database (goleveldb), the protobuf codec, TiKV and PD are parameters. An \<^verbatim>\<open>Append\<close> is a
  record of the fields its operations read and write; \<open>toKV\<close> and \<open>toSorter\<close> are the channels between the
  stages of the write path. Gauges, counters and logging are left out.
\<close>

section \<open>Parameters\<close>

datatype kv_op = KPut bytes bytes | KDelete bytes

text \<open>goleveldb: \<^verbatim>\<open>Get\<close>, \<^verbatim>\<open>Write\<close> of a batch (\<^verbatim>\<open>Put\<close> is a batch of one) and the entries of an iterator
  over a range, start included and limit excluded.\<close>

record 'db kvdb =
  kv_get :: "'db \<Rightarrow> bytes \<Rightarrow> go_error + bytes"
  kv_write :: "kv_op list \<Rightarrow> 'db \<Rightarrow> go_error option \<times> 'db"
  kv_range :: "bytes \<Rightarrow> bytes \<Rightarrow> 'db \<Rightarrow> (bytes \<times> bytes) list"

fun kv_apply :: "kv_op \<Rightarrow> (bytes \<rightharpoonup> bytes) \<Rightarrow> (bytes \<rightharpoonup> bytes)" where
  "kv_apply (KPut k v) m = m(k \<mapsto> v)"
| "kv_apply (KDelete k) m = m(k := None)"

text \<open>Its documented behaviour, as an ordered map \<open>repr\<close>: batches are atomic, an iterator visits the keys of
  its range in byte order.\<close>

definition kvdb_ok :: "'db kvdb \<Rightarrow> ('db \<Rightarrow> bytes \<rightharpoonup> bytes) \<Rightarrow> bool" where
  "kvdb_ok db repr \<longleftrightarrow>
     (\<forall>d k. kv_get db d k = (case repr d k of None \<Rightarrow> Inl ErrNotFound | Some v \<Rightarrow> Inr v)) \<and>
     (\<forall>d ops d'. kv_write db ops d = (None, d') \<longrightarrow> repr d' = fold kv_apply ops (repr d)) \<and>
     (\<forall>d ops e d'. kv_write db ops d = (Some e, d') \<longrightarrow> repr d' = repr d) \<and>
     (\<forall>d lo hi. sorted_wrt (\<lambda>p q. bytes_less (fst p) (fst q)) (kv_range db lo hi d) \<and>
        set (kv_range db lo hi d) = {(k, v). repr d k = Some v \<and> \<not> bytes_less k lo \<and> bytes_less k hi})"

text \<open>TiKV's answers about a transaction.\<close>

record mvcc_write =
  w_start :: u64
  w_commit :: u64
  w_rollback :: bool

datatype mvcc_resp = MvccFailed | MvccWrites "mvcc_write list"

record txn_status =
  status_ttl :: u64
  status_commit :: u64
  status_committed :: bool

record 'db env =
  env_db :: "'db kvdb"
  env_marshal :: "Binlog \<Rightarrow> go_error + bytes"
  env_unmarshal :: binlog_unmarshal
  env_mvcc :: "bytes \<Rightarrow> mvcc_resp"
  env_txn_status :: "u64 \<Rightarrow> bytes \<Rightarrow> go_error + txn_status"
  env_extract_physical :: "u64 \<Rightarrow> int"

section \<open>Keys\<close>

text \<open>\<^verbatim>\<open>[]byte("...")\<close> of an ASCII string.\<close>

definition bytes_of :: "string \<Rightarrow> bytes" where
  "bytes_of s = map of_char s"

definition tsKeyPrefix :: bytes where "tsKeyPrefix = bytes_of ''ts:''"

definition gcTSKey :: bytes where "gcTSKey = bytes_of ''!binlog!gcts''"

definition maxCommitTSKey :: bytes where "maxCommitTSKey = bytes_of ''!binlog!maxCommitTS''"

definition handlePointerKey :: bytes where "handlePointerKey = bytes_of ''!binlog!handlePointer''"

definition headPointerKey :: bytes where "headPointerKey = bytes_of ''!binlog!headPointer''"

definition encodeTSKey :: "int \<Rightarrow> bytes" where
  "encodeTSKey t = tsKeyPrefix @ put_be 8 (u64_of_int64 t)"

definition decodeTSKey :: "bytes \<Rightarrow> go_error + int" where
  "decodeTSKey key =
     (if length key < length tsKeyPrefix + 8 then Inl (Panic ''index out of range'')
      else Inr (int64_of_u64 (get_be (take 8 (drop (length tsKeyPrefix) key)))))"

definition physicalShiftBits :: nat where "physicalShiftBits = 18"

definition maxTxnTimeoutSecond :: int where "maxTxnTimeoutSecond = 600"

definition EncodeTSO :: "int \<Rightarrow> u64" where
  "EncodeTSO t = push_bit physicalShiftBits (u64_of_int64 t)"

section \<open>Configuration\<close>

definition defaultStopWriteAtAvailableSpace :: u64 where
  "defaultStopWriteAtAvailableSpace = 10 * 2 ^ 30"

text \<open>Pointer fields are options; a \<^verbatim>\<open>float64\<close> field is a rational number.\<close>

definition slowWriteThreshold :: rat where "slowWriteThreshold = 1"

record Config =
  SyncLog :: "bool option"
  cfg_KVChanCapacity :: int
  cfg_SlowWriteThreshold :: rat
  cfg_StopWriteAtAvailableSpace :: "u64 option"

definition GetKVChanCapacity :: "Config \<Rightarrow> int" where
  "GetKVChanCapacity c = (if cfg_KVChanCapacity c \<le> 0 then chanCapacity else cfg_KVChanCapacity c)"

definition GetSlowWriteThreshold :: "Config \<Rightarrow> rat" where
  "GetSlowWriteThreshold c = (if cfg_SlowWriteThreshold c \<le> 0 then slowWriteThreshold else cfg_SlowWriteThreshold c)"

definition GetStopWriteAtAvailableSpace :: "Config \<Rightarrow> u64" where
  "GetStopWriteAtAvailableSpace c =
     (case cfg_StopWriteAtAvailableSpace c of None \<Rightarrow> defaultStopWriteAtAvailableSpace | Some n \<Rightarrow> n)"

definition GetSyncLog :: "Config \<Rightarrow> bool" where
  "GetSyncLog c = (case SyncLog c of None \<Rightarrow> True | Some b \<Rightarrow> b)"

record KVConfig =
  BlockCacheCapacity :: int
  BlockRestartInterval :: int
  BlockSize :: int
  CompactionL0Trigger :: int
  CompactionTableSize :: int
  CompactionTotalSize :: int
  CompactionTotalSizeMultiplier :: rat
  WriteBuffer :: int
  WriteL0PauseTrigger :: int
  WriteL0SlowdownTrigger :: int

definition defaultStorageKVConfig :: KVConfig where
  "defaultStorageKVConfig = \<lparr>BlockCacheCapacity = 8 * 2 ^ 20, BlockRestartInterval = 16, BlockSize = 4 * 2 ^ 10,
     CompactionL0Trigger = 8, CompactionTableSize = 64 * 2 ^ 20, CompactionTotalSize = 512 * 2 ^ 20,
     CompactionTotalSizeMultiplier = 8, WriteBuffer = 64 * 2 ^ 20, WriteL0PauseTrigger = 24,
     WriteL0SlowdownTrigger = 17\<rparr>"

definition setDefaultStorageConfig :: "KVConfig \<Rightarrow> KVConfig" where
  "setDefaultStorageConfig cf =
     (let d = defaultStorageKVConfig; pick = (\<lambda>f. if f cf \<le> 0 then f d else f cf :: int)
      in \<lparr>BlockCacheCapacity = pick BlockCacheCapacity, BlockRestartInterval = pick BlockRestartInterval,
          BlockSize = pick BlockSize, CompactionL0Trigger = pick CompactionL0Trigger,
          CompactionTableSize = pick CompactionTableSize, CompactionTotalSize = pick CompactionTotalSize,
          CompactionTotalSizeMultiplier =
            (if CompactionTotalSizeMultiplier cf \<le> 0 then CompactionTotalSizeMultiplier d
             else CompactionTotalSizeMultiplier cf), WriteBuffer = pick WriteBuffer,
          WriteL0PauseTrigger = pick WriteL0PauseTrigger, WriteL0SlowdownTrigger = pick WriteL0SlowdownTrigger\<rparr>)"

text \<open>The configuration \<^verbatim>\<open>openMetadataDB\<close> opens the database with.\<close>

definition openMetadataDB_config :: "KVConfig option \<Rightarrow> KVConfig" where
  "openMetadataDB_config cf =
     (case cf of None \<Rightarrow> defaultStorageKVConfig | Some cf \<Rightarrow> setDefaultStorageConfig cf)"

section \<open>The storage\<close>

record slowChaser =
  sc_on :: bool
  lastUnreadPtr :: "valuePointer option"

text \<open>\<open>a_timeouts\<close> is what the sends of the write path observe: True when the channel to the database stage
  did not take a request within the threshold of the slow chaser; an exhausted list means it always does.\<close>

record 'db Append =
  a_vlog :: valueLog
  a_metadata :: 'db
  a_sorter :: sorter
  a_latestTS :: int
  a_gcTS :: int
  a_gcWorking :: bool
  a_maxCommitTS :: int
  a_headPointer :: valuePointer
  a_handlePointer :: valuePointer
  a_available :: u64
  a_capacity :: u64
  a_options :: Options
  a_kvConfig :: "KVConfig option"
  a_closed :: bool
  a_chaser :: slowChaser
  a_timeouts :: "bool list"
  a_toKV :: "request list"
  a_toSorter :: "request list"

subsection \<open>Reading and writing the metadata database\<close>

definition kv_put :: "'db env \<Rightarrow> bytes \<Rightarrow> bytes \<Rightarrow> 'db Append \<Rightarrow> go_error option \<times> 'db Append" where
  "kv_put env k v a =
     (case kv_write (env_db env) [KPut k v] (a_metadata a) of (err, d) \<Rightarrow> (err, a\<lparr>a_metadata := d\<rparr>))"

definition readInt64 :: "'db env \<Rightarrow> 'db Append \<Rightarrow> bytes \<Rightarrow> go_error + int" where
  "readInt64 env a key =
     (case kv_get (env_db env) (a_metadata a) key of
        Inl e \<Rightarrow> if e = ErrNotFound then Inr 0 else Inl e
      | Inr val \<Rightarrow>
          if length val < 8 then Inl (Panic ''index out of range'')
          else Inr (int64_of_u64 (get_le (take 8 val))))"

definition readGCTSFromDB :: "'db env \<Rightarrow> 'db Append \<Rightarrow> go_error + int" where
  "readGCTSFromDB env a = readInt64 env a gcTSKey"

definition saveGCTSToDB :: "'db env \<Rightarrow> int \<Rightarrow> 'db Append \<Rightarrow> go_error option \<times> 'db Append" where
  "saveGCTSToDB env t a = kv_put env gcTSKey (put_le 8 (u64_of_int64 t)) a"

definition readPointer :: "'db env \<Rightarrow> 'db Append \<Rightarrow> bytes \<Rightarrow> go_error + valuePointer" where
  "readPointer env a key =
     (case kv_get (env_db env) (a_metadata a) key of
        Inl e \<Rightarrow> if e = ErrNotFound then Inr (VP 0 0) else Inl e
      | Inr val \<Rightarrow> UnmarshalBinary val)"

definition savePointer :: "'db env \<Rightarrow> bytes \<Rightarrow> valuePointer \<Rightarrow> 'db Append \<Rightarrow> go_error option \<times> 'db Append" where
  "savePointer env key vp a = kv_put env key (MarshalBinary vp) a"

text \<open>The value stored under a timestamp: pointer, record, decoded binlog.\<close>

definition readBinlogByTS :: "'db env \<Rightarrow> 'db Append \<Rightarrow> int \<Rightarrow> go_error + Binlog" where
  "readBinlogByTS env a t =
     (case kv_get (env_db env) (a_metadata a) (encodeTSKey t) of Inl e \<Rightarrow> Inl e | Inr vpData \<Rightarrow>
     (case UnmarshalBinary vpData of Inl e \<Rightarrow> Inl e | Inr vp \<Rightarrow>
     (case readValue (a_vlog a) vp of Inl e \<Rightarrow> Inl e | Inr pvalue \<Rightarrow>
        env_unmarshal env pvalue)))"

definition GetBinlog :: "'db env \<Rightarrow> 'db Append \<Rightarrow> int \<Rightarrow> go_error + Binlog" where
  "GetBinlog env a t = readBinlogByTS env a t"

subsection \<open>The write path\<close>

definition writableOfSpace :: "'db Append \<Rightarrow> bool" where
  "writableOfSpace a \<longleftrightarrow> a_available a > StopWriteAtAvailableSpace (a_options a)"

definition isFakeBinlog :: "Binlog \<Rightarrow> bool" where
  "isFakeBinlog b \<longleftrightarrow> StartTs b > 0 \<and> StartTs b = CommitTs b"

text \<open>The fields of \<^verbatim>\<open>statfs\<close> that \<^verbatim>\<open>getStorageSize\<close> reads; \<^verbatim>\<open>Frsize\<close> is looked up by reflection.\<close>

record Statfs_t =
  Bsize :: int
  Frsize :: "u64 option"
  Bavail :: u64
  Blocks :: u64

record storageSize =
  capacity :: u64
  available :: u64

definition getStorageSize :: "go_error + Statfs_t \<Rightarrow> go_error + storageSize" where
  "getStorageSize st =
     (case st of Inl e \<Rightarrow> Inl e
      | Inr st \<Rightarrow>
          let bSize = (case Frsize st of None \<Rightarrow> u64_of_int64 (Bsize st) | Some n \<Rightarrow> n)
          in Inr \<lparr>capacity = Blocks st * bSize, available = Bavail st * bSize\<rparr>)"

definition updateSize :: "go_error + Statfs_t \<Rightarrow> 'db Append \<Rightarrow> go_error option \<times> 'db Append" where
  "updateSize st a =
     (case getStorageSize st of
        Inl e \<Rightarrow> (Some e, a)
      | Inr sz \<Rightarrow> (None, a\<lparr>a_available := available sz, a_capacity := capacity sz\<rparr>))"

text \<open>One round of \<^verbatim>\<open>updateStatus\<close>: the latest timestamp of PD, or the size of the file system.\<close>

datatype status_event = LatestTS "go_error + int" | StatSize "go_error + Statfs_t"

fun updateStatus_step :: "status_event \<Rightarrow> 'db Append \<Rightarrow> 'db Append" where
  "updateStatus_step (LatestTS (Inl e)) a = a"
| "updateStatus_step (LatestTS (Inr t)) a = a\<lparr>a_latestTS := t\<rparr>"
| "updateStatus_step (StatSize st) a = snd (updateSize st a)"

definition newSlowChaser :: slowChaser where
  "newSlowChaser = \<lparr>sc_on = False, lastUnreadPtr = None\<rparr>"

definition TurnOn :: "valuePointer \<Rightarrow> slowChaser \<Rightarrow> slowChaser" where
  "TurnOn vp sc = sc\<lparr>lastUnreadPtr := Some vp, sc_on := True\<rparr>"

definition turnOff :: "slowChaser \<Rightarrow> slowChaser" where
  "turnOff sc = sc\<lparr>sc_on := False, lastUnreadPtr := None\<rparr>"

text \<open>The loop \<^verbatim>\<open>SEND\<close>: each request goes to the database stage, until one is not taken in time.\<close>

fun send_loop :: "request list \<Rightarrow> 'db Append \<Rightarrow> 'db Append" where
  "send_loop [] a = a"
| "send_loop (req # reqs) a =
     (if a_timeouts a \<noteq> [] \<and> hd (a_timeouts a)
      then a\<lparr>a_timeouts := tl (a_timeouts a), a_chaser := TurnOn (req_vp req) (a_chaser a)\<rparr>
      else send_loop reqs (a\<lparr>a_timeouts := tl (a_timeouts a), a_toKV := a_toKV a @ [req]\<rparr>))"

text \<open>The closure \<^verbatim>\<open>write\<close> of \<^verbatim>\<open>writeToValueLog\<close>: a batch is written to the value log; every request of it
  gets the error, or loses its payload and is sent on unless the slow chaser is on.\<close>

definition write_batch :: "'db env \<Rightarrow> request list \<Rightarrow> 'db Append \<Rightarrow> request list \<times> 'db Append" where
  "write_batch env batch a =
     (if batch = [] then ([], a)
      else
        (case vlog_write (env_unmarshal env) batch (a_vlog a) of
           (Some e, batch, v) \<Rightarrow> (map (req_err_update (\<lambda>_. Some e)) batch, a\<lparr>a_vlog := v\<rparr>)
         | (None, batch, v) \<Rightarrow>
             let batch = map (req_payload_update (\<lambda>_. [])) batch; a = a\<lparr>a_vlog := v\<rparr> in
             (batch, if sc_on (a_chaser a) then a else send_loop batch a)))"

definition request_of :: "Binlog \<Rightarrow> bytes \<Rightarrow> request" where
  "request_of b pl = \<lparr>startTS = StartTs b, commitTS = CommitTs b, tp = Tp b, req_payload = pl,
     req_vp = VP 0 0, req_err = None\<rparr>"

text \<open>\<^verbatim>\<open>writeBinlog\<close> waits until the batch with its request is written; here the batch is that request.\<close>

definition writeBinlog :: "'db env \<Rightarrow> Binlog \<Rightarrow> 'db Append \<Rightarrow> request \<times> 'db Append" where
  "writeBinlog env b a =
     (case env_marshal env b of
        Inl e \<Rightarrow> (\<lparr>startTS = 0, commitTS = 0, tp = Prewrite, req_payload = [], req_vp = VP 0 0, req_err = Some e\<rparr>, a)
      | Inr pl \<Rightarrow>
          (case write_batch env [request_of b pl] a of
             (reqs, a) \<Rightarrow> (hd reqs, a)))"

definition WriteBinlog :: "'db env \<Rightarrow> Binlog \<Rightarrow> 'db Append \<Rightarrow> go_error option \<times> 'db Append" where
  "WriteBinlog env b a =
     (if \<not> writableOfSpace a \<and> \<not> isFakeBinlog b then (Some (ErrMsg ''no available space''), a)
      else if StartTs b = 0 \<and> CommitTs b = 0 then (None, a)
      else (case writeBinlog env b a of (req, a) \<Rightarrow> (req_err req, a)))"

text \<open>How \<^verbatim>\<open>writeToValueLog\<close> forms batches. An event is a request received from the channel or, as \<open>None\<close>, that
  the channel was found empty; the end of the list is the closed channel. \<open>blocked\<close>: the goroutine waits
  for the first request of a batch.\<close>

definition batch_limit :: "request list \<Rightarrow> nat" where
  "batch_limit bufReqs =
     (let firstSize = length (req_payload (hd bufReqs))
      in if firstSize \<le> 128 * 2 ^ 10 then firstSize + 128 * 2 ^ 10 else 2 ^ 20)"

fun vlog_batches :: "request list \<Rightarrow> nat \<Rightarrow> bool \<Rightarrow> request option list \<Rightarrow> request list list" where
  "vlog_batches bufReqs sz blocked [] = (if bufReqs = [] then [] else [bufReqs])"
| "vlog_batches bufReqs sz blocked (Some req # evs) =
     (let bufReqs = bufReqs @ [req]; sz = sz + length (req_payload req) in
      if blocked then vlog_batches bufReqs sz False evs
      else if sz \<ge> batch_limit bufReqs then bufReqs # vlog_batches [] 0 False evs
      else vlog_batches bufReqs sz False evs)"
| "vlog_batches bufReqs sz blocked (None # evs) =
     (if blocked then vlog_batches bufReqs sz True evs
      else if bufReqs \<noteq> [] then bufReqs # vlog_batches [] 0 False evs
      else vlog_batches [] sz True evs)"

text \<open>\<^verbatim>\<open>batchRequest\<close>, the same for the stage that writes to the database.\<close>

fun kv_batches :: "nat \<Rightarrow> request list \<Rightarrow> bool \<Rightarrow> request option list \<Rightarrow> request list list" where
  "kv_batches maxBatchNum bufReqs blocked [] =
     (if \<not> blocked \<and> length bufReqs \<ge> maxBatchNum then [bufReqs] else if bufReqs = [] then [] else [bufReqs])"
| "kv_batches maxBatchNum bufReqs blocked (ev # evs) =
     (let (full, bufReqs) = (if \<not> blocked \<and> length bufReqs \<ge> maxBatchNum then ([bufReqs], []) else ([], bufReqs))
      in full @
         (case ev of
            Some req \<Rightarrow> kv_batches maxBatchNum (bufReqs @ [req]) False evs
          | None \<Rightarrow>
              if blocked then kv_batches maxBatchNum bufReqs True evs
              else if bufReqs \<noteq> [] then bufReqs # kv_batches maxBatchNum [] False evs
              else kv_batches maxBatchNum [] True evs))"

subsection \<open>The database and sorter stages\<close>

text \<open>\<^verbatim>\<open>writeBatchToKV\<close>: the batch is retried until it succeeds or the storage is found closed. \<open>obs\<close> lists what
  \<^verbatim>\<open>isClosed\<close> answers after each failure; None means that the loop is still trying after all of them.\<close>

definition kv_batch :: "request list \<Rightarrow> kv_op list" where
  "kv_batch bufReqs =
     map (\<lambda>req. KPut (encodeTSKey (ts req)) (MarshalBinary (req_vp req))) bufReqs @
     [KPut headPointerKey (if bufReqs = [] then [] else MarshalBinary (req_vp (last bufReqs)))]"

fun writeBatchToKV ::
  "'db env \<Rightarrow> bool list \<Rightarrow> request list \<Rightarrow> 'db Append \<Rightarrow> (go_error option \<times> 'db Append) option" where
  "writeBatchToKV env obs bufReqs a =
     (case kv_write (env_db env) (kv_batch bufReqs) (a_metadata a) of
        (None, d) \<Rightarrow>
          let a = a\<lparr>a_metadata := d\<rparr> in
          if bufReqs = [] then Some (Some (Panic ''index out of range''), a)
          else Some (None, a\<lparr>a_headPointer := req_vp (last bufReqs)\<rparr>)
      | (Some e, d) \<Rightarrow>
          let a = a\<lparr>a_metadata := d\<rparr> in
          (case obs of
             [] \<Rightarrow> None
           | isClosed # obs \<Rightarrow> if isClosed then Some (Some e, a) else writeBatchToKV env obs bufReqs a))"

text \<open>One round of \<^verbatim>\<open>writeToKV\<close> on the next \<open>n\<close> requests of its channel; the answer is whether it goes on.\<close>

definition writeToKV_step ::
  "'db env \<Rightarrow> bool list \<Rightarrow> nat \<Rightarrow> 'db Append \<Rightarrow> (bool \<times> 'db Append) option" where
  "writeToKV_step env obs n a =
     (let bufReqs = take n (a_toKV a); a = a\<lparr>a_toKV := drop n (a_toKV a)\<rparr> in
      case writeBatchToKV env obs bufReqs a of
        None \<Rightarrow> None
      | Some (Some e, a) \<Rightarrow> Some (False, a)
      | Some (None, a) \<Rightarrow> Some (True, a\<lparr>a_toSorter := a_toSorter a @ bufReqs\<rparr>))"

definition writeToSorter_step :: "'db Append \<Rightarrow> 'db Append" where
  "writeToSorter_step a =
     (case a_toSorter a of
        [] \<Rightarrow> a
      | req # reqs \<Rightarrow>
          a\<lparr>a_toSorter := reqs,
            a_sorter := pushTSItem \<lparr>si_start = startTS req, si_commit = commitTS req, si_tp = tp req\<rparr> (a_sorter a)\<rparr>)"

text \<open>\<^verbatim>\<open>handleSortItem\<close>: its local state is the item to save and whether the save timer is armed.\<close>

definition persistHandlePointer :: "'db env \<Rightarrow> sortItem \<Rightarrow> 'db Append \<Rightarrow> go_error option \<times> 'db Append" where
  "persistHandlePointer env item a =
     (case kv_get (env_db env) (a_metadata a) (encodeTSKey (si_commit item)) of Inl e \<Rightarrow> (Some e, a)
      | Inr pointerData \<Rightarrow>
     (case UnmarshalBinary pointerData of Inl e \<Rightarrow> (Some e, a)
      | Inr pointer \<Rightarrow>
     (case kv_write (env_db env)
             [KPut maxCommitTSKey (put_le 8 (u64_of_int64 (si_commit item))), KPut handlePointerKey pointerData]
             (a_metadata a) of
        (Some e, d) \<Rightarrow> (Some e, a\<lparr>a_metadata := d\<rparr>)
      | (None, d) \<Rightarrow> (None, a\<lparr>a_metadata := d, a_handlePointer := pointer\<rparr>))))"

datatype handle_event = HandleItem sortItem | HandleTimer | HandleClosed

fun handleSortItem_step ::
  "'db env \<Rightarrow> handle_event \<Rightarrow> sortItem option \<times> 'db Append \<Rightarrow> sortItem option \<times> 'db Append" where
  "handleSortItem_step env (HandleItem item) (toSave, a) =
     (if si_commit item < a_maxCommitTS a then (toSave, a)
      else (Some item, a\<lparr>a_maxCommitTS := si_commit item\<rparr>))"
| "handleSortItem_step env HandleTimer (toSave, a) =
     (case toSave of None \<Rightarrow> (None, a) | Some item \<Rightarrow> (None, snd (persistHandlePointer env item a)))"
| "handleSortItem_step env HandleClosed (toSave, a) =
     (case toSave of None \<Rightarrow> (None, a) | Some item \<Rightarrow> (None, snd (persistHandlePointer env item a)))"

definition MaxCommitTS :: "'db Append \<Rightarrow> int" where "MaxCommitTS a = a_maxCommitTS a"

definition AllMatched :: "'db Append \<Rightarrow> bool" where "AllMatched a = allMatched (a_sorter a)"

subsection \<open>The slow chaser\<close>

text \<open>\<^verbatim>\<open>catchUp\<close>: every record from the last unread one on is sent again. \<open>budget\<close> is the number of sends before the
  context ends, None when it does not. The scan is one step of the model.\<close>

definition catchUp_fn ::
  "request \<Rightarrow> nat option \<times> valuePointer option \<times> request list
     \<Rightarrow> go_error option \<times> nat option \<times> valuePointer option \<times> request list" where
  "catchUp_fn req s =
     (case s of (budget, unread, out) \<Rightarrow>
        (case budget of
           Some 0 \<Rightarrow> (Some (ErrMsg ''context canceled''), budget, Some (req_vp req), out)
         | _ \<Rightarrow> (None, map_option (\<lambda>n. n - 1) budget, Some (req_vp req), out @ [req])))"

definition catchUp :: "'db env \<Rightarrow> nat option \<Rightarrow> 'db Append \<Rightarrow> go_error option \<times> 'db Append" where
  "catchUp env budget a =
     (case lastUnreadPtr (a_chaser a) of
        None \<Rightarrow> (Some (Panic ''nil pointer dereference''), a)
      | Some start \<Rightarrow>
          (case scanRequests (env_unmarshal env) (a_vlog a) start catchUp_fn
                  (budget, lastUnreadPtr (a_chaser a), a_toKV a) of
             (err, _, unread, out) \<Rightarrow>
               (err, a\<lparr>a_chaser := (a_chaser a)\<lparr>lastUnreadPtr := unread\<rparr>, a_toKV := out\<rparr>)))"

text \<open>The two halves of a round of \<^verbatim>\<open>Run\<close>: a catch-up while writing goes on, and the recovery under the write
  lock, which turns the chaser off when it has sent everything.\<close>

definition chase_step :: "'db env \<Rightarrow> nat option \<Rightarrow> 'db Append \<Rightarrow> 'db Append" where
  "chase_step env budget a =
     (if \<not> sc_on (a_chaser a) \<or> lastUnreadPtr (a_chaser a) = None then a
      else snd (catchUp env budget a))"

definition recover_step :: "'db env \<Rightarrow> nat option \<Rightarrow> 'db Append \<Rightarrow> 'db Append" where
  "recover_step env budget a =
     (if \<not> sc_on (a_chaser a) \<or> lastUnreadPtr (a_chaser a) = None then a
      else (case catchUp env budget a of
              (Some e, a) \<Rightarrow> a
            | (None, a) \<Rightarrow> a\<lparr>a_chaser := turnOff (a_chaser a)\<rparr>))"

subsection \<open>Resolving a transaction without commit\<close>

definition commit_binlog :: "int \<Rightarrow> int \<Rightarrow> Binlog" where
  "commit_binlog st ct = \<lparr>Tp = Commit, StartTs = st, CommitTs = ct, PrewriteKey = [], PrewriteValue = [],
     DdlQuery = [], DdlJobId = 0, DdlSchemaState = 0\<rparr>"

definition writeCBinlog :: "'db env \<Rightarrow> Binlog \<Rightarrow> int \<Rightarrow> 'db Append \<Rightarrow> go_error option \<times> 'db Append" where
  "writeCBinlog env pbinlog ct a =
     (case writeBinlog env (commit_binlog (StartTs pbinlog) ct) a of (req, a) \<Rightarrow>
        if req_err req \<noteq> None then (req_err req, a)
        else
          (case kv_put env (encodeTSKey (ts req)) (MarshalBinary (req_vp req)) a of
             (Some e, a) \<Rightarrow> (req_err req, a)
           | (None, a) \<Rightarrow> (None, a)))"

text \<open>The loop over the writes of the primary key: the answer of \<^verbatim>\<open>resolve\<close> if it returns from the loop.\<close>

fun resolve_writes ::
  "'db env \<Rightarrow> Binlog \<Rightarrow> int \<Rightarrow> mvcc_write list \<Rightarrow> 'db Append \<Rightarrow> bool option \<times> 'db Append" where
  "resolve_writes env pbinlog st [] a = (None, a)"
| "resolve_writes env pbinlog st (w # ws) a =
     (if int64_of_u64 (w_start w) \<noteq> st then resolve_writes env pbinlog st ws a
      else if \<not> w_rollback w
      then if int64_of_u64 (w_commit w) \<le> st then (None, a)
           else (case writeCBinlog env pbinlog (int64_of_u64 (w_commit w)) a of
                   (Some e, a) \<Rightarrow> (Some False, a)
                 | (None, a) \<Rightarrow> (Some True, a))
      else (Some True, a))"

text \<open>Integer division of the source truncates toward zero.\<close>

definition go_quot :: "int \<Rightarrow> int \<Rightarrow> int" where
  "go_quot x y = sgn x * sgn y * (\<bar>x\<bar> div \<bar>y\<bar>)"

text \<open>The second half of \<^verbatim>\<open>resolve\<close>: an old transaction is asked for at its lock.\<close>

definition resolve_by_lock :: "'db env \<Rightarrow> Binlog \<Rightarrow> int \<Rightarrow> 'db Append \<Rightarrow> bool \<times> 'db Append" where
  "resolve_by_lock env pbinlog st a =
     (let startSecond = go_quot (env_extract_physical env (u64_of_int64 st)) 1000;
          maxSecond = go_quot (env_extract_physical env (u64_of_int64 (a_latestTS a))) 1000
      in
      if maxSecond - startSecond \<le> maxTxnTimeoutSecond then (False, a)
      else
        (case env_txn_status env (u64_of_int64 (StartTs pbinlog)) (PrewriteKey pbinlog) of
           Inl e \<Rightarrow> (False, a)
         | Inr status \<Rightarrow>
             if status_ttl status > 0 then (False, a)
             else if status_committed status
             then
               (case writeBinlog env (commit_binlog (StartTs pbinlog) (int64_of_u64 (status_commit status))) a of
                  (req, a) \<Rightarrow>
                    if req_err req \<noteq> None then (False, a)
                    else
                      (case kv_put env (encodeTSKey (ts req)) (MarshalBinary (req_vp req)) a of
                         (Some e, a) \<Rightarrow> (False, a)
                       | (None, a) \<Rightarrow> (True, a)))
             else (True, a)))"

definition resolve :: "'db env \<Rightarrow> int \<Rightarrow> 'db Append \<Rightarrow> bool \<times> 'db Append" where
  "resolve env st a =
     (if a_latestTS a \<le> 0 then (False, a)
      else
        (case readBinlogByTS env a st of
           Inl e \<Rightarrow> (False, a)
         | Inr pbinlog \<Rightarrow>
             (case env_mvcc env (PrewriteKey pbinlog) of
                MvccFailed \<Rightarrow> resolve_by_lock env pbinlog st a
              | MvccWrites ws \<Rightarrow>
                  (case resolve_writes env pbinlog st ws a of
                     (Some answer, a) \<Rightarrow> (answer, a)
                   | (None, a) \<Rightarrow> resolve_by_lock env pbinlog st a))))"

subsection \<open>Garbage collection\<close>

definition GetGCTS :: "'db Append \<Rightarrow> int" where "GetGCTS a = a_gcTS a"

text \<open>\<^verbatim>\<open>GC\<close>: the second component is the timestamp the started worker collects up to, if one is started.\<close>

definition GC :: "'db env \<Rightarrow> int \<Rightarrow> 'db Append \<Rightarrow> 'db Append \<times> int option" where
  "GC env t a =
     (if t \<le> a_gcTS a then (a, None)
      else if a_maxCommitTS a \<le> t then (a, None)
      else
        let a = snd (saveGCTSToDB env t (a\<lparr>a_gcTS := t\<rparr>)) in
        if a_gcWorking a then (a, None)
        else (a\<lparr>a_gcWorking := True\<rparr>, Some (wrap_int64 (t - int64_of_u64 (EncodeTSO (maxTxnTimeoutSecond * 1000))))))"

text \<open>The inner loop of \<^verbatim>\<open>doGCTS\<close> over the entries left in the iterator: the number of full batches written, the
  pending batch, the last key seen and the entries left.\<close>

fun gc_scan ::
  "'db env \<Rightarrow> nat \<Rightarrow> bytes list \<Rightarrow> bytes option \<Rightarrow> (bytes \<times> bytes) list \<Rightarrow> 'db Append
     \<Rightarrow> nat \<times> bytes list \<times> bytes option \<times> (bytes \<times> bytes) list \<times> 'db Append" where
  "gc_scan env deleteBatch batch lastKey [] a = (deleteBatch, batch, lastKey, [], a)"
| "gc_scan env deleteBatch batch lastKey ((k, v) # entries) a =
     (if deleteBatch \<ge> 100 then (deleteBatch, batch, lastKey, (k, v) # entries, a)
      else
        let batch = batch @ [k] in
        if length batch = 1024
        then (case kv_write (env_db env) (map KDelete batch) (a_metadata a) of
                (_, d) \<Rightarrow> gc_scan env (Suc deleteBatch) [] (Some k) entries (a\<lparr>a_metadata := d\<rparr>))
        else gc_scan env deleteBatch batch (Some k) entries a)"

definition gc_l0Trigger :: "'db Append \<Rightarrow> int" where
  "gc_l0Trigger a =
     (case a_kvConfig a of
        Some cf \<Rightarrow> if CompactionL0Trigger cf > 0 then CompactionL0Trigger cf
                   else CompactionL0Trigger defaultStorageKVConfig
      | None \<Rightarrow> CompactionL0Trigger defaultStorageKVConfig)"

text \<open>The outer loop: \<open>obs\<close> lists the numbers of level-0 files it observes, \<open>iter\<close> is the open iterator. None means
  that it has not finished after these observations.\<close>

fun gc_loop ::
  "'db env \<Rightarrow> bytes \<Rightarrow> (go_error + int) list \<Rightarrow> bytes \<Rightarrow> (bytes \<times> bytes) list option \<Rightarrow> 'db Append \<Rightarrow> 'db Append option" where
  "gc_loop env limit [] start iter a = None"
| "gc_loop env limit (Inl e # obs) start iter a = Some a"
| "gc_loop env limit (Inr l0Num # obs) start iter a =
     (if l0Num \<ge> gc_l0Trigger a then gc_loop env limit obs start None a
      else
        let entries = (case iter of None \<Rightarrow> kv_range (env_db env) start limit (a_metadata a) | Some es \<Rightarrow> es) in
        (case gc_scan env 0 [] None entries a of
           (deleteBatch, batch, lastKey, entries, a) \<Rightarrow>
             if deleteBatch < 100
             then Some (if batch = [] then a
                        else a\<lparr>a_metadata := snd (kv_write (env_db env) (map KDelete batch) (a_metadata a))\<rparr>)
             else gc_loop env limit obs (case lastKey of None \<Rightarrow> start | Some k \<Rightarrow> k) (Some entries) a))"

definition doGCTS :: "'db env \<Rightarrow> (go_error + int) list \<Rightarrow> int \<Rightarrow> 'db Append \<Rightarrow> 'db Append option" where
  "doGCTS env obs t a =
     gc_loop env (encodeTSKey (wrap_int64 (t + 1))) obs (encodeTSKey 0) None (a\<lparr>a_vlog := gcTS t (a_vlog a)\<rparr>)"

text \<open>The goroutine that \<^verbatim>\<open>GC\<close> starts.\<close>

definition gc_worker :: "'db env \<Rightarrow> (go_error + int) list \<Rightarrow> int \<Rightarrow> 'db Append \<Rightarrow> 'db Append option" where
  "gc_worker env obs t a = map_option (\<lambda>a. a\<lparr>a_gcWorking := False\<rparr>) (doGCTS env obs t a)"

subsection \<open>Reading the commits\<close>

text \<open>\<^verbatim>\<open>feedPreWriteValue\<close> completes a commit from its prewrite.\<close>

definition feedPreWriteValue :: "'db env \<Rightarrow> 'db Append \<Rightarrow> Binlog \<Rightarrow> go_error + Binlog" where
  "feedPreWriteValue env a cbinlog =
     (case kv_get (env_db env) (a_metadata a) (encodeTSKey (StartTs cbinlog)) of Inl e \<Rightarrow> Inl e | Inr vpData \<Rightarrow>
     (case UnmarshalBinary vpData of Inl e \<Rightarrow> Inl e | Inr vp \<Rightarrow>
     (case readValue (a_vlog a) vp of Inl e \<Rightarrow> Inl e | Inr pvalue \<Rightarrow>
     (case env_unmarshal env pvalue of Inl e \<Rightarrow> Inl e | Inr pbinlog \<Rightarrow>
        Inr (cbinlog\<lparr>StartTs := StartTs pbinlog, PrewriteValue := PrewriteValue pbinlog, DdlQuery := DdlQuery pbinlog,
               DdlJobId := DdlJobId pbinlog, DdlSchemaState := DdlSchemaState pbinlog\<rparr>)))))"

text \<open>What one entry of the iterator in \<^verbatim>\<open>PullCommitBinlog\<close> leads to.\<close>

datatype pulled = PullSkip | PullStop go_error | PullSend bytes

definition pull_entry :: "'db env \<Rightarrow> 'db Append \<Rightarrow> bytes \<Rightarrow> pulled" where
  "pull_entry env a vpData =
     (case UnmarshalBinary vpData of Inl e \<Rightarrow> PullStop (Panic ''UnmarshalBinary'') | Inr vp \<Rightarrow>
     (case readValue (a_vlog a) vp of Inl e \<Rightarrow> PullStop e | Inr pvalue \<Rightarrow>
     (case env_unmarshal env pvalue of Inl e \<Rightarrow> PullStop e | Inr binlog \<Rightarrow>
        if Tp binlog = Prewrite then PullSkip
        else
          (case (if CommitTs binlog = StartTs binlog then Inr binlog else feedPreWriteValue env a binlog) of
             Inl e \<Rightarrow> if e = ErrNotFound then PullSkip else PullStop e
           | Inr binlog \<Rightarrow> (case env_marshal env binlog of Inl e \<Rightarrow> PullStop e | Inr pvalue \<Rightarrow> PullSend pvalue)))))"

text \<open>The loop over the iterator. \<open>budget\<close> is the number of values the reader takes before it cancels, None when
  it does not. The result is whether the goroutine goes on, the timestamp of the last value sent, and the
  values.\<close>

fun pull_scan ::
  "'db env \<Rightarrow> 'db Append \<Rightarrow> nat option \<Rightarrow> int \<Rightarrow> (bytes \<times> bytes) list \<Rightarrow> bool \<times> int \<times> bytes list" where
  "pull_scan env a budget lastTS [] = (True, lastTS, [])"
| "pull_scan env a budget lastTS ((k, vpData) # entries) =
     (case pull_entry env a vpData of
        PullSkip \<Rightarrow> pull_scan env a budget lastTS entries
      | PullStop e \<Rightarrow> (False, lastTS, [])
      | PullSend pvalue \<Rightarrow>
          if budget = Some 0 then (False, lastTS, [])
          else
            (case decodeTSKey k of
               Inl e \<Rightarrow> (False, lastTS, [pvalue])
             | Inr t \<Rightarrow>
                 (case pull_scan env a (map_option (\<lambda>n. n - 1) budget) t entries of
                    (go_on, lastTS, values) \<Rightarrow> (go_on, lastTS, pvalue # values))))"

definition pull_start :: "'db Append \<Rightarrow> int \<Rightarrow> int" where
  "pull_start a lastTS = (if lastTS < a_gcTS a then a_gcTS a else lastTS)"

definition pull_round :: "'db env \<Rightarrow> 'db Append \<Rightarrow> nat option \<Rightarrow> int \<Rightarrow> bool \<times> int \<times> bytes list" where
  "pull_round env a budget lastTS =
     (let startTS = wrap_int64 (lastTS + 1); limitTS = wrap_int64 (a_maxCommitTS a + 1) in
      if startTS > limitTS then (True, lastTS, [])
      else pull_scan env a budget lastTS
             (kv_range (env_db env) (encodeTSKey startTS) (encodeTSKey limitTS) (a_metadata a)))"

text \<open>\<^verbatim>\<open>PullCommitBinlog\<close> over the states of the storage it meets at its rounds, the first one at the call; a list
  that ends is a reader that cancels between two rounds.\<close>

fun pull_rounds :: "'db env \<Rightarrow> int \<Rightarrow> ('db Append \<times> nat option) list \<Rightarrow> bytes list" where
  "pull_rounds env lastTS [] = []"
| "pull_rounds env lastTS ((a, budget) # rounds) =
     (case pull_round env a budget lastTS of
        (go_on, lastTS, values) \<Rightarrow> values @ (if go_on then pull_rounds env lastTS rounds else []))"

definition PullCommitBinlog :: "'db env \<Rightarrow> int \<Rightarrow> 'db Append \<Rightarrow> ('db Append \<times> nat option) list \<Rightarrow> bytes list" where
  "PullCommitBinlog env lastTS a rounds = pull_rounds env (pull_start a lastTS) rounds"

subsection \<open>Opening\<close>

text \<open>\<^verbatim>\<open>NewAppendWithResolver\<close>: the value log and the database are opened, the saved state is read back, and the
  records after the older of the two saved pointers are sent to the database stage again. \<open>tiStore\<close> is None
  without a TiKV store and says whether the given one is a \<^verbatim>\<open>tikv.Storage\<close>.\<close>

definition minPointer :: "'db Append \<Rightarrow> valuePointer" where
  "minPointer a = (if a_handlePointer a < a_headPointer a then a_handlePointer a else a_headPointer a)"

definition load_saved :: "'db env \<Rightarrow> 'db Append \<Rightarrow> go_error + 'db Append" where
  "load_saved env a =
     (case readGCTSFromDB env a of Inl e \<Rightarrow> Inl e | Inr gc \<Rightarrow>
     (case readInt64 env a maxCommitTSKey of Inl e \<Rightarrow> Inl e | Inr maxCommit \<Rightarrow>
     (case readPointer env a headPointerKey of Inl e \<Rightarrow> Inl e | Inr headP \<Rightarrow>
     (case readPointer env a handlePointerKey of Inl e \<Rightarrow> Inl e | Inr handleP \<Rightarrow>
        Inr (a\<lparr>a_gcTS := gc, a_maxCommitTS := maxCommit, a_headPointer := headP, a_handlePointer := handleP\<rparr>)))))"

definition collect_requests :: "request \<Rightarrow> request list \<Rightarrow> go_error option \<times> request list" where
  "collect_requests req out = (None, out @ [req])"

definition NewAppendWithResolver ::
  "'db env \<Rightarrow> go_error option \<Rightarrow> go_error + valueLog \<Rightarrow> go_error + 'db \<Rightarrow> go_error + Statfs_t
     \<Rightarrow> Options option \<Rightarrow> KVConfig option \<Rightarrow> bool option \<Rightarrow> go_error + 'db Append" where
  "NewAppendWithResolver env mkdir vlog db st options kvConfig tiStore =
     (case mkdir of Some e \<Rightarrow> Inl e | None \<Rightarrow>
     (case vlog of Inl e \<Rightarrow> Inl e | Inr v \<Rightarrow>
     (case db of Inl e \<Rightarrow> Inl e | Inr d \<Rightarrow>
      let a = \<lparr>a_vlog = v, a_metadata = d, a_sorter = newSorter, a_latestTS = 0, a_gcTS = 0, a_gcWorking = False,
               a_maxCommitTS = 0, a_headPointer = VP 0 0, a_handlePointer = VP 0 0, a_available = 0, a_capacity = 0,
               a_options = (case options of None \<Rightarrow> DefaultOptions | Some opt \<Rightarrow> opt), a_kvConfig = kvConfig,
               a_closed = False, a_chaser = newSlowChaser, a_timeouts = [], a_toKV = [], a_toSorter = []\<rparr> in
     (case load_saved env a of Inl e \<Rightarrow> Inl e | Inr a \<Rightarrow>
      if tiStore = Some False then Inl (ErrMsg ''not tikv.Storage'')
      else
        (case scanRequests (env_unmarshal env) (a_vlog a) (minPointer a) collect_requests [] of
           (Some e, _) \<Rightarrow> Inl e
         | (None, reqs) \<Rightarrow>
             (case updateSize st (a\<lparr>a_toKV := reqs\<rparr>) of (Some e, a) \<Rightarrow> Inl e | (None, a) \<Rightarrow> Inr a))))))"

end
