(* ===== verification/StorageProps.thy ===== *)
theory StorageProps
  imports Storage
begin

text \<open>
  Properties of the storage of a pump. The metadata database is any implementation that behaves as an
  ordered map (\<open>kvdb_ok\<close>); an association list shows that there is one, and serves the examples.
\<close>

section \<open>Keys\<close>

lemma length_encodeTSKey [simp]: "length (encodeTSKey t) = 11"
  by (simp add: encodeTSKey_def tsKeyPrefix_def bytes_of_def)

lemma decode_encodeTSKey [simp]: "int64_range t \<Longrightarrow> decodeTSKey (encodeTSKey t) = Inr t"
  by (simp add: decodeTSKey_def encodeTSKey_def tsKeyPrefix_def bytes_of_def get_be_put_be)

lemma encodeTSKey_inject: "int64_range x \<Longrightarrow> int64_range y \<Longrightarrow> encodeTSKey x = encodeTSKey y \<longleftrightarrow> x = y"
  by (metis decode_encodeTSKey sum.inject(2))

lemma bytes_less_encodeTSKey: "bytes_less (encodeTSKey x) (encodeTSKey y) \<longleftrightarrow> u64_of_int64 x < u64_of_int64 y"
  by (simp add: encodeTSKey_def bytes_less_put_be)

lemma u64_less_nonneg:
  "0 \<le> x \<Longrightarrow> 0 \<le> y \<Longrightarrow> int64_range x \<Longrightarrow> int64_range y \<Longrightarrow> u64_of_int64 x < u64_of_int64 y \<longleftrightarrow> x < y"
  by (simp add: word_less_def uint_u64_of_nonneg)

lemma meta_keys_not_ts [simp]:
  "encodeTSKey t \<noteq> gcTSKey" "encodeTSKey t \<noteq> maxCommitTSKey" "encodeTSKey t \<noteq> handlePointerKey"
  "encodeTSKey t \<noteq> headPointerKey"
  "gcTSKey \<noteq> encodeTSKey t" "maxCommitTSKey \<noteq> encodeTSKey t" "handlePointerKey \<noteq> encodeTSKey t"
  "headPointerKey \<noteq> encodeTSKey t"
  by (auto simp: encodeTSKey_def tsKeyPrefix_def bytes_of_def gcTSKey_def maxCommitTSKey_def
      handlePointerKey_def headPointerKey_def)

lemma meta_keys_distinct [simp]: "distinct [gcTSKey, maxCommitTSKey, handlePointerKey, headPointerKey]"
  by (simp add: bytes_of_def gcTSKey_def maxCommitTSKey_def handlePointerKey_def headPointerKey_def)

section \<open>The database\<close>

lemma kv_get_ok:
  "kvdb_ok db repr \<Longrightarrow> kv_get db d k = (case repr d k of None \<Rightarrow> Inl ErrNotFound | Some v \<Rightarrow> Inr v)"
  by (simp add: kvdb_ok_def)

lemma kv_write_ok: "kvdb_ok db repr \<Longrightarrow> kv_write db ops d = (None, d') \<Longrightarrow> repr d' = fold kv_apply ops (repr d)"
  by (simp add: kvdb_ok_def)

lemma kv_write_failed: "kvdb_ok db repr \<Longrightarrow> kv_write db ops d = (Some e, d') \<Longrightarrow> repr d' = repr d"
  by (simp add: kvdb_ok_def)

lemma kv_range_ok:
  assumes "kvdb_ok db repr"
  shows "sorted_wrt (\<lambda>p q. bytes_less (fst p) (fst q)) (kv_range db lo hi d)"
    "set (kv_range db lo hi d) = {(k, v). repr d k = Some v \<and> \<not> bytes_less k lo \<and> bytes_less k hi}"
  using assms by (simp_all add: kvdb_ok_def)

fun key_of :: "kv_op \<Rightarrow> bytes" where
  "key_of (KPut k v) = k"
| "key_of (KDelete k) = k"

lemma kv_apply_other: "k \<notin> key_of ` set ops \<Longrightarrow> fold kv_apply ops m k = m k"
proof (induction ops arbitrary: m)
  case (Cons op ops)
  then show ?case by (cases op) auto
qed simp

lemma kv_apply_deletes: "fold kv_apply (map KDelete ks) m k = (if k \<in> set ks then None else m k)"
  by (induction ks arbitrary: m) auto

text \<open>Whatever happens to a batch, keys it does not name keep their values.\<close>

lemma kv_write_other:
  assumes "kvdb_ok db repr" "k \<notin> key_of ` set ops"
  shows "repr (snd (kv_write db ops d)) k = repr d k"
proof (cases "kv_write db ops d")
  case (Pair err d')
  with assms show ?thesis by (cases err) (auto dest: kv_write_ok kv_write_failed simp: kv_apply_other)
qed

subsection \<open>A database\<close>

text \<open>An association list, for the examples; the first binding of a key counts.\<close>

fun insert_entry :: "bytes \<times> bytes \<Rightarrow> (bytes \<times> bytes) list \<Rightarrow> (bytes \<times> bytes) list" where
  "insert_entry e [] = [e]"
| "insert_entry e (f # es) =
     (if bytes_less (fst e) (fst f) then e # f # es
      else if fst e = fst f then e # es
      else f # insert_entry e es)"

fun list_write :: "kv_op list \<Rightarrow> (bytes \<times> bytes) list \<Rightarrow> (bytes \<times> bytes) list" where
  "list_write [] d = d"
| "list_write (KPut k v # ops) d = list_write ops (AList.update k v d)"
| "list_write (KDelete k # ops) d = list_write ops (AList.delete k d)"

definition list_db :: "(bytes \<times> bytes) list kvdb" where
  "list_db = \<lparr>
     kv_get = (\<lambda>d k. case map_of d k of None \<Rightarrow> Inl ErrNotFound | Some v \<Rightarrow> Inr v),
     kv_write = (\<lambda>ops d. (None, list_write ops d)),
     kv_range = (\<lambda>lo hi d. filter (\<lambda>(k, v). \<not> bytes_less k lo \<and> bytes_less k hi) (foldr insert_entry d []))\<rparr>"

lemma set_insert_entry:
  "sorted_wrt (\<lambda>p q. bytes_less (fst p) (fst q)) es \<Longrightarrow>
     set (insert_entry e es) = insert e {f \<in> set es. fst f \<noteq> fst e}"
proof (induction e es rule: insert_entry.induct)
  case (2 e f es)
  then show ?case using bytes_less_trans bytes_less_irrefl by (fastforce split: if_splits)
qed simp

lemma sorted_insert_entry:
  "sorted_wrt (\<lambda>p q. bytes_less (fst p) (fst q)) es \<Longrightarrow>
     sorted_wrt (\<lambda>p q. bytes_less (fst p) (fst q)) (insert_entry e es)"
proof (induction e es rule: insert_entry.induct)
  case (2 e f es)
  then show ?case
    using bytes_less_trans bytes_less_total [of "fst e" "fst f"] by (auto simp: set_insert_entry)
qed simp

lemma sorted_entries:
  "sorted_wrt (\<lambda>p q. bytes_less (fst p) (fst q)) (foldr insert_entry d []) \<and>
   set (foldr insert_entry d []) = {(k, v). map_of d k = Some v}"
  by (induction d) (auto simp: sorted_insert_entry set_insert_entry split: if_splits)

lemma list_write_map_of: "map_of (list_write ops d) = fold kv_apply ops (map_of d)"
  by (induction ops d rule: list_write.induct) (simp_all add: update_conv' delete_conv' fun_upd_def)

lemma list_db_ok: "kvdb_ok list_db map_of"
  using sorted_entries by (auto simp: kvdb_ok_def list_db_def list_write_map_of intro: sorted_wrt_filter)

section \<open>Batches\<close>

text \<open>The requests of an event list.\<close>

abbreviation requests_of :: "request option list \<Rightarrow> request list" where
  "requests_of evs \<equiv> List.map_filter id evs"

lemma vlog_batches_concat: "concat (vlog_batches buf sz blocked evs) = buf @ requests_of evs"
  by (induction buf sz blocked evs rule: vlog_batches.induct) (auto simp: Let_def List.map_filter_simps)

lemma kv_batches_concat: "concat (kv_batches n buf blocked evs) = buf @ requests_of evs"
  by (induction n buf blocked evs rule: kv_batches.induct)
    (auto simp: Let_def List.map_filter_simps split: option.splits)

lemma kv_batches_size:
  "length buf \<le> n \<Longrightarrow> 0 < n \<Longrightarrow> blocked \<longrightarrow> buf = [] \<Longrightarrow>
     list_all (\<lambda>batch. batch \<noteq> [] \<and> length batch \<le> n) (kv_batches n buf blocked evs)"
  by (induction n buf blocked evs rule: kv_batches.induct) (auto simp: Let_def Suc_le_eq split: option.splits if_splits)

lemma vlog_batches_nonempty: "list_all (\<lambda>batch. batch \<noteq> []) (vlog_batches buf sz blocked evs)"
  by (induction buf sz blocked evs rule: vlog_batches.induct) (auto simp: Let_def)

section \<open>The write path\<close>

definition binlog_ts :: "Binlog \<Rightarrow> int" where
  "binlog_ts b = (if Tp b = Prewrite then StartTs b else CommitTs b)"

text \<open>Offsets fit the signed 64 bits of a pointer.\<close>

definition small_files :: "valueLog \<Rightarrow> bool" where
  "small_files v \<longleftrightarrow> list_all (\<lambda>(_, lf). int (length (lf_fd lf)) < 2 ^ 63) (v_filesMap v)"

lemma holds_at_small:
  assumes "holds_at v vp pl t" "small_files v"
  shows "int64_range (Offset vp)"
proof -
  obtain lf pre post where lf: "map_of (v_filesMap v) (Fid vp) = Some lf" "lf_fd lf = pre @ frame pl @ post"
    "Offset vp = int (length pre)" using assms(1) by (auto simp: holds_at_def)
  from lf(1) have "(Fid vp, lf) \<in> set (v_filesMap v)" by (rule map_of_SomeD)
  then have "int (length (lf_fd lf)) < 2 ^ 63" using assms(2) by (auto simp: small_files_def list_all_iff)
  then show ?thesis using lf(2,3) by (simp add: int64_range_def)
qed

lemma write_batch_ok:
  assumes "vlog_wf (a_vlog a)" "room (Suc (length batch)) (a_vlog a)" "batch \<noteq> []" "r \<in> set reqs"
    and "write_batch env batch a = (reqs, a')" "req_err r = None"
  shows "\<exists>reqs' v'. vlog_write (env_unmarshal env) batch (a_vlog a) = (None, reqs', v') \<and>
    reqs = map (req_payload_update (\<lambda>_. [])) reqs' \<and>
    a' = (if sc_on (a_chaser a) then a\<lparr>a_vlog := v'\<rparr> else send_loop reqs (a\<lparr>a_vlog := v'\<rparr>))"
proof -
  obtain err reqs' v' where w: "vlog_write (env_unmarshal env) batch (a_vlog a) = (err, reqs', v')"
    by (cases "vlog_write (env_unmarshal env) batch (a_vlog a)") auto
  with assms show ?thesis by (cases err) (auto simp: write_batch_def Let_def)
qed

lemma send_loop_frame [simp]:
  "a_vlog (send_loop reqs a) = a_vlog a" "a_metadata (send_loop reqs a) = a_metadata a"
  "a_toSorter (send_loop reqs a) = a_toSorter a" "a_maxCommitTS (send_loop reqs a) = a_maxCommitTS a"
  "a_gcTS (send_loop reqs a) = a_gcTS a"
  by (induction reqs a rule: send_loop.induct) auto

lemma send_loop_all: "a_timeouts a = [] \<Longrightarrow> send_loop reqs a = a\<lparr>a_toKV := a_toKV a @ reqs\<rparr>"
  by (induction reqs a rule: send_loop.induct) auto

declare writeBatchToKV.simps [simp del]

lemma writeBatchToKV_ok:
  assumes "kvdb_ok (env_db env) repr" "writeBatchToKV env obs bufReqs a = Some (None, a')"
  shows "\<exists>d. bufReqs \<noteq> [] \<and> repr d = fold kv_apply (kv_batch bufReqs) (repr (a_metadata a)) \<and>
    a' = a\<lparr>a_metadata := d, a_headPointer := req_vp (last bufReqs)\<rparr>"
  using assms(2)
proof (induction obs arbitrary: a)
  case Nil
  then show ?case
    using kv_write_ok [OF assms(1), of "kv_batch bufReqs" "a_metadata a"]
    by (auto simp: writeBatchToKV.simps [of env "[]"] Let_def split: prod.splits option.splits if_splits)
next
  case (Cons c obs)
  obtain err d where w: "kv_write (env_db env) (kv_batch bufReqs) (a_metadata a) = (err, d)" by fastforce
  show ?case
  proof (cases err)
    case None
    with w Cons.prems show ?thesis
      using kv_write_ok [OF assms(1), of "kv_batch bufReqs" "a_metadata a"]
      by (auto simp: writeBatchToKV.simps [of env "_ # _"] Let_def split: if_splits)
  next
    case (Some e)
    with w Cons.prems have "writeBatchToKV env obs bufReqs (a\<lparr>a_metadata := d\<rparr>) = Some (None, a')"
      by (auto simp: writeBatchToKV.simps [of env "_ # _"] Let_def split: if_splits)
    from Cons.IH [OF this] kv_write_failed [OF assms(1) w [unfolded Some]] show ?thesis by simp
  qed
qed

lemma kv_batch_apply:
  assumes "bufReqs \<noteq> []"
  shows "fold kv_apply (kv_batch bufReqs) m (encodeTSKey (ts (last bufReqs))) = Some (MarshalBinary (req_vp (last bufReqs)))"
    "fold kv_apply (kv_batch bufReqs) m headPointerKey = Some (MarshalBinary (req_vp (last bufReqs)))"
  using assms by (cases bufReqs rule: rev_cases; simp add: kv_batch_def)+

lemma GetBinlog_stored:
  assumes "kvdb_ok (env_db env) repr" "repr (a_metadata a) (encodeTSKey t) = Some (MarshalBinary vp)"
    and "int64_range (Offset vp)" "readValue (a_vlog a) vp = Inr pl" "env_unmarshal env pl = Inr b"
  shows "GetBinlog env a t = Inr b"
  using assms UnmarshalBinary_MarshalBinary [of vp "[]"]
  by (simp add: GetBinlog_def readBinlogByTS_def kv_get_ok [OF assms(1)])

lemma ts_request_of: "ts (request_of b pl) = binlog_ts b"
  by (simp add: ts_def request_of_def binlog_ts_def)

lemma ts_payload [simp]: "ts (r\<lparr>req_payload := pl\<rparr>) = ts r"
  by (simp add: ts_def)

text \<open>A write changes nothing of a request but its pointer.\<close>

lemma write_loop_requests:
  "write_loop u reqs buf bufReqs v = (err, reqs', v') \<Longrightarrow>
     map (req_vp_update (\<lambda>_. VP 0 0)) reqs' = map (req_vp_update (\<lambda>_. VP 0 0)) reqs"
  by (induction u reqs buf bufReqs v arbitrary: err reqs' v' rule: write_loop.induct)
    (auto simp: Let_def split: prod.splits option.splits if_splits)

lemma vlog_write_requests:
  assumes "vlog_write u reqs v = (err, reqs', v')"
  shows "length reqs' = length reqs" "map req_err reqs' = map req_err reqs" "map startTS reqs' = map startTS reqs"
    "map commitTS reqs' = map commitTS reqs" "map tp reqs' = map tp reqs"
proof -
  have eq: "map (req_vp_update (\<lambda>_. VP 0 0)) reqs' = map (req_vp_update (\<lambda>_. VP 0 0)) reqs"
    using write_loop_requests assms by (simp add: vlog_write_def)
  show "length reqs' = length reqs" using arg_cong [OF eq, of length] by simp
  show "map req_err reqs' = map req_err reqs" "map startTS reqs' = map startTS reqs"
    "map commitTS reqs' = map commitTS reqs" "map tp reqs' = map tp reqs"
    using arg_cong [OF eq, of "map req_err"] arg_cong [OF eq, of "map startTS"]
      arg_cong [OF eq, of "map commitTS"] arg_cong [OF eq, of "map tp"] by (simp_all add: comp_def)
qed

text \<open>A successful \<^verbatim>\<open>writeBinlog\<close>: where the record is and what is sent on.\<close>

lemma writeBinlog_ok:
  assumes wf: "vlog_wf (a_vlog a)" "room 2 (a_vlog a)"
    and pl: "env_marshal env b = Inr pl"
    and w: "writeBinlog env b a = (req, a')" "req_err req = None"
  shows "holds_at (a_vlog a') (req_vp req) pl (binlog_ts b)" "ts req = binlog_ts b" "vlog_wf (a_vlog a')"
    "a_metadata a' = a_metadata a"
    "\<not> sc_on (a_chaser a) \<Longrightarrow> a_timeouts a = [] \<Longrightarrow> a_toKV a' = a_toKV a @ [req]"
proof -
  let ?r = "request_of b pl"
  obtain err reqs' v' where v: "vlog_write (env_unmarshal env) [?r] (a_vlog a) = (err, reqs', v')"
    by (cases "vlog_write (env_unmarshal env) [?r] (a_vlog a)") auto
  obtain r' where r': "reqs' = [r']"
    using vlog_write_requests(1) [OF v] by (cases reqs') auto
  have err: "err = None"
    using w pl v r' by (cases err) (auto simp: writeBinlog_def write_batch_def)
  have eqs: "req = r'\<lparr>req_payload := []\<rparr>"
    "a' = (if sc_on (a_chaser a) then a\<lparr>a_vlog := v'\<rparr> else send_loop [req] (a\<lparr>a_vlog := v'\<rparr>))"
    using w(1) pl v r' err by (auto simp: writeBinlog_def write_batch_def Let_def simp del: send_loop.simps)
  have rm: "room (Suc (length [?r])) (a_vlog a)" using wf(2) by (simp add: numeral_2_eq_2)
  note ok = vlog_write_ok [OF wf(1) rm v [unfolded err r']]
  show "holds_at (a_vlog a') (req_vp req) pl (binlog_ts b)" "ts req = binlog_ts b"
    using ok(2-4) by (auto simp: eqs request_of_def ts_request_of [of b pl, unfolded request_of_def])
  show "vlog_wf (a_vlog a')" "a_metadata a' = a_metadata a"
    using ok(1) by (simp_all add: eqs del: send_loop.simps)
  show "\<not> sc_on (a_chaser a) \<Longrightarrow> a_timeouts a = [] \<Longrightarrow> a_toKV a' = a_toKV a @ [req]"
    by (simp add: eqs(2))
qed

section \<open>Garbage collection of the database\<close>

definition key_in :: "bytes \<Rightarrow> bytes \<Rightarrow> bytes \<Rightarrow> bool" where
  "key_in lo hi k \<longleftrightarrow> \<not> bytes_less k lo \<and> bytes_less k hi"

text \<open>Every write to the database succeeds.\<close>

definition kv_reliable :: "'db kvdb \<Rightarrow> bool" where
  "kv_reliable db \<longleftrightarrow> (\<forall>ops d. fst (kv_write db ops d) = None)"

lemma kv_delete_reliable:
  assumes "kvdb_ok db repr" "kv_reliable db" "kv_write db (map KDelete ks) d = (err, d')"
  shows "repr d' k = (if k \<in> set ks then None else repr d k)"
proof -
  have "err = None" using assms(2,3) unfolding kv_reliable_def by (metis fst_conv)
  with kv_write_ok [OF assms(1)] assms(3) show ?thesis by (simp add: kv_apply_deletes)
qed

lemma gc_scan_cases:
  assumes "gc_scan env n batch lastKey ((k, v) # entries) a = res"
  obtains (stop) "100 \<le> n" "res = (n, batch, lastKey, (k, v) # entries, a)"
  | (flush) err d where "n < 100" "length batch = 1023"
      "kv_write (env_db env) (map KDelete (batch @ [k])) (a_metadata a) = (err, d)"
      "gc_scan env (Suc n) [] (Some k) entries (a\<lparr>a_metadata := d\<rparr>) = res"
  | (add) "n < 100" "gc_scan env n (batch @ [k]) (Some k) entries a = res"
proof (cases "100 \<le> n")
  case True
  with assms show ?thesis using stop by simp
next
  case n: False
  show ?thesis
  proof (cases "length (batch @ [k]) = 1024")
    case True
    obtain err d where w: "kv_write (env_db env) (map KDelete (batch @ [k])) (a_metadata a) = (err, d)" by fastforce
    with n True assms show ?thesis using flush by (simp add: Let_def)
  next
    case False
    with n assms show ?thesis using add by (simp add: Let_def)
  qed
qed

text \<open>Whether or not the writes succeed, the collection touches only the keys of its iterator.\<close>

lemma gc_scan_frame:
  assumes "kvdb_ok (env_db env) repr"
    and "gc_scan env n batch lastKey entries a = (n', batch', lastKey', es', a')"
    and "k \<notin> set batch \<union> fst ` set entries"
  shows "repr (a_metadata a') k = repr (a_metadata a) k \<and> k \<notin> set batch' \<union> fst ` set es'"
  using assms(2,3)
proof (induction entries arbitrary: n batch lastKey a)
  case (Cons e entries)
  obtain k0 v where e: "e = (k0, v)" by (cases e)
  from Cons.prems(1) [unfolded e] show ?case
  proof (cases rule: gc_scan_cases)
    case (flush err d)
    have "repr d k = repr (a_metadata a) k"
      using kv_write_other [OF assms(1), of k "map KDelete (batch @ [k0])" "a_metadata a"] flush(3) Cons.prems(2) e
      by (auto simp: image_image)
    with Cons.IH [OF flush(4)] Cons.prems(2) show ?thesis by simp
  next
    case add
    with Cons.IH [OF add(2)] Cons.prems(2) e show ?thesis by auto
  qed (use Cons.prems(2) e in auto)
qed simp

lemma gc_scan_deletes:
  assumes "kvdb_ok (env_db env) repr" "kv_reliable (env_db env)"
    and "gc_scan env n batch lastKey entries a = (n', batch', lastKey', es', a')"
  shows "\<exists>seen d. entries = seen @ es' \<and> a' = a\<lparr>a_metadata := d\<rparr> \<and>
    set batch' \<subseteq> set batch \<union> fst ` set seen \<and>
    (\<forall>k. k \<notin> set batch' \<longrightarrow>
      repr d k = (if k \<in> set batch \<union> fst ` set seen then None else repr (a_metadata a) k)) \<and>
    lastKey' = (if seen = [] then lastKey else Some (fst (last seen))) \<and>
    (n' < 100 \<longrightarrow> es' = []) \<and> (100 \<le> n' \<and> n < 100 \<longrightarrow> batch' = [] \<and> seen \<noteq> []) \<and>
    (100 \<le> n \<longrightarrow> batch' = batch)"
  using assms(3)
proof (induction entries arbitrary: n batch lastKey a)
  case Nil
  then show ?case by (intro exI [of _ "[]"] exI [of _ "a_metadata a"]) auto
next
  case (Cons e entries)
  obtain k0 v where e: "e = (k0, v)" by (cases e)
  from Cons.prems [unfolded e] show ?case
  proof (cases rule: gc_scan_cases)
    case stop
    with e show ?thesis by (intro exI [of _ "[]"] exI [of _ "a_metadata a"]) auto
  next
    case (flush err d)
    note del = kv_delete_reliable [OF assms(1,2) flush(3)]
    from Cons.IH [OF flush(4)] obtain seen d' where "entries = seen @ es'" "a' = a\<lparr>a_metadata := d'\<rparr>"
      "set batch' \<subseteq> fst ` set seen"
      "\<forall>k. k \<notin> set batch' \<longrightarrow> repr d' k = (if k \<in> fst ` set seen then None else repr d k)"
      "lastKey' = (if seen = [] then Some k0 else Some (fst (last seen)))" "n' < 100 \<longrightarrow> es' = []"
      "100 \<le> n' \<longrightarrow> batch' = []"
      by (elim exE conjE) (cases "Suc n < 100"; auto)
    then show ?thesis using flush(1) del e by (intro exI [of _ "e # seen"] exI [of _ d']) auto
  next
    case add
    from Cons.IH [OF add(2)] obtain seen d' where "entries = seen @ es'" "a' = a\<lparr>a_metadata := d'\<rparr>"
      "set batch' \<subseteq> set (batch @ [k0]) \<union> fst ` set seen"
      "\<forall>k. k \<notin> set batch' \<longrightarrow>
        repr d' k = (if k \<in> set (batch @ [k0]) \<union> fst ` set seen then None else repr (a_metadata a) k)"
      "lastKey' = (if seen = [] then Some k0 else Some (fst (last seen)))" "n' < 100 \<longrightarrow> es' = []"
      "100 \<le> n' \<and> n < 100 \<longrightarrow> batch' = [] \<and> seen \<noteq> []"
      by blast
    then show ?thesis using add(1) e by (intro exI [of _ "e # seen"] exI [of _ d']) auto
  qed
qed

definition live :: "('db \<Rightarrow> bytes \<rightharpoonup> bytes) \<Rightarrow> bytes \<Rightarrow> bytes \<Rightarrow> 'db \<Rightarrow> bytes set" where
  "live repr lo hi d = {k. key_in lo hi k \<and> repr d k \<noteq> None}"

abbreviation sorted_entries_by_key :: "(bytes \<times> bytes) list \<Rightarrow> bool" where
  "sorted_entries_by_key es \<equiv> sorted_wrt (\<lambda>p q. bytes_less (fst p) (fst q)) es"

text \<open>What the outer loop of the collection keeps: everything left to delete is at or after the start of the range,
  and is exactly what the open iterator still has.\<close>

definition gc_inv :: "('db \<Rightarrow> bytes \<rightharpoonup> bytes) \<Rightarrow> bytes \<Rightarrow> bytes \<Rightarrow> bytes \<Rightarrow> (bytes \<times> bytes) list option \<Rightarrow> 'db \<Rightarrow> bool" where
  "gc_inv repr lo hi start iter d \<longleftrightarrow> \<not> bytes_less start lo \<and>
     (\<forall>k\<in>live repr lo hi d. \<not> bytes_less k start) \<and>
     (\<forall>es. iter = Some es \<longrightarrow> sorted_entries_by_key es \<and> fst ` set es = live repr lo hi d)"

lemma gc_inv_entries:
  assumes "kvdb_ok db repr" "gc_inv repr lo hi start iter d"
    and "es = (case iter of None \<Rightarrow> kv_range db start hi d | Some es \<Rightarrow> es)"
  shows "sorted_entries_by_key es" "fst ` set es = live repr lo hi d"
proof -
  have "\<not> bytes_less k lo" if "\<not> bytes_less k start" for k
    using that assms(2) bytes_less_trans bytes_less_total unfolding gc_inv_def by metis
  then have "k \<in> fst ` set (kv_range db start hi d) \<longleftrightarrow> k \<in> live repr lo hi d" for k
    using assms(2) by (auto simp: kv_range_ok [OF assms(1)] live_def key_in_def gc_inv_def image_iff)
  then have "fst ` set (kv_range db start hi d) = live repr lo hi d" by blast
  then show "sorted_entries_by_key es" "fst ` set es = live repr lo hi d"
    using assms kv_range_ok(1) [OF assms(1)] by (auto simp: gc_inv_def split: option.splits)
qed

definition productive :: "'db Append \<Rightarrow> (go_error + int) list \<Rightarrow> nat" where
  "productive a obs = length (filter (\<lambda>n. projr n < gc_l0Trigger a) obs)"

lemma gc_inv_step:
  assumes es: "sorted_entries_by_key (seen @ es')" "fst ` set (seen @ es') = live repr lo hi d" "seen \<noteq> []"
    and d': "\<And>k. repr d' k = (if k \<in> fst ` set seen then None else repr d k)"
    and lo: "\<not> bytes_less start lo" "\<forall>k\<in>live repr lo hi d. \<not> bytes_less k start"
  shows "gc_inv repr lo hi (fst (last seen)) (Some es') d'" "card (live repr lo hi d') < card (live repr lo hi d)"
proof -
  have disj: "fst ` set seen \<inter> fst ` set es' = {}"
    using es(1) bytes_less_irrefl by (fastforce simp: sorted_wrt_append)
  have live': "live repr lo hi d' = fst ` set es'"
    using es(2) d' disj by (auto simp: live_def set_eq_iff split: if_splits)
  have last: "last seen \<in> set seen" using es(3) by simp
  then have "fst (last seen) \<in> live repr lo hi d" using es(2) by auto
  then have "\<not> bytes_less (fst (last seen)) lo" by (auto simp: live_def key_in_def)
  moreover have "\<not> bytes_less k (fst (last seen))" if "k \<in> fst ` set es'" for k
    using es(1) last that bytes_less_trans bytes_less_irrefl by (fastforce simp: sorted_wrt_append)
  ultimately show "gc_inv repr lo hi (fst (last seen)) (Some es') d'"
    using es(1) by (auto simp: gc_inv_def live' sorted_wrt_append)
  have "live repr lo hi d' \<subset> live repr lo hi d"
    unfolding live' es(2) [symmetric] using disj last by auto
  then show "card (live repr lo hi d') < card (live repr lo hi d)"
    using es(2) by (metis List.finite_set finite_imageI psubset_card_mono)
qed

lemma gc_loop_ok:
  assumes ok: "kvdb_ok (env_db env) repr" "kv_reliable (env_db env)"
    and "gc_inv repr lo hi start iter (a_metadata a)" "list_all (\<lambda>ob. \<not> isl ob) obs"
    and "card (live repr lo hi (a_metadata a)) < productive a obs"
  shows "\<exists>d. gc_loop env hi obs start iter a = Some (a\<lparr>a_metadata := d\<rparr>) \<and>
    (\<forall>k. repr d k = (if key_in lo hi k then None else repr (a_metadata a) k))"
  using assms(3-5)
proof (induction obs arbitrary: start iter a)
  case Nil
  then show ?case by (simp add: productive_def)
next
  case (Cons ob obs)
  obtain n where n: "ob = Inr n" using Cons.prems(2) by (cases ob) auto
  show ?case
  proof (cases "gc_l0Trigger a \<le> n")
    case True
    have "gc_inv repr lo hi start None (a_metadata a)" using Cons.prems(1) by (simp add: gc_inv_def)
    from Cons.IH [OF this] Cons.prems n True show ?thesis by (simp add: productive_def)
  next
    case False
    define es where "es = (case iter of None \<Rightarrow> kv_range (env_db env) start hi (a_metadata a) | Some es \<Rightarrow> es)"
    note es = gc_inv_entries [OF ok(1) Cons.prems(1) es_def]
    obtain m batch lastKey es' a' where sc: "gc_scan env 0 [] None es a = (m, batch, lastKey, es', a')"
      by (metis prod_cases5)
    obtain seen d where seen: "es = seen @ es'" "a' = a\<lparr>a_metadata := d\<rparr>" "set batch \<subseteq> fst ` set seen"
      "\<And>k. k \<notin> set batch \<Longrightarrow> repr d k = (if k \<in> fst ` set seen then None else repr (a_metadata a) k)"
      "lastKey = (if seen = [] then None else Some (fst (last seen)))" "m < 100 \<Longrightarrow> es' = []"
      "100 \<le> m \<Longrightarrow> batch = [] \<and> seen \<noteq> []"
      using gc_scan_deletes [OF ok sc] by auto
    show ?thesis
    proof (cases "m < 100")
      case True
      define d' where "d' = (if batch = [] then d else snd (kv_write (env_db env) (map KDelete batch) d))"
      have "repr d' k = (if k \<in> set batch then None else repr d k)" for k
        using kv_delete_reliable [OF ok, of batch d] by (cases "kv_write (env_db env) (map KDelete batch) d") (simp add: d'_def)
      then have "repr d' k = (if k \<in> fst ` set es then None else repr (a_metadata a) k)" for k
        using seen(1,3,4) seen(6) [OF True] by auto
      then have "repr d' k = (if key_in lo hi k then None else repr (a_metadata a) k)" for k
        unfolding es(2) by (auto simp: live_def)
      moreover have "gc_loop env hi (ob # obs) start iter a = Some (a\<lparr>a_metadata := d'\<rparr>)"
        using False n sc True seen(2) by (simp add: es_def [symmetric] d'_def)
      ultimately show ?thesis by blast
    next
      case m: False
      note b = seen(7) [OF m [unfolded not_less]]
      have d: "repr d k = (if k \<in> fst ` set seen then None else repr (a_metadata a) k)" for k using seen(4) b by simp
      note step = gc_inv_step [OF es [unfolded seen(1)] _ d, of start]
      have lo: "\<not> bytes_less start lo" "\<forall>k\<in>live repr lo hi (a_metadata a). \<not> bytes_less k start"
        using Cons.prems(1) by (simp_all add: gc_inv_def)
      have "gc_loop env hi (ob # obs) start iter a = gc_loop env hi obs (fst (last seen)) (Some es') (a\<lparr>a_metadata := d\<rparr>)"
        using False n sc m seen(2,5) b by (simp add: es_def [symmetric])
      moreover have "card (live repr lo hi d) < productive a obs"
        using step(2) [OF _ lo] b Cons.prems(3) False n by (simp add: productive_def)
      moreover have "repr d k = repr (a_metadata a) k" if "\<not> key_in lo hi k" for k
        using that d es(2) seen(1) by (auto simp: live_def set_eq_iff)
      ultimately show ?thesis
        using Cons.IH [of "fst (last seen)" "Some es'" "a\<lparr>a_metadata := d\<rparr>"] step(1) [OF _ lo] b Cons.prems(2)
        by (auto simp: productive_def gc_l0Trigger_def)
    qed
  qed
qed

lemma uint_u64_of_neg: "x < 0 \<Longrightarrow> int64_range x \<Longrightarrow> uint (u64_of_int64 x) = x + 2 ^ 64"
proof -
  assume "x < 0" "int64_range x"
  then have "(x + 2 ^ 64) mod 2 ^ 64 = x + 2 ^ 64" by (intro mod_pos_pos_trivial) (auto simp: int64_range_def)
  then show ?thesis by (simp add: uint_word_of_int_eq take_bit_eq_mod)
qed

lemma key_in_encodeTSKey:
  "int64_range x \<Longrightarrow> 0 \<le> t \<Longrightarrow> int64_range (t + 1) \<Longrightarrow>
     key_in (encodeTSKey 0) (encodeTSKey (t + 1)) (encodeTSKey x) \<longleftrightarrow> 0 \<le> x \<and> x \<le> t"
proof -
  assume x: "int64_range x" and t: "0 \<le> t" "int64_range (t + 1)"
  have "u64_of_int64 x < u64_of_int64 (t + 1) \<longleftrightarrow> x < t + 1" if "0 \<le> x"
    using u64_less_nonneg [of x "t + 1"] that x t by simp
  moreover have "\<not> u64_of_int64 x < u64_of_int64 (t + 1)" if "x < 0"
  proof -
    have "uint (u64_of_int64 x) = x + 2 ^ 64" by (rule uint_u64_of_neg [OF that x])
    moreover have "uint (u64_of_int64 (t + 1)) = t + 1" using t by (intro uint_u64_of_nonneg) auto
    moreover have "(2 :: int) ^ 64 = 2 * 2 ^ 63" by simp
    ultimately show ?thesis using x t unfolding word_less_def int64_range_def by linarith
  qed
  ultimately show ?thesis
    by (cases "0 \<le> x") (auto simp: key_in_def bytes_less_encodeTSKey)
qed

lemma meta_keys_below [simp]:
  "bytes_less gcTSKey (encodeTSKey t)" "bytes_less maxCommitTSKey (encodeTSKey t)"
  "bytes_less handlePointerKey (encodeTSKey t)" "bytes_less headPointerKey (encodeTSKey t)"
  by (simp_all add: encodeTSKey_def tsKeyPrefix_def bytes_of_def gcTSKey_def maxCommitTSKey_def
      handlePointerKey_def headPointerKey_def)

lemma doGCTS_ok:
  assumes "kvdb_ok (env_db env) repr" "kv_reliable (env_db env)" "list_all (\<lambda>ob. \<not> isl ob) obs"
    and "card (live repr (encodeTSKey 0) (encodeTSKey (wrap_int64 (t + 1))) (a_metadata a)) < productive a obs"
  shows "\<exists>a'. doGCTS env obs t a = Some a' \<and> a_vlog a' = gcTS t (a_vlog a) \<and>
    (\<forall>k. repr (a_metadata a') k =
       (if key_in (encodeTSKey 0) (encodeTSKey (wrap_int64 (t + 1))) k then None else repr (a_metadata a) k))"
proof -
  let ?a = "a\<lparr>a_vlog := gcTS t (a_vlog a)\<rparr>"
  let ?hi = "encodeTSKey (wrap_int64 (t + 1))"
  have "gc_inv repr (encodeTSKey 0) ?hi (encodeTSKey 0) None (a_metadata ?a)"
    by (auto simp: gc_inv_def live_def key_in_def)
  from gc_loop_ok [OF assms(1,2) this assms(3)] assms(4) show ?thesis
    by (auto simp: doGCTS_def productive_def gc_l0Trigger_def)
qed

section \<open>The storage is correct\<close>

subsection \<open>An example storage\<close>

fun tp_code :: "BinlogType \<Rightarrow> 8 word" where
  "tp_code Prewrite = 0"
| "tp_code Commit = 1"
| "tp_code Rollback = 2"
| "tp_code PreDDL = 3"
| "tp_code PostDDL = 4"

definition example_encode :: "Binlog \<Rightarrow> go_error + bytes" where
  "example_encode b = Inr (tp_code (Tp b) # word_of_int (StartTs b) # word_of_int (CommitTs b) # PrewriteValue b)"

definition example_decode :: binlog_unmarshal where
  "example_decode bs =
     (case bs of
        t # st # ct # pv \<Rightarrow>
          Inr \<lparr>Tp = (if t = 0 then Prewrite else if t = 1 then Commit else Rollback), StartTs = uint st,
             CommitTs = uint ct, PrewriteKey = [], PrewriteValue = pv, DdlQuery = [], DdlJobId = 0, DdlSchemaState = 0\<rparr>
      | _ \<Rightarrow> Inl ErrUnexpectedEOF)"

definition example_env :: "(bytes \<times> bytes) list env" where
  "example_env = \<lparr>env_db = list_db, env_marshal = example_encode, env_unmarshal = example_decode,
     env_mvcc = (\<lambda>_. MvccFailed), env_txn_status = (\<lambda>_ _. Inl ErrIO),
     env_extract_physical = (\<lambda>t. uint (drop_bit 18 t))\<rparr>"

definition example_append :: "(bytes \<times> bytes) list Append" where
  "example_append = \<lparr>a_vlog = example_vlog\<lparr>v_opt := example_opt\<lparr>ValueLogFileSize := 60\<rparr>\<rparr>, a_metadata = [],
     a_sorter = newSorter, a_latestTS = 0, a_gcTS = 0, a_gcWorking = False, a_maxCommitTS = 0,
     a_headPointer = VP 0 0, a_handlePointer = VP 0 0, a_available = 100, a_capacity = 100,
     a_options = example_opt, a_kvConfig = None, a_closed = False, a_chaser = newSlowChaser, a_timeouts = [],
     a_toKV = [], a_toSorter = []\<rparr>"

definition example_binlog :: "BinlogType \<Rightarrow> int \<Rightarrow> int \<Rightarrow> bytes \<Rightarrow> Binlog" where
  "example_binlog typ st ct pv = \<lparr>Tp = typ, StartTs = st, CommitTs = ct, PrewriteKey = [], PrewriteValue = pv,
     DdlQuery = [], DdlJobId = 0, DdlSchemaState = 0\<rparr>"

lemma list_db_reliable: "kv_reliable list_db"
  by (simp add: kv_reliable_def list_db_def)

lemma example_env_ok: "kvdb_ok (env_db example_env) map_of" "kv_reliable (env_db example_env)"
  by (simp_all add: example_env_def list_db_ok list_db_reliable)

lemma example_append_wf: "vlog_wf (a_vlog example_append)" "room 4 (a_vlog example_append)"
  by (auto simp: vlog_wf_def example_append_def example_vlog_def fresh_file_def room_def)

lemma example_codec:
  "typ \<in> {Prewrite, Commit, Rollback} \<Longrightarrow> 0 \<le> st \<Longrightarrow> st < 256 \<Longrightarrow> 0 \<le> ct \<Longrightarrow> ct < 256 \<Longrightarrow>
   b = example_binlog typ st ct pv \<Longrightarrow> example_encode b = Inr pl \<Longrightarrow> example_decode pl = Inr b"
  by (auto simp: example_encode_def example_decode_def example_binlog_def uint_word_of_int_eq take_bit_int_eq_self)

lemma card_live_list: "card (live map_of lo hi d) \<le> length d"
proof -
  have "live map_of lo hi d \<subseteq> fst ` set d" by (auto simp: live_def dest: map_of_SomeD intro: rev_image_eqI)
  then have "card (live map_of lo hi d) \<le> card (fst ` set d)" by (intro card_mono) auto
  also have "\<dots> \<le> length d" using card_image_le [of "set d" fst] card_length [of d] by (meson List.finite_set le_trans)
  finally show ?thesis .
qed

text \<open>C4. A binlog that \<^verbatim>\<open>WriteBinlog\<close> accepts and the database stage has processed reads back: \<^verbatim>\<open>GetBinlog\<close> at its
  timestamp gives the binlog.\<close>

theorem write_then_GetBinlog:
  assumes "kvdb_ok (env_db env) repr"
    and "vlog_wf (a_vlog a)" "room 2 (a_vlog a)"
    and "env_marshal env b = Inr pl" "env_unmarshal env pl = Inr b" "length pl \<le> 2 ^ 48"
    and "\<not> (StartTs b = 0 \<and> CommitTs b = 0)" "\<not> sc_on (a_chaser a)" "a_timeouts a = []"
    and "WriteBinlog env b a = (None, a1)" "small_files (a_vlog a1)"
    and "writeToKV_step env obs (length (a_toKV a1)) a1 = Some (True, a2)"
  shows "GetBinlog env a2 (binlog_ts b) = Inr b"
proof -
  obtain req where req: "writeBinlog env b a = (req, a1)" "req_err req = None"
    using assms(7,10) by (auto simp: WriteBinlog_def split: if_splits prod.splits)
  note ok = writeBinlog_ok [OF assms(2-4) req]
  have toKV: "a_toKV a1 = a_toKV a @ [req]" by (rule ok(5) [OF assms(8,9)])
  obtain a3 where a3: "writeBatchToKV env obs (a_toKV a1) (a1\<lparr>a_toKV := []\<rparr>) = Some (None, a3)"
    "a2 = a3\<lparr>a_toSorter := a_toSorter a3 @ a_toKV a1\<rparr>"
    using assms(12) by (auto simp: writeToKV_step_def Let_def split: option.splits)
  obtain d where kv: "repr d = fold kv_apply (kv_batch (a_toKV a1)) (repr (a_metadata a1))"
    "a3 = a1\<lparr>a_toKV := [], a_metadata := d, a_headPointer := req_vp (last (a_toKV a1))\<rparr>"
    using writeBatchToKV_ok [OF assms(1) a3(1)] by auto
  have "repr (a_metadata a2) (encodeTSKey (binlog_ts b)) = Some (MarshalBinary (req_vp req))"
    using kv_batch_apply(1) [of "a_toKV a1"] by (simp add: a3(2) kv toKV ok(2))
  moreover have "a_vlog a2 = a_vlog a1" by (simp add: a3(2) kv(2))
  ultimately show ?thesis
    using GetBinlog_stored [OF assms(1)] holds_at_small [OF ok(1) assms(11)]
      readValue_holds_at [OF ok(1) assms(6)] assms(5) by simp
qed

theorem write_then_GetBinlog_witness:
  "\<exists>a1 a2. WriteBinlog example_env (example_binlog Prewrite 7 0 []) example_append = (None, a1) \<and>
     writeToKV_step example_env [] 1 a1 = Some (True, a2) \<and>
     GetBinlog example_env a2 7 = Inr (example_binlog Prewrite 7 0 [])"
proof -
  let ?b = "example_binlog Prewrite 7 0 []"
  have "case WriteBinlog example_env ?b example_append of
      (err, a1) \<Rightarrow> err = None \<and> length (a_toKV a1) = 1 \<and> small_files (a_vlog a1) \<and>
        map_option fst (writeToKV_step example_env [] 1 a1) = Some True"
    by code_simp
  then obtain a1 a2 where w: "WriteBinlog example_env ?b example_append = (None, a1)" "length (a_toKV a1) = 1"
    "small_files (a_vlog a1)" and kv: "writeToKV_step example_env [] (length (a_toKV a1)) a1 = Some (True, a2)"
    by (cases "WriteBinlog example_env ?b example_append") auto
  obtain pl where pl: "env_marshal example_env ?b = Inr pl" "length pl \<le> 2 ^ 48"
    by (simp add: example_env_def example_encode_def example_binlog_def)
  have "env_unmarshal example_env pl = Inr ?b"
    using example_codec [of Prewrite 7 0 ?b "[]" pl] pl(1) by (simp add: example_env_def)
  from write_then_GetBinlog [OF example_env_ok(1) example_append_wf(1) room_mono [OF example_append_wf(2)]
      pl(1) this pl(2) _ _ _ w(1,3) kv]
  have "GetBinlog example_env a2 (binlog_ts ?b) = Inr ?b"
    by (simp add: example_binlog_def example_append_def newSlowChaser_def)
  moreover have "binlog_ts ?b = 7" by (simp add: binlog_ts_def example_binlog_def)
  ultimately show ?thesis using w(1) kv unfolding w(2) by metis
qed


text \<open>Batching loses, repeats and reorders nothing, whatever the timing of the channel: the batches written to the
  value log and to the database are the received requests cut into non-empty pieces, those of the database
  of at most 128.\<close>

theorem batches_lossless:
  "concat (vlog_batches [] 0 False evs) = requests_of evs \<and>
   concat (kv_batches 128 [] False evs) = requests_of evs \<and>
   list_all (\<lambda>batch. batch \<noteq> []) (vlog_batches [] 0 False evs) \<and>
   list_all (\<lambda>batch. batch \<noteq> [] \<and> length batch \<le> 128) (kv_batches 128 [] False evs)"
  by (simp add: vlog_batches_concat kv_batches_concat vlog_batches_nonempty kv_batches_size)

definition example_pointers :: "(bytes \<times> bytes) list" where
  "example_pointers = [(encodeTSKey 5, [1]), (gcTSKey, [2]), (encodeTSKey 9, [3])]"


end
