(* ===== verification/StorageRead.thy ===== *)
theory StorageRead
  imports StorageProps
begin

text \<open>
  What a reader of the storage gets: \<^verbatim>\<open>PullCommitBinlog\<close> delivers the commits of its window in timestamp
  order, each completed from its prewrite.
\<close>

section \<open>The keys of the database\<close>

definition ts_keyed :: "(bytes \<rightharpoonup> bytes) \<Rightarrow> bool" where
  "ts_keyed m \<longleftrightarrow> dom m \<subseteq> {gcTSKey, maxCommitTSKey, handlePointerKey, headPointerKey} \<union> encodeTSKey ` {t. int64_range t}"

lemma int64_range_u64: "\<exists>t. int64_range t \<and> u64_of_int64 x = u64_of_int64 t"
proof -
  have "int64_range (wrap_int64 x)"
    using signed_take_bit_int_greater_eq_minus_exp [of 63 x] signed_take_bit_int_less_exp [of 63 x]
    by (simp add: wrap_int64_def int64_range_def)
  moreover have "u64_of_int64 x = u64_of_int64 (wrap_int64 x)"
    by (rule bit_word_eqI) (simp add: wrap_int64_def bit_word_of_int_iff bit_signed_take_bit_iff)
  ultimately show ?thesis by blast
qed

lemma encodeTSKey_range: "encodeTSKey x \<in> encodeTSKey ` {t. int64_range t}"
  using int64_range_u64 [of x] by (force simp: encodeTSKey_def)

lemma ts_keyed_update [simp]:
  "ts_keyed m \<Longrightarrow> ts_keyed (m(encodeTSKey t \<mapsto> v))" "ts_keyed m \<Longrightarrow> ts_keyed (m(gcTSKey \<mapsto> v))"
  "ts_keyed m \<Longrightarrow> ts_keyed (m(maxCommitTSKey \<mapsto> v))" "ts_keyed m \<Longrightarrow> ts_keyed (m(handlePointerKey \<mapsto> v))"
  "ts_keyed m \<Longrightarrow> ts_keyed (m(headPointerKey \<mapsto> v))" "ts_keyed m \<Longrightarrow> ts_keyed (m(k := None))"
  using encodeTSKey_range [of t] by (auto simp: ts_keyed_def)

section \<open>Pulling commits\<close>

text \<open>What a reader expects for a timestamp: the binlog stored there if it is not a prewrite, completed from the
  prewrite at its start timestamp unless it is a fake one.\<close>

definition committed_at :: "'db env \<Rightarrow> 'db Append \<Rightarrow> int \<Rightarrow> bytes \<Rightarrow> bool" where
  "committed_at env a t pv \<longleftrightarrow>
     (\<exists>b. GetBinlog env a t = Inr b \<and> Tp b \<noteq> Prewrite \<and>
        (if CommitTs b = StartTs b then env_marshal env b = Inr pv
         else \<exists>p. GetBinlog env a (StartTs b) = Inr p \<and>
           env_marshal env (b\<lparr>StartTs := StartTs p, PrewriteValue := PrewriteValue p, DdlQuery := DdlQuery p,
             DdlJobId := DdlJobId p, DdlSchemaState := DdlSchemaState p\<rparr>) = Inr pv))"

definition sent_for :: "'db env \<Rightarrow> 'db Append \<Rightarrow> bytes \<Rightarrow> bytes option" where
  "sent_for env a v = (case pull_entry env a v of PullSend pv \<Rightarrow> Some pv | _ \<Rightarrow> None)"

lemma feedPreWriteValue_eq:
  "feedPreWriteValue env a b =
     (case GetBinlog env a (StartTs b) of
        Inl e \<Rightarrow> Inl e
      | Inr p \<Rightarrow> Inr (b\<lparr>StartTs := StartTs p, PrewriteValue := PrewriteValue p, DdlQuery := DdlQuery p,
                        DdlJobId := DdlJobId p, DdlSchemaState := DdlSchemaState p\<rparr>))"
  by (simp add: feedPreWriteValue_def GetBinlog_def readBinlogByTS_def split: sum.split)

lemma sent_for_committed:
  assumes "kvdb_ok (env_db env) repr" "repr (a_metadata a) (encodeTSKey t) = Some v"
  shows "sent_for env a v = Some pv \<longleftrightarrow> committed_at env a t pv"
proof -
  have "GetBinlog env a t =
      (case UnmarshalBinary v of Inl e \<Rightarrow> Inl e | Inr vp \<Rightarrow>
      (case readValue (a_vlog a) vp of Inl e \<Rightarrow> Inl e | Inr pvalue \<Rightarrow> env_unmarshal env pvalue))"
    using assms by (simp add: GetBinlog_def readBinlogByTS_def kv_get_ok [OF assms(1)])
  then show ?thesis
    by (auto simp: sent_for_def pull_entry_def committed_at_def feedPreWriteValue_eq split: sum.splits if_splits)
qed

lemma committed_at_stored:
  assumes "kvdb_ok (env_db env) repr" "committed_at env a t pv"
  shows "\<exists>v. repr (a_metadata a) (encodeTSKey t) = Some v"
  using assms(2) by (auto simp: committed_at_def GetBinlog_def readBinlogByTS_def kv_get_ok [OF assms(1)]
      split: option.splits)

definition sent_entries :: "'db env \<Rightarrow> 'db Append \<Rightarrow> (int \<times> bytes) list \<Rightarrow> (int \<times> bytes) list" where
  "sent_entries env a tvs = filter (\<lambda>tv. sent_for env a (snd tv) \<noteq> None) tvs"

lemma sent_entries_simps [simp]:
  "sent_entries env a [] = []"
  "sent_entries env a (tv # tvs) = (if sent_for env a (snd tv) = None then [] else [tv]) @ sent_entries env a tvs"
  by (simp_all add: sent_entries_def)

lemma pull_scan_ok:
  assumes "pull_scan env a budget lastTS (map (\<lambda>(t, v). (encodeTSKey t, v)) tvs) = (go_on, last', vals)"
    and "list_all (\<lambda>(t, v). int64_range t) tvs"
  shows "\<exists>pre suf. tvs = pre @ suf \<and> (go_on \<longrightarrow> suf = []) \<and>
    map Some vals = map (sent_for env a \<circ> snd) (sent_entries env a pre) \<and>
    last' = last (lastTS # map fst (sent_entries env a pre))"
  using assms
proof (induction tvs arbitrary: budget lastTS vals)
  case Nil
  then show ?case by auto
next
  case (Cons tv tvs)
  obtain t v where tv: "tv = (t, v)" "int64_range t" using Cons.prems(2) by (cases tv) auto
  have tvs: "list_all (\<lambda>(t, v). int64_range t) tvs" using Cons.prems(2) by simp
  have stop: ?case if "vals = []" "\<not> go_on" "last' = lastTS"
    using that by (intro exI [of _ "[]"] exI [of _ "tv # tvs"]) auto
  show ?case
  proof (cases "pull_entry env a v")
    case PullSkip
    with tv Cons.prems have "pull_scan env a budget lastTS (map (\<lambda>(t, v). (encodeTSKey t, v)) tvs) = (go_on, last', vals)"
      by simp
    from Cons.IH [OF this tvs] obtain pre suf where "tvs = pre @ suf" "go_on \<longrightarrow> suf = []"
      "map Some vals = map (sent_for env a \<circ> snd) (sent_entries env a pre)"
      "last' = last (lastTS # map fst (sent_entries env a pre))" by (elim exE conjE)
    then show ?thesis using PullSkip tv by (intro exI [of _ "tv # pre"] exI [of _ suf]) (auto simp: sent_for_def)
  next
    case (PullStop e)
    with tv Cons.prems show ?thesis by (intro stop) auto
  next
    case (PullSend pv)
    show ?thesis
    proof (cases "budget = Some 0")
      case True
      with PullSend tv Cons.prems show ?thesis by (intro stop) auto
    next
      case False
      with PullSend tv Cons.prems obtain rest where
        r: "pull_scan env a (map_option (\<lambda>n. n - 1) budget) t (map (\<lambda>(t, v). (encodeTSKey t, v)) tvs) = (go_on, last', rest)"
        "vals = pv # rest" by (auto split: prod.splits)
      from Cons.IH [OF r(1) tvs] obtain pre suf where "tvs = pre @ suf" "go_on \<longrightarrow> suf = []"
        "map Some rest = map (sent_for env a \<circ> snd) (sent_entries env a pre)"
        "last' = last (t # map fst (sent_entries env a pre))" by (elim exE conjE)
      then show ?thesis using PullSend tv r(2)
        by (intro exI [of _ "tv # pre"] exI [of _ suf]) (auto simp: sent_for_def)
    qed
  qed
qed

text \<open>The entries of an iterator over a window of timestamps.\<close>

lemma kv_range_ts:
  assumes ok: "kvdb_ok db repr" and keyed: "ts_keyed (repr d)"
    and s: "0 \<le> s" "int64_range s" and l: "0 \<le> l" "int64_range l"
  obtains tvs where "kv_range db (encodeTSKey s) (encodeTSKey l) d = map (\<lambda>(t, v). (encodeTSKey t, v)) tvs"
    "sorted_wrt (<) (map fst tvs)" "list_all (\<lambda>(t, v). int64_range t) tvs"
    "set tvs = {(t, v). s \<le> t \<and> t < l \<and> repr d (encodeTSKey t) = Some v}"
proof -
  let ?r = "kv_range db (encodeTSKey s) (encodeTSKey l) d"
  define tvs where "tvs = map (\<lambda>(k, v). (projr (decodeTSKey k), v)) ?r"
  have key: "\<exists>t. k = encodeTSKey t \<and> s \<le> t \<and> t < l \<and> int64_range t" if "(k, v) \<in> set ?r" for k v
  proof -
    have k: "repr d k = Some v" "\<not> bytes_less k (encodeTSKey s)" "bytes_less k (encodeTSKey l)"
      using that by (auto simp: kv_range_ok [OF ok])
    then obtain t where t: "k = encodeTSKey t" "int64_range t"
      using keyed by (auto simp: ts_keyed_def)
    have "0 \<le> t"
    proof (rule ccontr)
      assume "\<not> 0 \<le> t"
      then have "uint (u64_of_int64 t) = t + 2 ^ 64" "uint (u64_of_int64 l) = l"
        using uint_u64_of_neg t(2) uint_u64_of_nonneg l by auto
      moreover have "(2 :: int) ^ 64 = 2 * 2 ^ 63" by simp
      ultimately have "\<not> u64_of_int64 t < u64_of_int64 l"
        using t(2) l unfolding word_less_def int64_range_def by linarith
      with k(3) t(1) show False by (simp add: bytes_less_encodeTSKey)
    qed
    with k t show ?thesis
      by (auto simp: bytes_less_encodeTSKey u64_less_nonneg s l)
  qed
  have "?r = map (\<lambda>(t, v). (encodeTSKey t, v)) tvs"
    unfolding tvs_def map_map using key by (intro map_idI [symmetric]) fastforce
  moreover have rng: "list_all (\<lambda>(t, v). int64_range t \<and> 0 \<le> t) tvs"
    using key s(1) by (fastforce simp: tvs_def list_all_iff)
  moreover have "sorted_wrt (<) (map fst tvs)"
  proof -
    have "sorted_wrt (\<lambda>p q. bytes_less (fst p) (fst q)) (map (\<lambda>(t, v). (encodeTSKey t, v)) tvs)"
      using kv_range_ok(1) [OF ok] calculation(1) by metis
    then have "sorted_wrt (\<lambda>p q. bytes_less (encodeTSKey (fst p)) (encodeTSKey (fst q))) tvs"
      by (simp add: sorted_wrt_map case_prod_unfold)
    moreover have "fst p < fst q" if "p \<in> set tvs" "q \<in> set tvs" "bytes_less (encodeTSKey (fst p)) (encodeTSKey (fst q))" for p q
      using that rng u64_less_nonneg [of "fst p" "fst q"]
      by (auto simp: list_all_iff case_prod_unfold bytes_less_encodeTSKey)
    ultimately have "sorted_wrt (\<lambda>p q. fst p < fst q) tvs" by (rule sorted_wrt_mono_rel [rotated]) blast
    then show ?thesis by (simp add: sorted_wrt_map)
  qed
  moreover have "set tvs = {(t, v). s \<le> t \<and> t < l \<and> repr d (encodeTSKey t) = Some v}"
  proof -
    have "(t, v) \<in> set tvs \<longleftrightarrow> s \<le> t \<and> t < l \<and> repr d (encodeTSKey t) = Some v" for t v
    proof
      assume "(t, v) \<in> set tvs"
      then obtain k where k: "(k, v) \<in> set ?r" "t = projr (decodeTSKey k)" by (auto simp: tvs_def)
      with key [OF k(1)] show "s \<le> t \<and> t < l \<and> repr d (encodeTSKey t) = Some v"
        by (auto simp: kv_range_ok [OF ok])
    next
      assume t: "s \<le> t \<and> t < l \<and> repr d (encodeTSKey t) = Some v"
      then have r: "0 \<le> t" "int64_range t" using s l by (auto simp: int64_range_def)
      with t have "(encodeTSKey t, v) \<in> set ?r"
        by (simp add: kv_range_ok [OF ok] bytes_less_encodeTSKey u64_less_nonneg s l)
      then show "(t, v) \<in> set tvs" using r(2) by (force simp: tvs_def)
    qed
    then show ?thesis by auto
  qed
  ultimately show ?thesis using that by (auto simp: list_all_iff)
qed

text \<open>The state of a storage as a reader may meet it.\<close>

definition readable :: "'db env \<Rightarrow> ('db \<Rightarrow> bytes \<rightharpoonup> bytes) \<Rightarrow> 'db Append \<Rightarrow> bool" where
  "readable env repr a \<longleftrightarrow> kvdb_ok (env_db env) repr \<and> ts_keyed (repr (a_metadata a)) \<and>
     0 \<le> a_maxCommitTS a \<and> int64_range (a_maxCommitTS a + 1)"

lemma pull_round_ok:
  assumes "readable env repr a" "0 \<le> lastTS" "int64_range (lastTS + 1)"
    and "pull_round env a budget lastTS = (go_on, last', vals)"
  shows "\<exists>tss. sorted_wrt (<) tss \<and> list_all2 (committed_at env a) tss vals \<and>
    set tss \<subseteq> {lastTS <.. a_maxCommitTS a} \<and>
    (go_on \<longrightarrow> set tss = {t. lastTS < t \<and> t \<le> a_maxCommitTS a \<and> (\<exists>pv. committed_at env a t pv)}) \<and>
    last' = last (lastTS # tss)"
proof (cases "lastTS > a_maxCommitTS a")
  case True
  with assms show ?thesis by (intro exI [of _ "[]"]) (auto simp: pull_round_def readable_def Let_def)
next
  case False
  have a: "kvdb_ok (env_db env) repr" "ts_keyed (repr (a_metadata a))" "0 \<le> a_maxCommitTS a + 1"
    "int64_range (a_maxCommitTS a + 1)" using assms(1) by (auto simp: readable_def)
  obtain tvs where tvs: "kv_range (env_db env) (encodeTSKey (lastTS + 1)) (encodeTSKey (a_maxCommitTS a + 1)) (a_metadata a) =
      map (\<lambda>(t, v). (encodeTSKey t, v)) tvs"
    "sorted_wrt (<) (map fst tvs)" "list_all (\<lambda>(t, v). int64_range t) tvs"
    "set tvs = {(t, v). lastTS + 1 \<le> t \<and> t < a_maxCommitTS a + 1 \<and> repr (a_metadata a) (encodeTSKey t) = Some v}"
    by (rule kv_range_ts [OF a(1,2) _ assms(3) a(3,4)]) (use assms(2) in simp_all)
  have "pull_scan env a budget lastTS (map (\<lambda>(t, v). (encodeTSKey t, v)) tvs) = (go_on, last', vals)"
    using assms(3,4) False a(4) by (simp add: pull_round_def Let_def tvs(1))
  from pull_scan_ok [OF this tvs(3)] obtain pre suf where pre: "tvs = pre @ suf" "go_on \<longrightarrow> suf = []"
    "map Some vals = map (sent_for env a \<circ> snd) (sent_entries env a pre)"
    "last' = last (lastTS # map fst (sent_entries env a pre))" by (elim exE conjE)
  let ?tss = "map fst (sent_entries env a pre)"
  have stored: "repr (a_metadata a) (encodeTSKey t) = Some v" "lastTS < t" "t \<le> a_maxCommitTS a" if "(t, v) \<in> set pre" for t v
  proof -
    have "(t, v) \<in> set tvs" using that pre(1) by simp
    then show "repr (a_metadata a) (encodeTSKey t) = Some v" "lastTS < t" "t \<le> a_maxCommitTS a" unfolding tvs(4) by auto
  qed
  have "sorted_wrt (<) ?tss"
    using tvs(2) unfolding pre(1) by (simp add: sent_entries_def sorted_wrt_append sorted_wrt_map sorted_wrt_filter)
  moreover have "list_all2 (committed_at env a) ?tss vals"
    unfolding list_all2_conv_all_nth
  proof (intro conjI allI impI)
    show "length ?tss = length vals" using arg_cong [OF pre(3), of length] by simp
    fix i assume i: "i < length ?tss"
    then have e: "sent_entries env a pre ! i \<in> set pre" using nth_mem [of i "sent_entries env a pre"] by (simp add: sent_entries_def)
    have "sent_for env a (snd (sent_entries env a pre ! i)) = Some (vals ! i)"
      using arg_cong [OF pre(3), of "\<lambda>xs. xs ! i"] i \<open>length ?tss = length vals\<close> by simp
    moreover have "repr (a_metadata a) (encodeTSKey (fst (sent_entries env a pre ! i))) = Some (snd (sent_entries env a pre ! i))"
      using stored(1) [of "fst (sent_entries env a pre ! i)" "snd (sent_entries env a pre ! i)"] e by simp
    ultimately show "committed_at env a (?tss ! i) (vals ! i)"
      using sent_for_committed [OF a(1)] i by simp
  qed
  moreover have "set ?tss \<subseteq> {lastTS <.. a_maxCommitTS a}"
    using stored by (auto simp: sent_entries_def)
  moreover have "go_on \<longrightarrow> set ?tss = {t. lastTS < t \<and> t \<le> a_maxCommitTS a \<and> (\<exists>pv. committed_at env a t pv)}"
  proof
    assume go_on
    then have pre_eq: "pre = tvs" using pre(1,2) by simp
    have "t \<in> set ?tss \<longleftrightarrow> lastTS < t \<and> t \<le> a_maxCommitTS a \<and> (\<exists>pv. committed_at env a t pv)" for t
    proof -
      have "t \<in> set ?tss \<longleftrightarrow> (\<exists>v. (t, v) \<in> set tvs \<and> sent_for env a v \<noteq> None)"
        unfolding pre_eq sent_entries_def by force
      also have "\<dots> \<longleftrightarrow> lastTS < t \<and> t \<le> a_maxCommitTS a \<and>
          (\<exists>v. repr (a_metadata a) (encodeTSKey t) = Some v \<and> (\<exists>pv. sent_for env a v = Some pv))"
        unfolding tvs(4) by auto
      also have "(\<exists>v. repr (a_metadata a) (encodeTSKey t) = Some v \<and> (\<exists>pv. sent_for env a v = Some pv)) \<longleftrightarrow>
          (\<exists>pv. committed_at env a t pv)"
        using sent_for_committed [OF a(1), of a t] committed_at_stored [OF a(1), of a t] by blast
      finally show ?thesis .
    qed
    then show "set ?tss = {t. lastTS < t \<and> t \<le> a_maxCommitTS a \<and> (\<exists>pv. committed_at env a t pv)}" by blast
  qed
  ultimately show ?thesis using pre(4) by blast
qed

lemma pull_rounds_ok:
  assumes "list_all (\<lambda>(a, _). readable env repr a) rounds" "0 \<le> lastTS" "int64_range (lastTS + 1)"
  shows "\<exists>tss. sorted_wrt (<) tss \<and> (\<forall>t\<in>set tss. lastTS < t) \<and>
    list_all2 (\<lambda>t pv. \<exists>(a, _)\<in>set rounds. t \<le> a_maxCommitTS a \<and> committed_at env a t pv) tss
      (pull_rounds env lastTS rounds)"
  using assms
proof (induction env lastTS rounds rule: pull_rounds.induct)
  case (2 env lastTS a budget rounds)
  obtain go_on last' vals where r: "pull_round env a budget lastTS = (go_on, last', vals)" by (metis prod_cases3)
  from pull_round_ok [OF _ 2(3,4) r] 2(2) obtain tss where tss: "sorted_wrt (<) tss"
    "list_all2 (committed_at env a) tss vals" "set tss \<subseteq> {lastTS <.. a_maxCommitTS a}" "last' = last (lastTS # tss)"
    by auto
  have last': "lastTS \<le> last'" "\<And>t. t \<in> set tss \<Longrightarrow> t \<le> last'" "last' = lastTS \<or> last' \<le> a_maxCommitTS a"
    using tss(1,3,4) by (cases tss rule: rev_cases; force simp: sorted_wrt_append)+
  have here: "list_all2 (\<lambda>t pv. \<exists>(a, _)\<in>set ((a, budget) # rounds). t \<le> a_maxCommitTS a \<and> committed_at env a t pv) tss vals"
    using tss(2,3) by (auto simp: list_all2_conv_all_nth dest!: subsetD [OF _ nth_mem])
  show ?case
  proof (cases go_on)
    case True
    have "0 \<le> last'" "int64_range (last' + 1)"
      using last' 2(2-4) by (auto simp: readable_def int64_range_def)
    with 2(1) [OF r [symmetric] refl True] 2(2) obtain tss' where tss': "sorted_wrt (<) tss'" "\<forall>t\<in>set tss'. last' < t"
      "list_all2 (\<lambda>t pv. \<exists>(a, _)\<in>set rounds. t \<le> a_maxCommitTS a \<and> committed_at env a t pv) tss' (pull_rounds env last' rounds)"
      by auto
    have "list_all2 (\<lambda>t pv. \<exists>(a, _)\<in>set ((a, budget) # rounds). t \<le> a_maxCommitTS a \<and> committed_at env a t pv) tss'
        (pull_rounds env last' rounds)"
      by (rule list_all2_mono [OF tss'(3)]) auto
    with here have "list_all2 (\<lambda>t pv. \<exists>(a, _)\<in>set ((a, budget) # rounds). t \<le> a_maxCommitTS a \<and> committed_at env a t pv)
        (tss @ tss') (vals @ pull_rounds env last' rounds)"
      by (rule list_all2_appendI)
    moreover have "sorted_wrt (<) (tss @ tss')" using tss(1) tss'(1,2) last'(2) by (fastforce simp: sorted_wrt_append)
    moreover have "\<forall>t\<in>set (tss @ tss'). lastTS < t" using tss(3) tss'(2) last'(1) by auto
    ultimately show ?thesis using True r by (auto simp del: list_all2_append)
  next
    case False
    with here tss(1,3) r show ?thesis by (intro exI [of _ tss]) auto
  qed
qed simp

text \<open>A storage with a transaction that started at 7 and committed at 9.\<close>

definition example_read :: "(bytes \<times> bytes) list Append" where
  "example_read = example_append\<lparr>
     a_vlog := example_vlog\<lparr>v_filesMap := [(0, (fresh_file 0)\<lparr>lf_fd := frame [0, 7, 0, 5] @ frame [1, 7, 9]\<rparr>)]\<rparr>,
     a_metadata := [(encodeTSKey 7, MarshalBinary (VP 0 0)), (encodeTSKey 9, MarshalBinary (VP 0 20))],
     a_maxCommitTS := 9\<rparr>"

lemma example_read_ok: "readable example_env map_of example_read"
  using encodeTSKey_range by (auto simp: readable_def example_env_ok example_read_def ts_keyed_def int64_range_def)

lemma example_read_round: "pull_round example_env example_read None 0 = (True, 9, [[1, 7, 9, 5]])"
  by code_simp





end
