(* ===== verification/StorageInv.thy ===== *)
theory StorageInv
  imports StorageRead
begin

text \<open>
  The steps of a running storage and what they keep: the published timestamps only grow, garbage
  collection stays below \<^verbatim>\<open>maxCommitTS\<close>, the keys of the database keep their form. The recovery of lost
  commits and its unnoticed error.
\<close>

section \<open>What every step keeps\<close>

text \<open>The steps of a running storage; the first component is the local state of \<^verbatim>\<open>handleSortItem\<close>.\<close>

inductive storage_step ::
  "'db env \<Rightarrow> sortItem option \<times> 'db Append \<Rightarrow> sortItem option \<times> 'db Append \<Rightarrow> bool" for env where
  st_write: "write_batch env batch a = (reqs, a') \<Longrightarrow> storage_step env (sv, a) (sv, a')"
| st_kv: "writeToKV_step env obs n a = Some (go_on, a') \<Longrightarrow> storage_step env (sv, a) (sv, a')"
| st_sorter: "storage_step env (sv, a) (sv, writeToSorter_step a)"
| st_run: "storage_step env (sv, a) (sv, a\<lparr>a_sorter := run_step elapsed resolver (a_sorter a)\<rparr>)"
| st_resolve: "resolve env st a = (answer, a') \<Longrightarrow> storage_step env (sv, a) (sv, a')"
| st_handle: "storage_step env (sv, a) (handleSortItem_step env ev (sv, a))"
| st_status: "storage_step env (sv, a) (sv, updateStatus_step sev a)"
| st_gc: "GC env t a = (a', worker) \<Longrightarrow> storage_step env (sv, a) (sv, a')"
| st_worker: "gc_worker env obs t a = Some a' \<Longrightarrow> storage_step env (sv, a) (sv, a')"
| st_chase: "storage_step env (sv, a) (sv, chase_step env budget a)"
| st_recover: "storage_step env (sv, a) (sv, recover_step env budget a)"

text \<open>An update of the database by operations on the keys of the storage.\<close>

definition own_key :: "bytes \<Rightarrow> bool" where
  "own_key k \<longleftrightarrow> k \<in> {gcTSKey, maxCommitTSKey, handlePointerKey, headPointerKey} \<union> range encodeTSKey"

lemma ts_keyed_own: "ts_keyed m \<longleftrightarrow> (\<forall>k\<in>dom m. own_key k)"
proof -
  have eq: "encodeTSKey ` {t. int64_range t} = range encodeTSKey" using encodeTSKey_range by blast
  show ?thesis unfolding ts_keyed_def own_key_def eq by blast
qed

lemma ts_keyed_write:
  assumes "kvdb_ok db repr" "ts_keyed (repr d)" "\<forall>op\<in>set ops. own_key (key_of op)"
  shows "ts_keyed (repr (snd (kv_write db ops d)))"
proof -
  have "own_key k" if "repr (snd (kv_write db ops d)) k \<noteq> None" for k
    using kv_write_other [OF assms(1), of k ops d] assms(2,3) that by (fastforce simp: ts_keyed_own)
  then show ?thesis by (auto simp: ts_keyed_own)
qed

text \<open>What a step leaves alone: the published timestamps, and the form of the keys.\<close>

definition quiet :: "'db env \<Rightarrow> ('db \<Rightarrow> bytes \<rightharpoonup> bytes) \<Rightarrow> 'db Append \<Rightarrow> 'db Append \<Rightarrow> bool" where
  "quiet env repr a a' \<longleftrightarrow> a_gcTS a' = a_gcTS a \<and> a_maxCommitTS a' = a_maxCommitTS a \<and>
     (kvdb_ok (env_db env) repr \<and> ts_keyed (repr (a_metadata a)) \<longrightarrow> ts_keyed (repr (a_metadata a')))"

lemma quiet_refl [simp]: "quiet env repr a a"
  by (simp add: quiet_def)

lemma quiet_trans: "quiet env repr a b \<Longrightarrow> quiet env repr b c \<Longrightarrow> quiet env repr a c"
  by (auto simp: quiet_def)

lemma quiet_write:
  "\<forall>op\<in>set ops. own_key (key_of op) \<Longrightarrow> kv_write (env_db env) ops (a_metadata a) = (err, d) \<Longrightarrow>
     quiet env repr a (a\<lparr>a_metadata := d\<rparr>)"
  unfolding quiet_def using ts_keyed_write [of "env_db env" repr "a_metadata a" ops] by auto

lemma quiet_put: "own_key k \<Longrightarrow> kv_put env k v a = (err, a') \<Longrightarrow> quiet env repr a a'"
  by (auto simp: kv_put_def split: prod.splits intro!: quiet_write [of "[KPut k v]"])

lemma own_keys [simp]:
  "own_key (encodeTSKey t)" "own_key gcTSKey" "own_key maxCommitTSKey" "own_key handlePointerKey" "own_key headPointerKey"
  by (auto simp: own_key_def)

lemma quiet_write_batch: "write_batch env batch a = (reqs, a') \<Longrightarrow> quiet env repr a a'"
  by (auto simp: write_batch_def Let_def quiet_def split: if_splits prod.splits option.splits)

lemma quiet_writeBinlog: "writeBinlog env b a = (req, a') \<Longrightarrow> quiet env repr a a'"
  by (auto simp: writeBinlog_def split: sum.splits prod.splits dest!: quiet_write_batch)

lemma writeBatchToKV_cases:
  assumes "writeBatchToKV env obs bufReqs a = Some (err, a')"
  obtains (last) err' d hp where "kv_write (env_db env) (kv_batch bufReqs) (a_metadata a) = (err', d)"
      "a' = a\<lparr>a_metadata := d, a_headPointer := hp\<rparr>"
  | (retry) e d obs' where "kv_write (env_db env) (kv_batch bufReqs) (a_metadata a) = (Some e, d)"
      "obs = False # obs'" "writeBatchToKV env obs' bufReqs (a\<lparr>a_metadata := d\<rparr>) = Some (err, a')"
proof -
  obtain err' d where w: "kv_write (env_db env) (kv_batch bufReqs) (a_metadata a) = (err', d)" by fastforce
  have self: "a\<lparr>a_metadata := d\<rparr> = a\<lparr>a_metadata := d, a_headPointer := a_headPointer a\<rparr>" by simp
  show ?thesis
  proof (cases err')
    case None
    with assms w have "a' = a\<lparr>a_metadata := d, a_headPointer := if bufReqs = [] then a_headPointer a else req_vp (last bufReqs)\<rparr>"
      by (subst (asm) writeBatchToKV.simps) (auto simp: Let_def split: if_splits)
    with w show ?thesis by (rule last)
  next
    case (Some e)
    show ?thesis
    proof (cases obs)
      case Nil
      with assms w Some show ?thesis by (subst (asm) writeBatchToKV.simps) (simp add: Let_def)
    next
      case (Cons c obs')
      show ?thesis
      proof (cases c)
        case True
        with assms w Some Cons have "a' = a\<lparr>a_metadata := d\<rparr>"
          by (subst (asm) writeBatchToKV.simps) (simp add: Let_def)
        with self w show ?thesis using last by metis
      next
        case False
        with assms w Some Cons have "writeBatchToKV env obs' bufReqs (a\<lparr>a_metadata := d\<rparr>) = Some (err, a')"
          by (subst (asm) writeBatchToKV.simps) (simp add: Let_def)
        with w Some Cons False show ?thesis using retry by simp
      qed
    qed
  qed
qed

lemma quiet_batchToKV:
  assumes "writeBatchToKV env obs bufReqs a = Some (err, a')"
  shows "quiet env repr a a'"
proof -
  have own: "\<forall>op\<in>set (kv_batch bufReqs). own_key (key_of op)" by (auto simp: kv_batch_def)
  from assms show ?thesis
  proof (induction obs arbitrary: a)
    case Nil
    from Nil.prems show ?case
    proof (cases rule: writeBatchToKV_cases)
      case (last err' d hp)
      with quiet_write [OF own last(1), of repr] show ?thesis by (simp add: quiet_def)
    qed simp
  next
    case (Cons c obs)
    from Cons.prems show ?case
    proof (cases rule: writeBatchToKV_cases)
      case (last err' d hp)
      with quiet_write [OF own last(1), of repr] show ?thesis by (simp add: quiet_def)
    next
      case (retry e d obs')
      then show ?thesis using quiet_trans [OF quiet_write [OF own retry(1)] Cons.IH] by simp
    qed
  qed
qed

lemma quiet_queues [simp]:
  "quiet env repr (a\<lparr>a_toKV := q\<rparr>) a' = quiet env repr a a'" "quiet env repr a (a'\<lparr>a_toSorter := q\<rparr>) = quiet env repr a a'"
  "quiet env repr a (a'\<lparr>a_handlePointer := hp\<rparr>) = quiet env repr a a'"
  by (simp_all add: quiet_def)

lemma quiet_kv:
  assumes "writeToKV_step env obs n a = Some (go_on, a')"
  shows "quiet env repr a a'"
proof -
  let ?a = "a\<lparr>a_toKV := drop n (a_toKV a)\<rparr>"
  obtain err a1 where w: "writeBatchToKV env obs (take n (a_toKV a)) ?a = Some (err, a1)"
    using assms by (cases "writeBatchToKV env obs (take n (a_toKV a)) ?a") (auto simp: writeToKV_step_def Let_def)
  have "quiet env repr a a1" using quiet_batchToKV [OF w, of repr] by simp
  then show ?thesis using assms w by (cases err) (auto simp: writeToKV_step_def Let_def)
qed

lemma quiet_persist:
  assumes "persistHandlePointer env item a = (err, a')"
  shows "quiet env repr a a'"
proof -
  let ?ops = "\<lambda>pd. [KPut maxCommitTSKey (put_le 8 (u64_of_int64 (si_commit item))), KPut handlePointerKey pd]"
  have own: "\<forall>op\<in>set (?ops pd). own_key (key_of op)" for pd by simp
  show ?thesis
  proof (cases "kv_get (env_db env) (a_metadata a) (encodeTSKey (si_commit item))")
    case (Inl e)
    with assms show ?thesis by (simp add: persistHandlePointer_def)
  next
    case g: (Inr pd)
    show ?thesis
    proof (cases "UnmarshalBinary pd")
      case (Inl e)
      with assms g show ?thesis by (simp add: persistHandlePointer_def)
    next
      case (Inr vp)
      obtain err' d where w: "kv_write (env_db env) (?ops pd) (a_metadata a) = (err', d)" by fastforce
      with assms g Inr quiet_write [OF own w, of repr] show ?thesis
        by (cases err') (auto simp: persistHandlePointer_def)
    qed
  qed
qed

lemma quiet_gc_scan:
  "gc_scan env n batch lastKey entries a = (n', batch', lastKey', es', a') \<Longrightarrow>
   \<forall>k\<in>set batch. own_key k \<Longrightarrow> \<forall>e\<in>set entries. own_key (fst e) \<Longrightarrow>
   quiet env repr a a' \<and> (\<forall>k\<in>set batch'. own_key k) \<and> (\<forall>e\<in>set es'. own_key (fst e))"
proof (induction entries arbitrary: n batch lastKey a)
  case (Cons e entries)
  obtain k v where e: "e = (k, v)" by (cases e)
  from Cons.prems(1) [unfolded e] show ?case
  proof (cases rule: gc_scan_cases)
    case (flush err d)
    have "\<forall>op\<in>set (map KDelete (batch @ [k])). own_key (key_of op)" using Cons.prems(2,3) e by auto
    from quiet_write [OF this flush(3), of repr] Cons.IH [OF flush(4)] Cons.prems(3) show ?thesis
      by (auto dest: quiet_trans)
  next
    case add
    with Cons.IH [OF add(2)] Cons.prems(2,3) e show ?thesis by auto
  qed (use Cons.prems(2,3) e in auto)
qed auto

lemma quiet_gc_loop:
  assumes "gc_loop env limit obs start iter a = Some a'" "kvdb_ok (env_db env) repr" "ts_keyed (repr (a_metadata a))"
    and "\<forall>es. iter = Some es \<longrightarrow> (\<forall>e\<in>set es. own_key (fst e))"
  shows "quiet env repr a a'"
  using assms
proof (induction env limit obs start iter a rule: gc_loop.induct)
  case (3 env limit l0Num obs start iter a)
  define es where "es = (case iter of None \<Rightarrow> kv_range (env_db env) start limit (a_metadata a) | Some es \<Rightarrow> es)"
  have own: "\<forall>e\<in>set es. own_key (fst e)"
    using 3(4-6) by (auto simp: es_def kv_range_ok [OF 3(4)] ts_keyed_own split: option.splits)
  show ?case
  proof (cases "gc_l0Trigger a \<le> l0Num")
    case True
    with 3(1) [OF True] 3(3-6) show ?thesis by simp
  next
    case False
    obtain m batch lastKey es' a1 where sc: "gc_scan env 0 [] None es a = (m, batch, lastKey, es', a1)"
      by (metis prod_cases5)
    have q: "quiet env repr a a1" "\<forall>k\<in>set batch. own_key k" "\<forall>e\<in>set es'. own_key (fst e)"
      using quiet_gc_scan [OF sc _ own, of repr] by auto
    show ?thesis
    proof (cases "m < 100")
      case True
      obtain err d where w: "kv_write (env_db env) (map KDelete batch) (a_metadata a1) = (err, d)" by fastforce
      have "quiet env repr a1 (a1\<lparr>a_metadata := d\<rparr>)" by (rule quiet_write [OF _ w]) (use q(2) in auto)
      from quiet_trans [OF q(1) this] q(1) 3(3) False sc True w show ?thesis
        by (auto simp: es_def [symmetric] split: if_splits)
    next
      case m: False
      have keyed: "ts_keyed (repr (a_metadata a1))" using q(1) 3(4,5) by (simp add: quiet_def)
      have "gc_loop env limit obs (case lastKey of None \<Rightarrow> start | Some k \<Rightarrow> k) (Some es') a1 = Some a'"
        using 3(3) False sc m by (simp add: es_def [symmetric])
      from quiet_trans [OF q(1) 3(2) [OF False es_def sc [symmetric] refl refl refl m this 3(4) keyed]] q(3)
      show ?thesis by simp
    qed
  qed
qed auto

lemma quiet_vlog [simp]: "quiet env repr (a\<lparr>a_vlog := v\<rparr>) a' = quiet env repr a a'"
  by (simp add: quiet_def)

lemma quiet_gc_worker:
  assumes "gc_worker env obs t a = Some a'" "kvdb_ok (env_db env) repr" "ts_keyed (repr (a_metadata a))"
  shows "quiet env repr a a'"
proof -
  obtain a1 where a1: "gc_loop env (encodeTSKey (wrap_int64 (t + 1))) obs (encodeTSKey 0) None
      (a\<lparr>a_vlog := gcTS t (a_vlog a)\<rparr>) = Some a1" "a' = a1\<lparr>a_gcWorking := False\<rparr>"
    using assms(1) by (auto simp: gc_worker_def doGCTS_def)
  have "quiet env repr a a1" using quiet_gc_loop [OF a1(1) assms(2)] assms(3) by simp
  with a1(2) show ?thesis by (simp add: quiet_def)
qed

lemma quiet_chaser:
  "quiet env repr a (chase_step env budget a)" "quiet env repr a (recover_step env budget a)"
  by (auto simp: chase_step_def recover_step_def catchUp_def quiet_def split: option.splits prod.splits)

lemma quiet_writeCBinlog: "writeCBinlog env b ct a = (err, a') \<Longrightarrow> quiet env repr a a'"
  by (auto simp: writeCBinlog_def split: prod.splits if_splits option.splits
      dest!: quiet_writeBinlog [of _ _ _ _ _ repr] quiet_put [OF own_keys(1), of _ _ _ _ _ _ repr] intro: quiet_trans)

lemma quiet_resolve_writes: "resolve_writes env b st ws a = (ans, a') \<Longrightarrow> quiet env repr a a'"
  by (induction env b st ws a rule: resolve_writes.induct)
    (auto split: if_splits prod.splits option.splits dest: quiet_writeCBinlog)

lemma quiet_resolve_by_lock: "resolve_by_lock env b st a = (ans, a') \<Longrightarrow> quiet env repr a a'"
  by (auto simp: resolve_by_lock_def Let_def split: prod.splits if_splits option.splits sum.splits
      dest!: quiet_writeBinlog [of _ _ _ _ _ repr] quiet_put [OF own_keys(1), of _ _ _ _ _ _ repr] intro: quiet_trans)

lemma quiet_resolve: "resolve env st a = (ans, a') \<Longrightarrow> quiet env repr a a'"
  by (auto simp: resolve_def split: if_splits sum.splits mvcc_resp.splits prod.splits option.splits
      dest!: quiet_resolve_by_lock [of _ _ _ _ _ _ repr] quiet_resolve_writes [of _ _ _ _ _ _ _ repr] intro: quiet_trans)

text \<open>The published timestamps before and after.\<close>

definition forward :: "'db env \<Rightarrow> ('db \<Rightarrow> bytes \<rightharpoonup> bytes) \<Rightarrow> 'db Append \<Rightarrow> 'db Append \<Rightarrow> bool" where
  "forward env repr a a' \<longleftrightarrow> a_gcTS a \<le> a_gcTS a' \<and> a_maxCommitTS a \<le> a_maxCommitTS a' \<and>
     (a_gcTS a' = a_gcTS a \<or> a_gcTS a' < a_maxCommitTS a') \<and>
     (ts_keyed (repr (a_metadata a)) \<longrightarrow> ts_keyed (repr (a_metadata a')))"

lemma forward_refl [simp]: "forward env repr a a"
  by (simp add: forward_def)

lemma forward_trans: "forward env repr a b \<Longrightarrow> forward env repr b c \<Longrightarrow> forward env repr a c"
  by (auto simp: forward_def)

lemma quiet_forward: "kvdb_ok (env_db env) repr \<Longrightarrow> quiet env repr a a' \<Longrightarrow> forward env repr a a'"
  by (simp add: forward_def quiet_def)

lemma forward_handle:
  assumes "kvdb_ok (env_db env) repr"
  shows "forward env repr a (snd (handleSortItem_step env ev (sv, a)))"
proof -
  have "forward env repr a (snd (persistHandlePointer env item a))" for item
    using quiet_persist [of env item a _ _ repr] by (intro quiet_forward [OF assms]) (metis prod.collapse)
  then show ?thesis by (cases ev; cases sv) (auto simp: forward_def)
qed

lemma forward_gc:
  assumes "kvdb_ok (env_db env) repr" "GC env t a = (a', worker)"
  shows "forward env repr a a'"
proof -
  obtain err a1 where s: "saveGCTSToDB env t (a\<lparr>a_gcTS := t\<rparr>) = (err, a1)" by fastforce
  have "quiet env repr (a\<lparr>a_gcTS := t\<rparr>) a1"
    using s quiet_put [OF own_keys(2), of env _ "a\<lparr>a_gcTS := t\<rparr>" err a1 repr] by (simp add: saveGCTSToDB_def)
  then show ?thesis using assms s
    by (auto simp: GC_def Let_def forward_def quiet_def split: if_splits)
qed

lemma storage_step_forward:
  assumes ok: "kvdb_ok (env_db env) repr" and keyed: "ts_keyed (repr (a_metadata (snd s)))"
    and step: "storage_step env s s'"
  shows "forward env repr (snd s) (snd s')"
  using step
proof (cases rule: storage_step.cases)
  case (st_write batch a reqs a' sv)
  then show ?thesis using quiet_forward [OF ok quiet_write_batch] by simp
next
  case (st_kv obs n a go_on a' sv)
  then show ?thesis using quiet_forward [OF ok quiet_kv] by simp
next
  case (st_sorter sv a)
  then show ?thesis by (auto simp: forward_def writeToSorter_step_def split: list.splits)
next
  case (st_run sv a elapsed resolver)
  then show ?thesis by (simp add: forward_def)
next
  case (st_resolve st a answer a' sv)
  then show ?thesis using quiet_forward [OF ok quiet_resolve] by simp
next
  case (st_handle sv a ev)
  with forward_handle [OF ok] show ?thesis by simp
next
  case (st_status sv a sev)
  then show ?thesis by (cases "(sev, a)" rule: updateStatus_step.cases) (auto simp: forward_def updateSize_def split: sum.splits)
next
  case (st_gc t a a' worker sv)
  with forward_gc [OF ok] show ?thesis by simp
next
  case (st_worker obs t a a' sv)
  then show ?thesis using quiet_forward [OF ok quiet_gc_worker [OF st_worker(3) ok]] keyed by simp
next
  case (st_chase sv a budget)
  then show ?thesis using quiet_forward [OF ok quiet_chaser(1)] by simp
next
  case (st_recover sv a budget)
  then show ?thesis using quiet_forward [OF ok quiet_chaser(2)] by simp
qed

lemma storage_steps_forward:
  assumes "(storage_step env)\<^sup>*\<^sup>* s s'" "kvdb_ok (env_db env) repr" "ts_keyed (repr (a_metadata (snd s)))"
  shows "forward env repr (snd s) (snd s')"
  using assms(1)
proof (induction rule: rtranclp_induct)
  case (step s1 s2)
  have "ts_keyed (repr (a_metadata (snd s1)))" using step.IH assms(3) by (simp add: forward_def)
  from forward_trans [OF step.IH storage_step_forward [OF assms(2) this step.hyps(2)]] show ?case .
qed simp

text \<open>C27. Along every run of the storage the published timestamps only grow, a garbage collection never moves
  \<^verbatim>\<open>gcTS\<close> up to \<^verbatim>\<open>maxCommitTS\<close>, so it spares what is not sorted yet, and the keys of the database keep their form.\<close>

theorem published_timestamps:
  assumes "(storage_step env)\<^sup>*\<^sup>* (sv, a) (sv', a')" "kvdb_ok (env_db env) repr" "ts_keyed (repr (a_metadata a))"
  shows "GetGCTS a \<le> GetGCTS a' \<and> MaxCommitTS a \<le> MaxCommitTS a' \<and>
    (GetGCTS a' = GetGCTS a \<or> GetGCTS a' < MaxCommitTS a') \<and> ts_keyed (repr (a_metadata a'))"
  using storage_steps_forward [OF assms(1,2)] assms(3) by (simp add: forward_def GetGCTS_def MaxCommitTS_def)

theorem published_timestamps_witness:
  "\<exists>a'. (storage_step example_env)\<^sup>*\<^sup>* (None, example_read) (None, a') \<and> GetGCTS a' = 8 \<and> MaxCommitTS example_read \<le> MaxCommitTS a'"
proof -
  obtain a' w where g: "GC example_env 8 example_read = (a', w)" by fastforce
  then have "a_gcTS a' = 8"
    by (auto simp: GC_def Let_def example_read_def example_append_def saveGCTSToDB_def kv_put_def example_env_def list_db_def
        split: if_splits)
  moreover have "(storage_step example_env)\<^sup>*\<^sup>* (None, example_read) (None, a')"
    by (rule r_into_rtranclp) (rule st_gc [OF g])
  moreover have "ts_keyed (map_of (a_metadata example_read))" using example_read_ok by (simp add: readable_def)
  ultimately show ?thesis
    using published_timestamps [OF _ example_env_ok(1), of None example_read None a'] by (auto simp: GetGCTS_def)
qed

section \<open>Errors\<close>

text \<open>A database whose writes fail.\<close>

definition failing_env :: "(bytes \<times> bytes) list env" where
  "failing_env = example_env\<lparr>env_db := list_db\<lparr>kv_write := (\<lambda>ops d. (Some ErrIO, d))\<rparr>\<rparr>"

lemma failing_env_ok: "kvdb_ok (env_db failing_env) map_of"
  using list_db_ok by (auto simp: failing_env_def kvdb_ok_def list_db_def)

text \<open>C40. \<^verbatim>\<open>writeCBinlog\<close> reports success although the pointer of the commit binlog could not be stored: the
  database error is replaced by the (absent) error of the request. The database is unchanged, so a later
  \<^verbatim>\<open>PullCommitBinlog\<close> does not see the commit.\<close>

theorem writeCBinlog_drops_error:
  assumes "kvdb_ok (env_db env) repr"
    and "writeBinlog env (commit_binlog (StartTs p) ct) a = (req, a1)" "req_err req = None"
    and "kv_put env (encodeTSKey (ts req)) (MarshalBinary (req_vp req)) a1 = (Some e, a2)"
  shows "writeCBinlog env p ct a = (None, a2) \<and> repr (a_metadata a2) = repr (a_metadata a1)"
  using assms kv_write_failed [OF assms(1), of "[KPut (encodeTSKey (ts req)) (MarshalBinary (req_vp req))]" "a_metadata a1" e]
  by (auto simp: writeCBinlog_def kv_put_def split: prod.splits)

theorem writeCBinlog_drops_error_witness:
  "\<exists>a2. writeCBinlog failing_env (example_binlog Prewrite 7 0 []) 9 example_append = (None, a2) \<and>
     map_of (a_metadata a2) (encodeTSKey 9) = None"
proof -
  let ?p = "example_binlog Prewrite 7 0 []"
  let ?w = "writeBinlog failing_env (commit_binlog (StartTs ?p) 9) example_append"
  have "case ?w of (req, a1) \<Rightarrow> req_err req = None \<and> a_metadata a1 = []" by code_simp
  then obtain req a1 where w: "?w = (req, a1)" "req_err req = None" "a_metadata a1 = []" by (cases ?w) auto
  have "kv_put failing_env (encodeTSKey (ts req)) (MarshalBinary (req_vp req)) a1 = (Some ErrIO, a1)"
    by (simp add: kv_put_def failing_env_def)
  from writeCBinlog_drops_error [OF failing_env_ok w(1,2) this] w(3) show ?thesis by auto
qed

text \<open>A garbage collection up to less than ten minutes after the epoch asks the worker to collect up to a negative
  timestamp, whose key sorts after all others: every pointer is deleted.\<close>

lemma early_gc_deletes_all:
  assumes "kvdb_ok (env_db env) repr" "kv_reliable (env_db env)" "list_all (\<lambda>ob. \<not> isl ob) obs"
    and "t + 1 < 0" "int64_range (t + 1)" "0 \<le> x" "int64_range x"
    and "card (live repr (encodeTSKey 0) (encodeTSKey (t + 1)) (a_metadata a)) < productive a obs"
  shows "\<exists>a'. doGCTS env obs t a = Some a' \<and> repr (a_metadata a') (encodeTSKey x) = None"
proof -
  have "uint (u64_of_int64 (t + 1)) = t + 1 + 2 ^ 64" by (rule uint_u64_of_neg [OF assms(4,5)])
  moreover have "uint (u64_of_int64 x) = x" by (rule uint_u64_of_nonneg [OF assms(6,7)])
  moreover have "(2 :: int) ^ 64 = 2 * 2 ^ 63" by simp
  ultimately have "u64_of_int64 x < u64_of_int64 (t + 1)"
    using assms(5,7) unfolding word_less_def int64_range_def by linarith
  then have "key_in (encodeTSKey 0) (encodeTSKey (t + 1)) (encodeTSKey x)"
    unfolding key_in_def bytes_less_encodeTSKey by simp
  with doGCTS_ok [OF assms(1-3), of t a] assms(5,8) show ?thesis by auto
qed

end
