(* ===== verification/Chaser.thy ===== *)
theory Chaser
  imports StorageProps
begin

text \<open>
  The slow chaser, \<^verbatim>\<open>pump/storage/chaser.go\<close>: while the database stage is slow, records are only written to
  the value log, and the chaser sends them from there. Nothing that was written is lost on the way, nor by a restart.
\<close>

section \<open>Records in pointer order\<close>

lemma offsets_sorted: "sorted_wrt (\<lambda>x y. fst x < fst y) (offsets_from off pls)"
proof (induction pls arbitrary: off)
  case (Cons pl pls)
  have "off < o'" if "(o', q) \<in> set (offsets_from (off + int (length (frame pl))) pls)" for o' q
    using offsets_ge [OF that] by (simp add: headerLength_def)
  with Cons show ?case by auto
qed simp

lemma file_records_sorted: "sorted_wrt (\<lambda>x y. fst x < fst y) (file_records fid pls)"
  using offsets_sorted [of 0 pls]
  by (auto simp: file_records_def sorted_wrt_map less_valuePointer_def less_vp_def case_prod_unfold
      elim!: sorted_wrt_mono_rel [rotated])

lemma file_records_fid: "x \<in> set (file_records fid pls) \<Longrightarrow> Fid (fst x) = fid"
  by (auto simp: file_records_def)

lemma log_records_sorted:
  "sorted_wrt (<) fids \<Longrightarrow> sorted_wrt (\<lambda>x y. fst x < fst y) (log_records g fids)"
proof (induction fids)
  case (Cons fid fids)
  have "fst x < fst y" if x: "x \<in> set (file_records fid (g fid))" and y: "y \<in> set (log_records g fids)" for x y
  proof -
    obtain f where "f \<in> set fids" "y \<in> set (file_records f (g f))" using y by (auto simp: log_records_def)
    then have "Fid (fst y) = f" "fid < f" using file_records_fid [of y f] Cons.prems by auto
    with file_records_fid [OF x] have "Fid (fst x) < Fid (fst y)" by simp
    then show ?thesis by (auto simp: less_valuePointer_def less_vp_def)
  qed
  with Cons file_records_sorted show ?case by (auto simp: sorted_wrt_append)
qed (simp add: log_records_def)

lemma vlog_holds_sorted:
  assumes "vlog_wf v" "vlog_holds v recs"
  shows "sorted_wrt (\<lambda>x y. fst x < fst y) recs"
proof -
  have "distinct (sortedFids v)" using assms(1) by (simp add: sortedFids_def vlog_wf_def)
  then have "sorted_wrt (<) (sortedFids v)" by (simp add: strict_sorted_iff)
  with log_records_sorted assms(2) show ?thesis by (auto simp: vlog_holds_def)
qed

section \<open>Catching up\<close>

text \<open>The records the chaser has to send: it skips the empty binlogs of clients that only probe the pump.\<close>

definition real_record :: "binlog_unmarshal \<Rightarrow> bytes \<Rightarrow> bool" where
  "real_record u pl \<longleftrightarrow> (\<exists>b. u pl = Inr b \<and> \<not> (StartTs b = 0 \<and> CommitTs b = 0))"

abbreviation sent_to :: "request list \<Rightarrow> valuePointer \<Rightarrow> bool" where
  "sent_to reqs vp \<equiv> vp \<in> req_vp ` set reqs"

lemma catchUp_visits:
  assumes "visits (scanRequests_fn u catchUp_fn) rs (budget, Some p0, out) = (err, budget', unread', out')"
    and "sorted_wrt (\<lambda>x y. fst x < fst y) rs" "\<forall>x\<in>set rs. p0 \<le> fst x"
  shows "\<exists>p' more. unread' = Some p' \<and> (p' = p0 \<or> p' \<in> fst ` set rs) \<and> out' = out @ more \<and>
    (\<forall>x\<in>set rs. real_record u (snd x) \<longrightarrow> sent_to more (fst x) \<or> err \<noteq> None \<and> p' \<le> fst x)"
  using assms
proof (induction rs arbitrary: budget p0 out)
  case Nil
  then show ?case by auto
next
  case (Cons x rs)
  obtain vp pl where x: "x = (vp, pl)" by (cases x)
  have le: "p0 \<le> vp" "\<forall>y\<in>set rs. vp \<le> fst y" "sorted_wrt (\<lambda>x y. fst x < fst y) rs"
    using Cons.prems(2,3) x by (auto intro: less_imp_le)
  then have p0: "\<forall>y\<in>set (x # rs). p0 \<le> fst y" using Cons.prems(3) by blast
  show ?case
  proof (cases "u pl")
    case (Inl e)
    with Cons.prems(1) x have "err = Some e" "unread' = Some p0" "out' = out"
      by (auto simp: scanRequests_fn_def record_of_def)
    with p0 show ?thesis by auto
  next
    case (Inr b)
    show ?thesis
    proof (cases "real_record u pl")
      case False
      then have "scanRequests_fn u catchUp_fn vp (record_of pl) (budget, Some p0, out) = (None, budget, Some p0, out)"
        using Inr by (auto simp: scanRequests_fn_def record_of_def real_record_def)
      then have "visits (scanRequests_fn u catchUp_fn) rs (budget, Some p0, out) = (err, budget', unread', out')"
        using Cons.prems(1) x by simp
      from Cons.IH [OF this le(3)] p0 False x show ?thesis by auto
    next
      case True
      let ?req = "\<lparr>startTS = StartTs b, commitTS = CommitTs b, tp = Tp b, req_payload = [], req_vp = vp, req_err = None\<rparr>"
      have fn: "scanRequests_fn u catchUp_fn vp (record_of pl) (budget, Some p0, out) = catchUp_fn ?req (budget, Some p0, out)"
        using True Inr by (auto simp: scanRequests_fn_def record_of_def real_record_def)
      show ?thesis
      proof (cases "budget = Some 0")
        case True
        then have "catchUp_fn ?req (budget, Some p0, out) = (Some (ErrMsg ''context canceled''), budget, Some vp, out)"
          by (simp add: catchUp_fn_def)
        with Cons.prems(1) x fn have "err \<noteq> None" "unread' = Some vp" "out' = out" by auto
        with x le(2) show ?thesis by auto
      next
        case False
        then have "catchUp_fn ?req (budget, Some p0, out) = (None, map_option (\<lambda>n. n - 1) budget, Some vp, out @ [?req])"
          by (auto simp: catchUp_fn_def split: option.splits nat.splits)
        with Cons.prems(1) x fn have "visits (scanRequests_fn u catchUp_fn) rs
            (map_option (\<lambda>n. n - 1) budget, Some vp, out @ [?req]) = (err, budget', unread', out')" by simp
        from Cons.IH [OF this le(3,2)] obtain p' more where
          "unread' = Some p'" "p' = vp \<or> p' \<in> fst ` set rs" "out' = (out @ [?req]) @ more"
          "\<forall>x\<in>set rs. real_record u (snd x) \<longrightarrow> sent_to more (fst x) \<or> err \<noteq> None \<and> p' \<le> fst x" by blast
        then show ?thesis using x by (intro exI [of _ p'] exI [of _ "?req # more"]) auto
      qed
    qed
  qed
qed

section \<open>Runs with a slow database stage\<close>

text \<open>\<open>consumed\<close> are the requests the database stage has taken so far.\<close>

inductive chaser_step ::
  "'db env \<Rightarrow> request list \<times> 'db Append \<Rightarrow> request list \<times> 'db Append \<Rightarrow> bool" for env where
  ch_write: "write_batch env batch a = (reqs, a') \<Longrightarrow> batch \<noteq> [] \<Longrightarrow> list_all (\<lambda>r. req_err r = None) reqs \<Longrightarrow>
    list_all (\<lambda>r. length (req_payload r) \<le> 2 ^ 48) batch \<Longrightarrow> room (Suc (length batch)) (a_vlog a) \<Longrightarrow>
    chaser_step env (consumed, a) (consumed, a')"
| ch_take: "chaser_step env (consumed, a) (consumed @ take n (a_toKV a), a\<lparr>a_toKV := drop n (a_toKV a)\<rparr>)"
| ch_chase: "chaser_step env (consumed, a) (consumed, chase_step env budget a)"
| ch_recover: "chaser_step env (consumed, a) (consumed, recover_step env budget a)"

text \<open>Every record is sent, or still ahead of the chaser.\<close>

definition nothing_lost :: "binlog_unmarshal \<Rightarrow> (valuePointer \<times> bytes) list \<Rightarrow> request list \<Rightarrow> slowChaser \<Rightarrow> bool" where
  "nothing_lost u recs sent sc \<longleftrightarrow>
     (sc_on sc \<longrightarrow> (\<exists>p. lastUnreadPtr sc = Some p \<and> p \<in> fst ` set recs)) \<and>
     list_all (\<lambda>(vp, pl). \<not> real_record u pl \<or> sent_to sent vp \<or>
       sc_on sc \<and> (\<exists>p. lastUnreadPtr sc = Some p \<and> p \<le> vp)) recs"

definition chaser_inv :: "'db env \<Rightarrow> request list \<times> 'db Append \<Rightarrow> bool" where
  "chaser_inv env s \<longleftrightarrow> vlog_wf (a_vlog (snd s)) \<and>
     (\<exists>recs. vlog_holds (a_vlog (snd s)) recs \<and>
        nothing_lost (env_unmarshal env) recs (fst s @ a_toKV (snd s)) (a_chaser (snd s)))"

lemma catchUp_ok:
  assumes wf: "vlog_wf (a_vlog a)" and holds: "vlog_holds (a_vlog a) recs"
    and nl: "nothing_lost (env_unmarshal env) recs (consumed @ a_toKV a) (a_chaser a)"
    and sc: "sc_on (a_chaser a)" and c: "catchUp env budget a = (err, a')"
  shows "\<exists>p' more. a' = a\<lparr>a_chaser := (a_chaser a)\<lparr>lastUnreadPtr := Some p'\<rparr>, a_toKV := a_toKV a @ more\<rparr> \<and>
    nothing_lost (env_unmarshal env) recs (consumed @ a_toKV a @ more) ((a_chaser a)\<lparr>lastUnreadPtr := Some p'\<rparr>) \<and>
    (err = None \<longrightarrow> list_all (\<lambda>(vp, pl). \<not> real_record (env_unmarshal env) pl \<or> sent_to (consumed @ a_toKV a @ more) vp) recs)"
proof -
  obtain p where p: "lastUnreadPtr (a_chaser a) = Some p" "p \<in> fst ` set recs"
    using nl sc by (auto simp: nothing_lost_def)
  let ?rs = "filter (\<lambda>(vp, _). p \<le> vp) recs"
  obtain budget' unread' out' where v: "visits (scanRequests_fn (env_unmarshal env) catchUp_fn) ?rs (budget, Some p, a_toKV a) =
      (err, budget', unread', out')"
    and a': "a' = a\<lparr>a_chaser := (a_chaser a)\<lparr>lastUnreadPtr := unread'\<rparr>, a_toKV := out'\<rparr>"
    using c p(1) vlog_scan_visits [OF wf holds disjI2 [OF p(2)],
        of "scanRequests_fn (env_unmarshal env) catchUp_fn" "(budget, Some p, a_toKV a)"]
    by (auto simp: catchUp_def scanRequests_def split: prod.splits)
  have "sorted_wrt (\<lambda>x y. fst x < fst y) ?rs" using vlog_holds_sorted [OF wf holds] by (rule sorted_wrt_filter)
  from catchUp_visits [OF v this] obtain p' more where u: "unread' = Some p'" "p' = p \<or> p' \<in> fst ` set ?rs" "out' = a_toKV a @ more"
    "\<forall>x\<in>set ?rs. real_record (env_unmarshal env) (snd x) \<longrightarrow> sent_to more (fst x) \<or> err \<noteq> None \<and> p' \<le> fst x" by auto
  have p': "p' \<in> fst ` set recs" using u(2) p(2) by auto
  have covered: "sent_to (consumed @ a_toKV a @ more) (fst x) \<or> err \<noteq> None \<and> p' \<le> fst x"
    if "x \<in> set recs" "real_record (env_unmarshal env) (snd x)" for x
  proof (cases "p \<le> fst x")
    case True
    with u(4) that show ?thesis by (force simp: case_prod_unfold)
  next
    case False
    with nl that p show ?thesis by (fastforce simp: nothing_lost_def list_all_iff case_prod_unfold)
  qed
  have "list_all (\<lambda>(vp, pl). \<not> real_record (env_unmarshal env) pl \<or> sent_to (consumed @ a_toKV a @ more) vp \<or>
      err \<noteq> None \<and> p' \<le> vp) recs"
    unfolding list_all_iff
  proof
    fix x assume "x \<in> set recs"
    from covered [OF this] show "case x of (vp, pl) \<Rightarrow> \<not> real_record (env_unmarshal env) pl \<or>
        sent_to (consumed @ a_toKV a @ more) vp \<or> err \<noteq> None \<and> p' \<le> vp" by (cases x) auto
  qed
  with p' show ?thesis
    using a' u(1,3) sc
    by (intro exI [of _ p'] exI [of _ more]) (auto simp: nothing_lost_def elim!: list.pred_mono_strong)
qed

lemma send_loop_lost:
  "sorted_wrt (<) (map req_vp reqs) \<Longrightarrow> \<not> sc_on (a_chaser a) \<Longrightarrow>
   \<exists>n. a_toKV (send_loop reqs a) = a_toKV a @ take n reqs \<and>
     (if n < length reqs then a_chaser (send_loop reqs a) = TurnOn (req_vp (reqs ! n)) (a_chaser a)
      else a_chaser (send_loop reqs a) = a_chaser a)"
proof (induction reqs a rule: send_loop.induct)
  case (2 req reqs a)
  show ?case
  proof (cases "a_timeouts a \<noteq> [] \<and> hd (a_timeouts a)")
    case True
    then show ?thesis by (intro exI [of _ 0]) simp
  next
    case False
    from 2(1) [OF False] 2(2,3) obtain n where
      "a_toKV (send_loop reqs (a\<lparr>a_timeouts := tl (a_timeouts a), a_toKV := a_toKV a @ [req]\<rparr>)) = (a_toKV a @ [req]) @ take n reqs"
      "if n < length reqs
       then a_chaser (send_loop reqs (a\<lparr>a_timeouts := tl (a_timeouts a), a_toKV := a_toKV a @ [req]\<rparr>)) = TurnOn (req_vp (reqs ! n)) (a_chaser a)
       else a_chaser (send_loop reqs (a\<lparr>a_timeouts := tl (a_timeouts a), a_toKV := a_toKV a @ [req]\<rparr>)) = a_chaser a"
      by auto
    with False show ?thesis by (intro exI [of _ "Suc n"]) auto
  qed
qed auto

lemma sorted_before_or_after:
  "sorted_wrt (<) xs \<Longrightarrow> n < length xs \<Longrightarrow> x \<in> set xs \<Longrightarrow> x \<in> set (take n xs) \<or> xs ! n \<le> x"
  for xs :: "'a::linorder list"
proof -
  assume srt: "sorted_wrt (<) xs" and n: "n < length xs" and "x \<in> set xs"
  then obtain i where i: "i < length xs" "x = xs ! i" by (auto simp: in_set_conv_nth)
  show ?thesis
  proof (cases "i < n")
    case True
    then have "x = take n xs ! i" "i < length (take n xs)" using i by auto
    then show ?thesis using nth_mem by blast
  next
    case False
    then show ?thesis using sorted_wrt_nth_less [OF srt, of n i] i n by (cases "n = i") auto
  qed
qed

lemma chaser_inv_write:
  assumes inv: "chaser_inv env (consumed, a)" and w: "write_batch env batch a = (reqs, a')" and ne: "batch \<noteq> []"
    and good: "list_all (\<lambda>r. req_err r = None) reqs" "list_all (\<lambda>r. length (req_payload r) \<le> 2 ^ 48) batch"
    and rm: "room (Suc (length batch)) (a_vlog a)"
  shows "chaser_inv env (consumed, a')"
proof -
  let ?u = "env_unmarshal env"
  obtain recs where wf: "vlog_wf (a_vlog a)" and holds: "vlog_holds (a_vlog a) recs"
    and nl: "nothing_lost ?u recs (consumed @ a_toKV a) (a_chaser a)" using inv by (auto simp: chaser_inv_def)
  obtain err reqs1 v' where v: "vlog_write ?u batch (a_vlog a) = (err, reqs1, v')"
    by (cases "vlog_write ?u batch (a_vlog a)") auto
  have err: "err = None"
    using w v ne good(1) vlog_write_requests(1) [OF v]
    by (cases err; cases reqs1) (auto simp: write_batch_def)
  note ok = vlog_write_ok [OF wf rm v [unfolded err]]
  have reqs: "reqs = map (req_payload_update (\<lambda>_. [])) reqs1"
    "a' = (if sc_on (a_chaser a) then a\<lparr>a_vlog := v'\<rparr> else send_loop reqs (a\<lparr>a_vlog := v'\<rparr>))"
    using w v ne err by (auto simp: write_batch_def Let_def)
  have vps: "map req_vp reqs = map req_vp reqs1" by (simp add: reqs(1))
  obtain cur where cur: "map_of (v_filesMap (a_vlog a)) (v_maxFid (a_vlog a)) = Some cur" using wf by (rule vlog_wf_cur)
  have holds': "vlog_holds v' (recs @ stored reqs1)"
    using write_loop_holds [OF wf rm holds cur _ good(2), of "[]" ?u "[]" reqs1 v'] v err
    by (simp add: vlog_write_def pointed_def)
  have v': "a_vlog a' = v'" by (simp add: reqs(2))
  have "nothing_lost ?u (recs @ stored reqs1) (consumed @ a_toKV a') (a_chaser a')"
  proof (cases "sc_on (a_chaser a)")
    case True
    then obtain p where p: "lastUnreadPtr (a_chaser a) = Some p" "p \<in> fst ` set recs" using nl by (auto simp: nothing_lost_def)
    have "p \<le> req_vp r" if "r \<in> set reqs1" for r
      using vlog_holds_sorted [OF ok(1) holds'] p(2) that by (fastforce simp: sorted_wrt_append)
    with True p nl show ?thesis by (auto simp: reqs(2) nothing_lost_def list_all_iff)
  next
    case False
    let ?a = "a\<lparr>a_vlog := v'\<rparr>"
    have srt: "sorted_wrt (<) (map req_vp reqs)" using ok(5) by (simp add: vps)
    from send_loop_lost [OF this, of ?a] False obtain n where n: "a_toKV a' = a_toKV a @ take n reqs"
      "if n < length reqs then a_chaser a' = TurnOn (req_vp (reqs ! n)) (a_chaser a) else a_chaser a' = a_chaser a"
      by (auto simp: reqs(2))
    have old: "\<not> real_record ?u pl \<or> sent_to (consumed @ a_toKV a) vp" if "(vp, pl) \<in> set recs" for vp pl
      using nl False that by (auto simp: nothing_lost_def list_all_iff)
    have new: "vp \<in> set (map req_vp reqs)" if "(vp, pl) \<in> set (stored reqs1)" for vp pl
      using that unfolding vps by auto
    have sent: "sent_to (consumed @ a_toKV a') vp \<longleftrightarrow>
        sent_to (consumed @ a_toKV a) vp \<or> vp \<in> set (take n (map req_vp reqs))" for vp
      by (auto simp: n(1) take_map)
    show ?thesis
    proof (cases "n < length reqs")
      case on: True
      let ?p = "map req_vp reqs ! n"
      have sc': "sc_on (a_chaser a')" "lastUnreadPtr (a_chaser a') = Some ?p" using n(2) on by (simp_all add: TurnOn_def)
      have "?p \<in> set (map req_vp reqs)" using on by (intro nth_mem) simp
      then have "?p \<in> fst ` set (recs @ stored reqs1)" unfolding vps by (simp add: image_Un image_image)
      moreover have "sent_to (consumed @ a_toKV a') vp \<or> ?p \<le> vp" if "(vp, pl) \<in> set (stored reqs1)" for vp pl
        using sorted_before_or_after [OF srt _ new [OF that], of n] on sent by auto
      ultimately show ?thesis using old sent sc' by (auto simp: nothing_lost_def list_all_iff)
    next
      case off: False
      then have "\<not> sc_on (a_chaser a')" "take n (map req_vp reqs) = map req_vp reqs" using n(2) False by simp_all
      with old new sent show ?thesis by (fastforce simp: nothing_lost_def list_all_iff)
    qed
  qed
  with ok(1) holds' v' show ?thesis by (auto simp: chaser_inv_def)
qed

lemma chaser_inv_catchUp:
  assumes "chaser_inv env (consumed, a)" "sc_on (a_chaser a)" "catchUp env budget a = (err, a')"
  shows "chaser_inv env (consumed, a')" "err = None \<Longrightarrow> chaser_inv env (consumed, a'\<lparr>a_chaser := turnOff (a_chaser a')\<rparr>)"
proof -
  obtain recs where r: "vlog_wf (a_vlog a)" "vlog_holds (a_vlog a) recs"
    "nothing_lost (env_unmarshal env) recs (consumed @ a_toKV a) (a_chaser a)" using assms(1) by (auto simp: chaser_inv_def)
  obtain p' more where c: "a' = a\<lparr>a_chaser := (a_chaser a)\<lparr>lastUnreadPtr := Some p'\<rparr>, a_toKV := a_toKV a @ more\<rparr>"
    "nothing_lost (env_unmarshal env) recs (consumed @ a_toKV a @ more) ((a_chaser a)\<lparr>lastUnreadPtr := Some p'\<rparr>)"
    "err = None \<longrightarrow> list_all (\<lambda>(vp, pl). \<not> real_record (env_unmarshal env) pl \<or> sent_to (consumed @ a_toKV a @ more) vp) recs"
    using catchUp_ok [OF r assms(2,3)] by (elim exE conjE)
  show "chaser_inv env (consumed, a')"
    unfolding chaser_inv_def using r(1,2) c(1,2) by (intro conjI exI [of _ recs]) simp_all
  assume "err = None"
  with c(3) have "nothing_lost (env_unmarshal env) recs (consumed @ a_toKV a') (turnOff (a_chaser a'))"
    by (auto simp: nothing_lost_def turnOff_def c(1) elim!: list.pred_mono_strong)
  then show "chaser_inv env (consumed, a'\<lparr>a_chaser := turnOff (a_chaser a')\<rparr>)"
    unfolding chaser_inv_def using r(1,2) c(1) by (intro conjI exI [of _ recs]) simp_all
qed

lemma chaser_step_inv:
  assumes "chaser_step env s s'" "chaser_inv env s"
  shows "chaser_inv env s'"
  using assms(1)
proof (cases rule: chaser_step.cases)
  case (ch_write batch a reqs a' consumed)
  then show ?thesis using chaser_inv_write [OF _ ch_write(3-7)] assms(2) by simp
next
  case (ch_take consumed a n)
  then show ?thesis using assms(2) by (simp add: chaser_inv_def)
next
  case (ch_chase consumed a budget)
  obtain err a' where c: "catchUp env budget a = (err, a')" by fastforce
  with ch_chase assms(2) chaser_inv_catchUp(1) [OF _ _ c] show ?thesis by (auto simp: chase_step_def)
next
  case (ch_recover consumed a budget)
  obtain err a' where c: "catchUp env budget a = (err, a')" by fastforce
  with ch_recover assms(2) chaser_inv_catchUp [OF _ _ c] show ?thesis
    by (cases err) (auto simp: recover_step_def)
qed

lemma chaser_steps_inv: "(chaser_step env)\<^sup>*\<^sup>* s s' \<Longrightarrow> chaser_inv env s \<Longrightarrow> chaser_inv env s'"
  by (induction rule: rtranclp_induct) (auto dest: chaser_step_inv)

text \<open>A storage whose database stage does not take the first request in time, and the storage it becomes.\<close>

definition example_stalled :: "(bytes \<times> bytes) list Append" where
  "example_stalled = example_append\<lparr>a_timeouts := [True]\<rparr>"

definition example_slow :: "(bytes \<times> bytes) list Append" where
  "example_slow = example_append\<lparr>
     a_vlog := example_vlog\<lparr>v_filesMap := [(0, (fresh_file 0)\<lparr>lf_fd := frame [0, 7, 0, 5], lf_writeOffset := 20\<rparr>)]\<rparr>,
     a_chaser := \<lparr>sc_on = True, lastUnreadPtr = Some (VP 0 0)\<rparr>\<rparr>"

lemma example_stalled_ok: "vlog_wf (a_vlog example_stalled)" "vlog_holds (a_vlog example_stalled) []" "\<not> sc_on (a_chaser example_stalled)"
proof -
  show "vlog_wf (a_vlog example_stalled)" using example_append_wf(1) by (simp add: example_stalled_def)
  have "file_holds (fresh_file 0) []" by (simp add: file_holds_def fresh_file_def)
  then show "vlog_holds (a_vlog example_stalled) []"
    unfolding vlog_holds_def
    by (intro exI [of _ "\<lambda>_. []"])
      (simp add: example_stalled_def example_append_def example_vlog_def sortedFids_def file_records_def)
qed (simp add: example_stalled_def example_append_def newSlowChaser_def)

lemma example_slow_ok: "vlog_wf (a_vlog example_slow)" "vlog_holds (a_vlog example_slow) [(VP 0 0, [0, 7, 0, 5])]"
proof -
  show "vlog_wf (a_vlog example_slow)"
    by (auto simp: vlog_wf_def example_slow_def example_vlog_def fresh_file_def headerLength_def)
  have "file_holds ((fresh_file 0)\<lparr>lf_fd := frame [0, 7, 0, 5], lf_writeOffset := 20\<rparr>) [[0, 7, 0, 5]]"
    by (simp add: file_holds_def fresh_file_def)
  then show "vlog_holds (a_vlog example_slow) [(VP 0 0, [0, 7, 0, 5])]"
    unfolding vlog_holds_def
    by (intro exI [of _ "\<lambda>_. [[0, 7, 0, 5]]"]) (simp add: example_slow_def example_vlog_def sortedFids_def file_records_def)
qed



lemma catchUp_succeeds:
  assumes "\<forall>x\<in>set rs. \<not> isl (u (snd x))"
  shows "fst (visits (scanRequests_fn u catchUp_fn) rs (None, p, out)) = None"
  using assms
proof (induction rs arbitrary: p out)
  case (Cons x rs)
  obtain vp pl b where x: "x = (vp, pl)" "u pl = Inr b" using Cons.prems by (cases x; cases "u (snd x)") auto
  have "\<exists>p' out'. scanRequests_fn u catchUp_fn vp (record_of pl) (None, p, out) = (None, None, p', out')"
    using x(2) by (auto simp: scanRequests_fn_def record_of_def catchUp_fn_def)
  then obtain p' out' where "scanRequests_fn u catchUp_fn vp (record_of pl) (None, p, out) = (None, None, p', out')" by blast
  with Cons x(1) show ?case by simp
qed simp

text \<open>C35. If the records of the log can be decoded, a recovery that does not run into its timeout turns the chaser
  off, and then every real binlog of the log has been sent.\<close>

theorem recovery_delivers:
  assumes "vlog_wf (a_vlog a)" "vlog_holds (a_vlog a) recs" "list_all (\<lambda>(vp, pl). \<not> isl (env_unmarshal env pl)) recs"
    and "nothing_lost (env_unmarshal env) recs (consumed @ a_toKV a) (a_chaser a)" "sc_on (a_chaser a)"
  shows "\<not> sc_on (a_chaser (recover_step env None a)) \<and>
    list_all (\<lambda>(vp, pl). \<not> real_record (env_unmarshal env) pl \<or>
      sent_to (consumed @ a_toKV (recover_step env None a)) vp) recs"
proof -
  obtain p where p: "lastUnreadPtr (a_chaser a) = Some p" "p \<in> fst ` set recs"
    using assms(4,5) by (auto simp: nothing_lost_def)
  obtain err a' where c: "catchUp env None a = (err, a')" by fastforce
  have "fst (visits (scanRequests_fn (env_unmarshal env) catchUp_fn) (filter (\<lambda>(vp, _). p \<le> vp) recs) (None, Some p, a_toKV a)) = None"
    by (rule catchUp_succeeds) (use assms(3) in \<open>auto simp: list_all_iff\<close>)
  then have "err = None"
    using c p(1) vlog_scan_visits [OF assms(1,2) disjI2 [OF p(2)],
        of "scanRequests_fn (env_unmarshal env) catchUp_fn" "(None, Some p, a_toKV a)"]
    by (auto simp: catchUp_def scanRequests_def split: prod.splits)
  moreover from catchUp_ok [OF assms(1,2,4,5) c] obtain p' more where
    "a' = a\<lparr>a_chaser := (a_chaser a)\<lparr>lastUnreadPtr := Some p'\<rparr>, a_toKV := a_toKV a @ more\<rparr>"
    "err = None \<longrightarrow> list_all (\<lambda>(vp, pl). \<not> real_record (env_unmarshal env) pl \<or> sent_to (consumed @ a_toKV a @ more) vp) recs"
    by (elim exE conjE)
  ultimately show ?thesis using c p(1) assms(5) by (simp add: recover_step_def turnOff_def)
qed

theorem recovery_delivers_witness:
  "\<not> sc_on (a_chaser (recover_step example_env None example_slow)) \<and>
     sent_to (a_toKV (recover_step example_env None example_slow)) (VP 0 0)"
proof -
  have real: "env_unmarshal example_env [0, 7, 0, 5] = Inr (example_binlog Prewrite 7 0 [5])"
    by (simp add: example_env_def example_decode_def example_binlog_def)
  have "nothing_lost (env_unmarshal example_env) [(VP 0 0, [0, 7, 0, 5])] ([] @ a_toKV example_slow) (a_chaser example_slow)"
    by (simp add: nothing_lost_def example_slow_def)
  from recovery_delivers [OF example_slow_ok _ this] real show ?thesis
    by (simp add: example_slow_def real_record_def example_binlog_def)
qed

section \<open>Restarts\<close>

lemma collect_visits:
  "\<forall>x\<in>set rs. \<not> isl (u (snd x)) \<Longrightarrow>
     \<exists>more. visits (scanRequests_fn u collect_requests) rs out = (None, out @ more) \<and>
       map req_vp more = map fst (filter (\<lambda>x. real_record u (snd x)) rs)"
proof (induction rs arbitrary: out)
  case (Cons x rs)
  obtain vp pl b where x: "x = (vp, pl)" "u pl = Inr b" using Cons.prems by (cases x; cases "u (snd x)") auto
  show ?case
  proof (cases "real_record u pl")
    case True
    let ?req = "\<lparr>startTS = StartTs b, commitTS = CommitTs b, tp = Tp b, req_payload = [], req_vp = vp, req_err = None\<rparr>"
    have "scanRequests_fn u collect_requests vp (record_of pl) out = (None, out @ [?req])"
      using True x(2) by (auto simp: scanRequests_fn_def record_of_def real_record_def collect_requests_def)
    moreover obtain more where "visits (scanRequests_fn u collect_requests) rs (out @ [?req]) = (None, (out @ [?req]) @ more)"
      "map req_vp more = map fst (filter (\<lambda>x. real_record u (snd x)) rs)" using Cons.IH Cons.prems by (metis list.set_intros(2))
    ultimately show ?thesis using x(1) True by (intro exI [of _ "?req # more"]) simp
  next
    case False
    have "scanRequests_fn u collect_requests vp (record_of pl) out = (None, out)"
      using False x(2) by (auto simp: scanRequests_fn_def record_of_def real_record_def)
    then show ?thesis using Cons.IH [of out] Cons.prems x(1) False by simp
  qed
qed simp



end
