(* ===== verification/Merge.thy ===== *)
theory Merge
  imports Wire "HOL-Library.Multiset"
begin

text \<open>
  The merger of a drainer, \<^verbatim>\<open>drainer/merge.go\<close>, and the items it merges, \<^verbatim>\<open>drainer/binlog_item.go\<close>: the
  binlogs of all pumps, each ordered by commit timestamp, become one ordered stream.

  The two strategies that find the least item are \<^verbatim>\<open>HeapStrategy\<close>, over the binary heap of
  \<^verbatim>\<open>container/heap\<close>, and \<^verbatim>\<open>NormalStrategy\<close>, over a map. Both implement the contract \<open>merge_strategy\<close>.
  The order in which Go iterates over a map is the order of an association list, which is arbitrary.
\<close>

section \<open>Items\<close>

record 'job binlogItem =
  bi_binlog :: Binlog
  bi_nodeID :: string
  bi_job :: "'job option"

definition GetCommitTs :: "'job binlogItem \<Rightarrow> int" where
  "GetCommitTs b = CommitTs (bi_binlog b)"

definition GetSourceID :: "'job binlogItem \<Rightarrow> string" where
  "GetSourceID b = bi_nodeID b"

definition newBinlogItem :: "Binlog \<Rightarrow> string \<Rightarrow> 'job binlogItem" where
  "newBinlogItem b nodeID = \<lparr>bi_binlog = b, bi_nodeID = nodeID, bi_job = None\<rparr>"

definition SetJob :: "'job \<Rightarrow> 'job binlogItem \<Rightarrow> 'job binlogItem" where
  "SetJob job b = b\<lparr>bi_job := Some job\<rparr>"

section \<open>\<^verbatim>\<open>container/heap\<close>\<close>

definition Less_items :: "'job binlogItem list \<Rightarrow> nat \<Rightarrow> nat \<Rightarrow> bool" where
  "Less_items m i j \<longleftrightarrow> GetCommitTs (m ! i) < GetCommitTs (m ! j)"

definition Swap_items :: "nat \<Rightarrow> nat \<Rightarrow> 'job binlogItem list \<Rightarrow> 'job binlogItem list" where
  "Swap_items i j m = m[i := m ! j, j := m ! i]"

function heap_up :: "nat \<Rightarrow> 'job binlogItem list \<Rightarrow> 'job binlogItem list" where
  "heap_up j m =
     (let i = (j - 1) div 2 in
      if i = j \<or> \<not> Less_items m j i then m else heap_up i (Swap_items i j m))"
  by pat_completeness auto

termination
  by (relation "measure fst") auto

function heap_down :: "nat \<Rightarrow> nat \<Rightarrow> 'job binlogItem list \<Rightarrow> 'job binlogItem list" where
  "heap_down i n m =
     (let j1 = 2 * i + 1 in
      if j1 \<ge> n then m
      else
        let j = (if j1 + 1 < n \<and> Less_items m (j1 + 1) j1 then j1 + 1 else j1) in
        if \<not> Less_items m j i then m else heap_down j n (Swap_items i j m))"
  by pat_completeness auto

termination
  by (relation "measure (\<lambda>(i, n, m). n - i)") auto

declare heap_up.simps [simp del] heap_down.simps [simp del]

definition heap_Push :: "'job binlogItem \<Rightarrow> 'job binlogItem list \<Rightarrow> 'job binlogItem list" where
  "heap_Push x m = heap_up (length m) (m @ [x])"

definition heap_Pop :: "'job binlogItem list \<Rightarrow> 'job binlogItem \<times> 'job binlogItem list" where
  "heap_Pop m =
     (let n = length m - 1; m = heap_down 0 n (Swap_items 0 n m)
      in (m ! n, take n m))"

section \<open>The strategies\<close>

record 'job HeapStrategy =
  hs_items :: "'job binlogItem list"
  hs_sourceIDs :: "string set"

definition NewHeapStrategy :: "'job HeapStrategy" where
  "NewHeapStrategy = \<lparr>hs_items = [], hs_sourceIDs = {}\<rparr>"

definition heap_strategy_Push :: "'job binlogItem \<Rightarrow> 'job HeapStrategy \<Rightarrow> 'job HeapStrategy" where
  "heap_strategy_Push item h =
     h\<lparr>hs_items := heap_Push item (hs_items h), hs_sourceIDs := insert (GetSourceID item) (hs_sourceIDs h)\<rparr>"

definition heap_strategy_Pop :: "'job HeapStrategy \<Rightarrow> ('job binlogItem \<times> 'job HeapStrategy) option" where
  "heap_strategy_Pop h =
     (if hs_items h = [] then None
      else (case heap_Pop (hs_items h) of (item, m) \<Rightarrow>
              Some (item, h\<lparr>hs_items := m, hs_sourceIDs := hs_sourceIDs h - {GetSourceID item}\<rparr>)))"

definition heap_strategy_Exist :: "'job HeapStrategy \<Rightarrow> string \<Rightarrow> bool" where
  "heap_strategy_Exist h sourceID \<longleftrightarrow> sourceID \<in> hs_sourceIDs h"

type_synonym 'job NormalStrategy = "(string \<times> 'job binlogItem) list"

definition NewNormalStrategy :: "'job NormalStrategy" where
  "NewNormalStrategy = []"

definition normal_strategy_Push :: "'job binlogItem \<Rightarrow> 'job NormalStrategy \<Rightarrow> 'job NormalStrategy" where
  "normal_strategy_Push item n = AList.update (GetSourceID item) item n"

definition min_item :: "'job NormalStrategy \<Rightarrow> 'job binlogItem option" where
  "min_item n =
     fold (\<lambda>(_, item) minItem.
       case minItem of
         None \<Rightarrow> Some item
       | Some mi \<Rightarrow> if GetCommitTs item < GetCommitTs mi then Some item else Some mi) n None"

definition normal_strategy_Pop :: "'job NormalStrategy \<Rightarrow> ('job binlogItem \<times> 'job NormalStrategy) option" where
  "normal_strategy_Pop n =
     (case min_item n of
        None \<Rightarrow> None
      | Some minItem \<Rightarrow> Some (minItem, AList.delete (GetSourceID minItem) n))"

definition normal_strategy_Exist :: "'job NormalStrategy \<Rightarrow> string \<Rightarrow> bool" where
  "normal_strategy_Exist n sourceID \<longleftrightarrow> map_of n sourceID \<noteq> None"

text \<open>The interface \<^verbatim>\<open>MergeStrategy\<close>: a value of one of the two types.\<close>

datatype 'job MergeStrategy = Heap "'job HeapStrategy" | Normal "'job NormalStrategy"

fun strategy_Push :: "'job binlogItem \<Rightarrow> 'job MergeStrategy \<Rightarrow> 'job MergeStrategy" where
  "strategy_Push item (Heap h) = Heap (heap_strategy_Push item h)"
| "strategy_Push item (Normal n) = Normal (normal_strategy_Push item n)"

fun strategy_Pop :: "'job MergeStrategy \<Rightarrow> ('job binlogItem \<times> 'job MergeStrategy) option" where
  "strategy_Pop (Heap h) = map_option (map_prod id Heap) (heap_strategy_Pop h)"
| "strategy_Pop (Normal n) = map_option (map_prod id Normal) (normal_strategy_Pop n)"

fun strategy_Exist :: "'job MergeStrategy \<Rightarrow> string \<Rightarrow> bool" where
  "strategy_Exist (Heap h) sourceID = heap_strategy_Exist h sourceID"
| "strategy_Exist (Normal n) sourceID = normal_strategy_Exist n sourceID"

section \<open>The merger\<close>

text \<open>A source is its ID and its channel: None for a nil channel, otherwise the items it still delivers before it
  is closed. \<open>m_output\<close> lists what has been sent to the output. The goroutine \<^verbatim>\<open>run\<close> alternates between
  filling the strategy from the sources it sees at the top of its loop and taking the least item;
  sources may be added and removed, and the merger closed or paused, between the two.\<close>

datatype merger_pc = AtTop | Filled | Stopped

record 'job Merger =
  m_sources :: "(string \<times> 'job binlogItem list option) list"
  m_strategy :: "'job MergeStrategy"
  m_latestTS :: int
  m_close :: bool
  m_pause :: bool
  m_sourceChanged :: bool
  m_pc :: merger_pc
  m_output :: "'job binlogItem list"

definition normalStrategy :: string where "normalStrategy = ''normal''"

definition heapStrategy :: string where "heapStrategy = ''heap''"

definition NewMerger :: "int \<Rightarrow> string \<Rightarrow> (string \<times> 'job binlogItem list option) list \<Rightarrow> 'job Merger" where
  "NewMerger t strategy sources =
     \<lparr>m_sources = fold (\<lambda>(sourceID, src). AList.update sourceID src) sources [],
      m_strategy = (if strategy = heapStrategy then Heap NewHeapStrategy
                    else if strategy = normalStrategy then Normal NewNormalStrategy
                    else Heap NewHeapStrategy),
      m_latestTS = t, m_close = False, m_pause = False, m_sourceChanged = False, m_pc = AtTop, m_output = []\<rparr>"

definition merger_Close :: "'job Merger \<Rightarrow> 'job Merger" where
  "merger_Close m = m\<lparr>m_close := True\<rparr>"

definition AddSource :: "string \<Rightarrow> 'job binlogItem list option \<Rightarrow> 'job Merger \<Rightarrow> 'job Merger" where
  "AddSource sourceID src m = m\<lparr>m_sources := AList.update sourceID src (m_sources m), m_sourceChanged := True\<rparr>"

definition RemoveSource :: "string \<Rightarrow> 'job Merger \<Rightarrow> 'job Merger" where
  "RemoveSource sourceID m = m\<lparr>m_sources := AList.delete sourceID (m_sources m), m_sourceChanged := True\<rparr>"

definition merger_Stop :: "'job Merger \<Rightarrow> 'job Merger" where
  "merger_Stop m = m\<lparr>m_pause := True\<rparr>"

definition merger_Continue :: "'job Merger \<Rightarrow> 'job Merger" where
  "merger_Continue m = m\<lparr>m_pause := False\<rparr>"

definition GetLatestTS :: "'job Merger \<Rightarrow> int" where
  "GetLatestTS m = m_latestTS m"

text \<open>The loop that reads one item from every source without one; the first result is \<^verbatim>\<open>skip\<close>.\<close>

fun fill_sources ::
  "(string \<times> 'job binlogItem list option) list \<Rightarrow> 'job MergeStrategy
     \<Rightarrow> bool \<times> (string \<times> 'job binlogItem list option) list \<times> 'job MergeStrategy" where
  "fill_sources [] st = (False, [], st)"
| "fill_sources ((sourceID, src) # sources) st =
     (if strategy_Exist st sourceID
      then (case fill_sources sources st of (skip, sources, st) \<Rightarrow> (skip, (sourceID, src) # sources, st))
      else
        (case src of
           Some (binlog # rest) \<Rightarrow>
             (case fill_sources sources (strategy_Push binlog st) of
                (skip, sources, st) \<Rightarrow> (skip, (sourceID, Some rest) # sources, st))
         | _ \<Rightarrow>
             (case fill_sources sources st of (skip, sources, st) \<Rightarrow> (True, (sourceID, src) # sources, st))))"

definition run_fill :: "'job Merger \<Rightarrow> 'job Merger" where
  "run_fill m =
     (let m = m\<lparr>m_sourceChanged := False\<rparr> in
      if m_close m then m\<lparr>m_pc := Stopped\<rparr>
      else if m_pause m then m
      else if m_sources m = [] then m
      else
        (case fill_sources (m_sources m) (m_strategy m) of
           (skip, sources, st) \<Rightarrow>
             m\<lparr>m_sources := sources, m_strategy := st, m_pc := (if skip then AtTop else Filled)\<rparr>))"

definition run_pop :: "'job Merger \<Rightarrow> 'job Merger" where
  "run_pop m =
     (case strategy_Pop (m_strategy m) of
        None \<Rightarrow> m\<lparr>m_pc := AtTop\<rparr>
      | Some (minBinlog, st) \<Rightarrow>
          if m_sourceChanged m then m\<lparr>m_strategy := strategy_Push minBinlog st, m_pc := AtTop\<rparr>
          else
            let m = m\<lparr>m_strategy := st, m_pc := AtTop\<rparr> in
            if GetCommitTs minBinlog < m_latestTS m then m
            else if GetCommitTs minBinlog = m_latestTS m then m
            else m\<lparr>m_output := m_output m @ [minBinlog], m_latestTS := GetCommitTs minBinlog\<rparr>)"

definition merger_run :: "'job Merger \<Rightarrow> 'job Merger" where
  "merger_run m = (case m_pc m of AtTop \<Rightarrow> run_fill m | Filled \<Rightarrow> run_pop m | Stopped \<Rightarrow> m)"

datatype 'job merger_event =
    Step | Add string "'job binlogItem list option" | Remove string | CloseIt | StopIt | ContinueIt

fun merger_step :: "'job merger_event \<Rightarrow> 'job Merger \<Rightarrow> 'job Merger" where
  "merger_step Step m = merger_run m"
| "merger_step (Add sourceID src) m = AddSource sourceID src m"
| "merger_step (Remove sourceID) m = RemoveSource sourceID m"
| "merger_step CloseIt m = merger_Close m"
| "merger_step StopIt m = merger_Stop m"
| "merger_step ContinueIt m = merger_Continue m"

definition merger_exec :: "'job merger_event list \<Rightarrow> 'job Merger \<Rightarrow> 'job Merger" where
  "merger_exec evs m = fold merger_step evs m"

section \<open>The binary heap\<close>

definition parent :: "nat \<Rightarrow> nat" where "parent i = (i - 1) div 2"

lemma parent_less: "0 < i \<Longrightarrow> parent i < i" and parent_eq: "parent i = i \<longleftrightarrow> i = 0"
  by (auto simp: parent_def)

lemma heap_up_step: "heap_up j m =
    (if parent j = j \<or> \<not> Less_items m j (parent j) then m else heap_up (parent j) (Swap_items (parent j) j m))"
  unfolding parent_def by (subst heap_up.simps) (simp add: Let_def)

abbreviation key_at :: "'job binlogItem list \<Rightarrow> nat \<Rightarrow> int" where "key_at m i \<equiv> GetCommitTs (m ! i)"

definition is_heap :: "'job binlogItem list \<Rightarrow> bool" where
  "is_heap m \<longleftrightarrow> (\<forall>i<length m. 0 < i \<longrightarrow> key_at m (parent i) \<le> key_at m i)"

lemma heap_root: "is_heap m \<Longrightarrow> i < length m \<Longrightarrow> key_at m 0 \<le> key_at m i"
proof (induction i rule: less_induct)
  case (less i)
  show ?case
  proof (cases "i = 0")
    case False
    then have "parent i < i" by (simp add: parent_less)
    with less have "key_at m 0 \<le> key_at m (parent i)" by simp
    also have "\<dots> \<le> key_at m i" using less.prems False by (simp add: is_heap_def)
    finally show ?thesis .
  qed simp
qed

lemma length_Swap [simp]: "length (Swap_items i j m) = length m"
  by (simp add: Swap_items_def)

lemma Swap_nth: "i < length m \<Longrightarrow> j < length m \<Longrightarrow>
    Swap_items i j m ! k = (if k = j then m ! i else if k = i then m ! j else m ! k)"
  by (auto simp: Swap_items_def nth_list_update)

lemma mset_Swap [simp]: "i < length m \<Longrightarrow> j < length m \<Longrightarrow> mset (Swap_items i j m) = mset m"
  by (simp add: Swap_items_def mset_swap)

text \<open>A heap but for the entry at \<open>j\<close>, which may be too small (going up) or too large (going down).\<close>

definition heap_but_up :: "nat \<Rightarrow> 'job binlogItem list \<Rightarrow> bool" where
  "heap_but_up j m \<longleftrightarrow>
     (\<forall>i<length m. 0 < i \<longrightarrow> i \<noteq> j \<longrightarrow> key_at m (parent i) \<le> key_at m i) \<and>
     (0 < j \<longrightarrow> (\<forall>i<length m. 0 < i \<longrightarrow> parent i = j \<longrightarrow> key_at m (parent j) \<le> key_at m i))"

lemma heap_up_ok:
  "j < length m \<Longrightarrow> heap_but_up j m \<Longrightarrow> is_heap (heap_up j m) \<and> mset (heap_up j m) = mset m"
proof (induction j arbitrary: m rule: less_induct)
  case (less j)
  note but = less.prems(2) and len = less.prems(1)
  show ?case
  proof (cases "parent j = j \<or> \<not> Less_items m j (parent j)")
    case True
    then have "heap_up j m = m" by (subst heap_up_step) simp
    moreover have "key_at m (parent i) \<le> key_at m i" if "i < length m" "0 < i" for i
    proof (cases "i = j")
      case True
      with \<open>parent j = j \<or> \<not> Less_items m j (parent j)\<close> that show ?thesis by (auto simp: Less_items_def parent_eq)
    next
      case False
      with but that show ?thesis by (simp add: heap_but_up_def)
    qed
    ultimately show ?thesis by (simp add: is_heap_def)
  next
    case False
    then have j: "0 < j" "parent j < j" "parent j < length m" "key_at m j < key_at m (parent j)"
      using len parent_less [of j] by (auto simp: Less_items_def parent_eq)
    let ?m = "Swap_items (parent j) j m"
    have up: "heap_up j m = heap_up (parent j) ?m" using False by (subst heap_up_step) simp
    have nth: "?m ! k = (if k = j then m ! parent j else if k = parent j then m ! j else m ! k)" for k
      by (rule Swap_nth) (use j len in auto)
    have ok: "key_at m (parent i) \<le> key_at m i" if "i < length m" "0 < i" "i \<noteq> j" for i
      using but that by (simp add: heap_but_up_def)
    have sib: "key_at m (parent j) \<le> key_at m i" if "i < length m" "0 < i" "parent i = j" for i
      using but that j(1) by (simp add: heap_but_up_def)
    have "heap_but_up (parent j) ?m"
      unfolding heap_but_up_def length_Swap
    proof (intro conjI allI impI)
      fix i assume i: "i < length m" "0 < i" "i \<noteq> parent j"
      show "key_at ?m (parent i) \<le> key_at ?m i"
      proof (cases "i = j")
        case True
        with j show ?thesis by (simp add: nth)
      next
        case False
        with i ok [OF i(1,2)] sib [OF i(1,2)] j(4) show ?thesis by (auto simp: nth)
      qed
    next
      fix i assume i: "0 < parent j" "i < length m" "0 < i" "parent i = parent j"
      have pp: "parent (parent j) \<noteq> j" "parent (parent j) \<noteq> parent j" using i(1) j(2) parent_less [of "parent j"] by auto
      have up: "key_at m (parent (parent j)) \<le> key_at m (parent j)" using ok [of "parent j"] i(1) j by simp
      have "i \<noteq> parent j" using i(1,4) parent_eq [of "parent j"] by auto
      with up ok [OF i(2,3)] i(4) show "key_at ?m (parent (parent j)) \<le> key_at ?m i"
        using pp by (auto simp: nth)
    qed
    with less.IH [OF j(2), of ?m] j up len show ?thesis by simp
  qed
qed

lemma heap_Push_ok: "is_heap m \<Longrightarrow> is_heap (heap_Push x m) \<and> mset (heap_Push x m) = add_mset x (mset m)"
proof -
  assume m: "is_heap m"
  have "key_at (m @ [x]) (parent i) \<le> key_at (m @ [x]) i" if "i < length m" "0 < i" for i
    using m that parent_less [of i] by (simp add: is_heap_def nth_append)
  moreover have "parent i \<noteq> length m" if "i < length (m @ [x])" "0 < i" for i using that parent_less [of i] by simp
  ultimately have "heap_but_up (length m) (m @ [x])" by (auto simp: heap_but_up_def less_Suc_eq)
  from heap_up_ok [OF _ this] show ?thesis by (simp add: heap_Push_def)
qed

definition heap_on :: "nat \<Rightarrow> 'job binlogItem list \<Rightarrow> bool" where
  "heap_on n m \<longleftrightarrow> (\<forall>k<n. 0 < k \<longrightarrow> key_at m (parent k) \<le> key_at m k)"

definition heap_but_down :: "nat \<Rightarrow> nat \<Rightarrow> 'job binlogItem list \<Rightarrow> bool" where
  "heap_but_down i n m \<longleftrightarrow>
     (\<forall>k<n. 0 < k \<longrightarrow> parent k \<noteq> i \<longrightarrow> key_at m (parent k) \<le> key_at m k) \<and>
     (0 < i \<longrightarrow> (\<forall>k<n. 0 < k \<longrightarrow> parent k = i \<longrightarrow> key_at m (parent i) \<le> key_at m k))"

lemma children: "0 < k \<Longrightarrow> parent k = i \<longleftrightarrow> k = 2 * i + 1 \<or> k = 2 * i + 2"
  by (auto simp: parent_def)

lemma heap_down_ok:
  "n \<le> length m \<Longrightarrow> i < n \<Longrightarrow> heap_but_down i n m \<Longrightarrow>
     heap_on n (heap_down i n m) \<and> mset (heap_down i n m) = mset m \<and> length (heap_down i n m) = length m \<and>
     (\<forall>k\<ge>n. heap_down i n m ! k = m ! k)"
proof (induction i n m rule: heap_down.induct)
  case (1 i n m)
  let ?j1 = "2 * i + 1"
  define j where "j = (if ?j1 + 1 < n \<and> Less_items m (?j1 + 1) ?j1 then ?j1 + 1 else ?j1)"
  have ok: "key_at m (parent k) \<le> key_at m k" if "k < n" "0 < k" "parent k \<noteq> i" for k
    using 1(4) that by (simp add: heap_but_down_def)
  show ?case
  proof (cases "?j1 \<ge> n \<or> \<not> Less_items m j i")
    case stop: True
    then have eq: "heap_down i n m = m" by (subst heap_down.simps) (auto simp: Let_def j_def)
    have "key_at m i \<le> key_at m k" if "k < n" "0 < k" "parent k = i" for k
      using that stop by (auto simp: children j_def Less_items_def split: if_splits)
    with ok have "heap_on n m" unfolding heap_on_def by metis
    with eq show ?thesis by simp
  next
    case go: False
    have j: "j < n" "0 < j" "parent j = i" "i < j" using go by (auto simp: j_def parent_def)
    have lt: "key_at m j < key_at m i" using go by (simp add: Less_items_def)
    have least: "key_at m j \<le> key_at m k" if "k < n" "0 < k" "parent k = i" for k
      using that by (auto simp: children j_def Less_items_def split: if_splits)
    let ?m = "Swap_items i j m"
    have down: "heap_down i n m = heap_down j n ?m"
      using go by (subst heap_down.simps) (auto simp: Let_def j_def)
    have nth: "?m ! k = (if k = j then m ! i else if k = i then m ! j else m ! k)" for k
      by (rule Swap_nth) (use j 1(2,3) in auto)
    have "heap_but_down j n ?m"
      unfolding heap_but_down_def
    proof (intro conjI allI impI)
      fix k assume k: "k < n" "0 < k" "parent k \<noteq> j"
      show "key_at ?m (parent k) \<le> key_at ?m k"
      proof (cases "parent k = i")
        case True
        with k least lt j show ?thesis by (auto simp: nth)
      next
        case False
        show ?thesis
        proof (cases "k = i")
          case True
          then have "key_at m (parent i) \<le> key_at m j" using 1(4) k(2) j by (simp add: heap_but_down_def)
          with True False k j parent_less [of k] show ?thesis by (simp add: nth)
        next
          case False
          with \<open>parent k \<noteq> i\<close> k ok j show ?thesis by (auto simp: nth)
        qed
      qed
    next
      fix k assume "k < n" "0 < k" "parent k = j"
      then show "key_at ?m (parent j) \<le> key_at ?m k"
        using ok [of k] j parent_less [of k] by (auto simp: nth)
    qed
    moreover have "n \<le> length ?m" using 1(2) by simp
    ultimately have "heap_on n (heap_down j n ?m) \<and> mset (heap_down j n ?m) = mset ?m \<and>
        length (heap_down j n ?m) = length ?m \<and> (\<forall>k\<ge>n. heap_down j n ?m ! k = ?m ! k)"
      using 1(1) [OF refl _ j_def] go j by auto
    then show ?thesis using down j 1(2,3) by (simp add: nth)
  qed
qed

lemma heap_Pop_ok:
  assumes "is_heap m" "m \<noteq> []" "heap_Pop m = (x, m')"
  shows "is_heap m'" "mset m = add_mset x (mset m')" "\<forall>y\<in>set m. GetCommitTs x \<le> GetCommitTs y"
proof -
  define n where "n = length m - 1"
  define sw where "sw = Swap_items 0 n m"
  define d where "d = heap_down 0 n sw"
  have n: "n < length m" "length m = Suc n" using assms(2) by (auto simp: n_def)
  have x: "x = d ! n" "m' = take n d" using assms(3) by (simp_all add: heap_Pop_def Let_def d_def sw_def n_def)
  have nth: "sw ! k = (if k = n then m ! 0 else if k = 0 then m ! n else m ! k)" for k
    unfolding sw_def by (rule Swap_nth) (use n in auto)
  have sw: "length sw = Suc n" "mset sw = mset m" using n by (simp_all add: sw_def)
  have d: "heap_on n d \<and> mset d = mset sw \<and> length d = length sw \<and> (\<forall>k\<ge>n. d ! k = sw ! k)"
  proof (cases "0 < n")
    case True
    have "key_at sw (parent k) \<le> key_at sw k" if "k < n" "0 < k" "parent k \<noteq> 0" for k
      using assms(1) that parent_less [of k] n(2) by (simp add: is_heap_def nth)
    then have "heap_but_down 0 n sw" by (simp add: heap_but_down_def)
    with True sw show ?thesis unfolding d_def by (intro heap_down_ok) auto
  next
    case False
    then have "d = sw" unfolding d_def by (subst heap_down.simps) simp
    with False show ?thesis by (simp add: heap_on_def)
  qed
  then have split: "d = m' @ [x]" using x sw(1) take_Suc_conv_app_nth [of n d] by simp
  have xm: "x = m ! 0" using d x(1) by (simp add: nth)
  have "mset m = mset (m' @ [x])" using d sw(2) split by simp
  then show "mset m = add_mset x (mset m')" by simp
  have "length m' = n" using split d sw(1) by simp
  moreover have "key_at d (parent k) \<le> key_at d k" if "k < n" "0 < k" for k using d that by (simp add: heap_on_def)
  moreover have "d ! k = m' ! k" if "k < n" for k using that \<open>length m' = n\<close> by (simp add: split nth_append)
  ultimately show "is_heap m'" using parent_less unfolding is_heap_def by (metis less_trans)
  show "\<forall>y\<in>set m. GetCommitTs x \<le> GetCommitTs y"
    using heap_root [OF assms(1)] by (auto simp: xm in_set_conv_nth)
qed

section \<open>The contract of a strategy\<close>

text \<open>A bag of items with at most one item of each source, from which the least can be taken.\<close>

locale merge_strategy =
  fixes inv :: "'s \<Rightarrow> bool"
    and bag :: "'s \<Rightarrow> 'job binlogItem multiset"
    and push :: "'job binlogItem \<Rightarrow> 's \<Rightarrow> 's"
    and pop :: "'s \<Rightarrow> ('job binlogItem \<times> 's) option"
    and exist :: "'s \<Rightarrow> string \<Rightarrow> bool"
  assumes exist_bag: "inv s \<Longrightarrow> exist s i \<longleftrightarrow> i \<in> GetSourceID ` set_mset (bag s)"
    and push_inv: "inv s \<Longrightarrow> \<not> exist s (GetSourceID x) \<Longrightarrow> inv (push x s)"
    and push_bag: "inv s \<Longrightarrow> \<not> exist s (GetSourceID x) \<Longrightarrow> bag (push x s) = add_mset x (bag s)"
    and pop_empty: "inv s \<Longrightarrow> pop s = None \<longleftrightarrow> bag s = {#}"
    and pop_inv: "inv s \<Longrightarrow> pop s = Some (x, s') \<Longrightarrow> inv s'"
    and pop_bag: "inv s \<Longrightarrow> pop s = Some (x, s') \<Longrightarrow> bag s = add_mset x (bag s')"
    and pop_source: "inv s \<Longrightarrow> pop s = Some (x, s') \<Longrightarrow> \<not> exist s' (GetSourceID x)"
    and pop_least: "inv s \<Longrightarrow> pop s = Some (x, s') \<Longrightarrow> y \<in># bag s \<Longrightarrow> GetCommitTs x \<le> GetCommitTs y"
begin

text \<open>An item that was taken can be put back.\<close>

lemma push_back:
  assumes "inv s" "pop s = Some (x, s')"
  shows "inv (push x s')" "bag (push x s') = bag s"
  using pop_inv [OF assms] pop_source [OF assms] pop_bag [OF assms] push_inv [of s' x] push_bag [of s' x] by auto

lemma exist_push: "inv s \<Longrightarrow> \<not> exist s (GetSourceID x) \<Longrightarrow> exist (push x s) i \<longleftrightarrow> exist s i \<or> i = GetSourceID x"
  by (auto simp: exist_bag push_inv push_bag)

end

definition heap_strategy_inv :: "'job HeapStrategy \<Rightarrow> bool" where
  "heap_strategy_inv h \<longleftrightarrow> is_heap (hs_items h) \<and> distinct (map GetSourceID (hs_items h)) \<and>
     hs_sourceIDs h = GetSourceID ` set (hs_items h)"

lemma heap_inv_mset:
  "mset xs = add_mset x (mset ys) \<Longrightarrow>
     distinct (map GetSourceID xs) \<longleftrightarrow> distinct (map GetSourceID ys) \<and> GetSourceID x \<notin> GetSourceID ` set ys"
proof -
  assume "mset xs = add_mset x (mset ys)"
  then have "mset (map GetSourceID xs) = mset (map GetSourceID (x # ys))" by simp
  from mset_eq_imp_distinct_iff [OF this] show ?thesis by auto
qed

lemma heap_strategy_pop_cases:
  assumes "heap_strategy_inv h" "heap_strategy_Pop h = Some (x, h')"
  shows "mset (hs_items h) = add_mset x (mset (hs_items h'))" "is_heap (hs_items h')"
    "hs_sourceIDs h' = hs_sourceIDs h - {GetSourceID x}" "\<forall>y\<in>set (hs_items h). GetCommitTs x \<le> GetCommitTs y"
  using assms heap_Pop_ok [of "hs_items h"]
  by (auto simp: heap_strategy_inv_def heap_strategy_Pop_def split: if_splits prod.splits)

interpretation hs: merge_strategy heap_strategy_inv "\<lambda>h. mset (hs_items h)" heap_strategy_Push heap_strategy_Pop heap_strategy_Exist
proof
  fix h :: "'a HeapStrategy" and x :: "'a binlogItem" and i
  assume h: "heap_strategy_inv h"
  then show "heap_strategy_Exist h i \<longleftrightarrow> i \<in> GetSourceID ` set_mset (mset (hs_items h))"
    by (simp add: heap_strategy_Exist_def heap_strategy_inv_def)
  show "heap_strategy_Pop h = None \<longleftrightarrow> mset (hs_items h) = {#}"
    by (auto simp: heap_strategy_Pop_def split: prod.splits)
  assume new: "\<not> heap_strategy_Exist h (GetSourceID x)"
  have p: "is_heap (heap_Push x (hs_items h))" "mset (heap_Push x (hs_items h)) = add_mset x (mset (hs_items h))"
    using h heap_Push_ok by (auto simp: heap_strategy_inv_def)
  then show "mset (hs_items (heap_strategy_Push x h)) = add_mset x (mset (hs_items h))"
    by (simp add: heap_strategy_Push_def)
  have "set (heap_Push x (hs_items h)) = insert x (set (hs_items h))" using arg_cong [OF p(2), of set_mset] by simp
  with h new p(1) heap_inv_mset [OF p(2)] show "heap_strategy_inv (heap_strategy_Push x h)"
    by (auto simp: heap_strategy_inv_def heap_strategy_Push_def heap_strategy_Exist_def)
next
  fix h h' :: "'a HeapStrategy" and x :: "'a binlogItem"
  assume h: "heap_strategy_inv h" and pop: "heap_strategy_Pop h = Some (x, h')"
  note c = heap_strategy_pop_cases [OF h pop]
  show "mset (hs_items h) = add_mset x (mset (hs_items h'))" by (rule c(1))
  have "set (hs_items h) = insert x (set (hs_items h'))" using arg_cong [OF c(1), of set_mset] by simp
  then show "heap_strategy_inv h'" "\<not> heap_strategy_Exist h' (GetSourceID x)"
    using h c(2,3) heap_inv_mset [OF c(1)] by (auto simp: heap_strategy_inv_def heap_strategy_Exist_def)
  fix y assume "y \<in># mset (hs_items h)"
  then show "GetCommitTs x \<le> GetCommitTs y" using c(4) by simp
qed

definition normal_strategy_inv :: "'job NormalStrategy \<Rightarrow> bool" where
  "normal_strategy_inv n \<longleftrightarrow> distinct (map_keys n) \<and> list_all (\<lambda>(i, x). GetSourceID x = i) n"

definition lesser :: "'job binlogItem \<Rightarrow> 'job binlogItem option \<Rightarrow> 'job binlogItem option" where
  "lesser item minItem =
     (case minItem of
        None \<Rightarrow> Some item
      | Some mi \<Rightarrow> if GetCommitTs item < GetCommitTs mi then Some item else Some mi)"

lemma min_item_lesser: "min_item n = fold lesser (map snd n) None"
  unfolding min_item_def lesser_def fold_map comp_def by (simp add: case_prod_unfold)

lemma fold_lesser:
  "\<exists>x. fold lesser xs (Some m) = Some x \<and> x \<in> insert m (set xs) \<and> (\<forall>y\<in>insert m (set xs). GetCommitTs x \<le> GetCommitTs y)"
proof (induction xs arbitrary: m)
  case (Cons y xs)
  obtain m' where m': "lesser y (Some m) = Some m'" "m' = y \<or> m' = m" "GetCommitTs m' \<le> GetCommitTs y" "GetCommitTs m' \<le> GetCommitTs m"
    by (cases "GetCommitTs y < GetCommitTs m") (auto simp: lesser_def)
  from Cons.IH [of m'] m' show ?case by (auto intro: order_trans)
qed simp

lemma min_item_none: "min_item n = None \<longleftrightarrow> n = []"
proof (cases n)
  case (Cons p ps)
  with fold_lesser [of "map snd ps" "snd p"] show ?thesis by (auto simp: min_item_lesser lesser_def)
qed (simp add: min_item_lesser)

lemma min_item_some:
  assumes "min_item n = Some x"
  shows "x \<in> snd ` set n" "\<forall>y\<in>snd ` set n. GetCommitTs x \<le> GetCommitTs y"
proof -
  obtain p ps where n: "n = p # ps" using assms by (cases n) (auto simp: min_item_lesser)
  from fold_lesser [of "map snd ps" "snd p"] assms show "x \<in> snd ` set n" "\<forall>y\<in>snd ` set n. GetCommitTs x \<le> GetCommitTs y"
    by (auto simp: n min_item_lesser lesser_def)
qed

lemma mset_delete:
  "distinct (map fst n) \<Longrightarrow> (i, x) \<in> set n \<Longrightarrow> mset (map snd n) = add_mset x (mset (map snd (AList.delete i n)))"
proof (induction n)
  case (Cons p n)
  show ?case
  proof (cases "fst p = i")
    case True
    with Cons.prems have "p = (i, x)" "i \<notin> fst ` set n" by (auto intro: rev_image_eqI)
    then show ?thesis by (simp add: delete_id)
  next
    case False
    with Cons show ?thesis by (cases p) auto
  qed
qed simp

interpretation ns: merge_strategy normal_strategy_inv "\<lambda>n. mset (map snd n)" normal_strategy_Push normal_strategy_Pop normal_strategy_Exist
proof
  fix n :: "'a NormalStrategy" and x :: "'a binlogItem" and i
  assume n: "normal_strategy_inv n"
  have "fst ` set n = GetSourceID ` snd ` set n" using n by (force simp: normal_strategy_inv_def list_all_iff)
  then show "normal_strategy_Exist n i \<longleftrightarrow> i \<in> GetSourceID ` set_mset (mset (map snd n))"
    by (simp add: normal_strategy_Exist_def map_of_eq_None_iff)
  show "normal_strategy_Pop n = None \<longleftrightarrow> mset (map snd n) = {#}"
    using min_item_none [of n] by (auto simp: normal_strategy_Pop_def split: option.splits)
  assume new: "\<not> normal_strategy_Exist n (GetSourceID x)"
  then have k: "GetSourceID x \<notin> fst ` set n" by (simp add: normal_strategy_Exist_def map_of_eq_None_iff)
  then have "normal_strategy_Push x n = n @ [(GetSourceID x, x)]"
    by (induction n) (auto simp: normal_strategy_Push_def)
  then show "mset (map snd (normal_strategy_Push x n)) = add_mset x (mset (map snd n))"
    "normal_strategy_inv (normal_strategy_Push x n)"
    using n k by (auto simp: normal_strategy_inv_def)
next
  fix n n' :: "'a NormalStrategy" and x :: "'a binlogItem"
  assume n: "normal_strategy_inv n" and pop: "normal_strategy_Pop n = Some (x, n')"
  have m: "min_item n = Some x" "n' = AList.delete (GetSourceID x) n"
    using pop by (auto simp: normal_strategy_Pop_def split: option.splits)
  have "(GetSourceID x, x) \<in> set n" using min_item_some(1) [OF m(1)] n by (auto simp: normal_strategy_inv_def list_all_iff)
  with n m(2) show "mset (map snd n) = add_mset x (mset (map snd n'))"
    using mset_delete [of n "GetSourceID x" x] by (simp add: normal_strategy_inv_def)
  have "set n' \<subseteq> set n" by (auto simp: m(2) AList.delete_eq)
  with n distinct_delete [of n "GetSourceID x"] show "normal_strategy_inv n'"
    by (auto simp: normal_strategy_inv_def list_all_iff m(2))
  show "\<not> normal_strategy_Exist n' (GetSourceID x)" by (simp add: normal_strategy_Exist_def m(2) map_of_delete)
  fix y assume "y \<in># mset (map snd n)"
  then show "GetCommitTs x \<le> GetCommitTs y" using min_item_some(2) [OF m(1)] by auto
qed

fun strategy_inv :: "'job MergeStrategy \<Rightarrow> bool" where
  "strategy_inv (Heap h) = heap_strategy_inv h"
| "strategy_inv (Normal n) = normal_strategy_inv n"

fun strategy_bag :: "'job MergeStrategy \<Rightarrow> 'job binlogItem multiset" where
  "strategy_bag (Heap h) = mset (hs_items h)"
| "strategy_bag (Normal n) = mset (map snd n)"

interpretation ms: merge_strategy strategy_inv strategy_bag strategy_Push strategy_Pop strategy_Exist
proof
  fix s s' :: "'a MergeStrategy" and x y :: "'a binlogItem" and i
  assume s: "strategy_inv s"
  show "strategy_Exist s i \<longleftrightarrow> i \<in> GetSourceID ` set_mset (strategy_bag s)"
    using s by (cases s) (simp_all add: hs.exist_bag ns.exist_bag del: set_mset_mset)
  show "strategy_Pop s = None \<longleftrightarrow> strategy_bag s = {#}"
    using s by (cases s) (simp_all add: hs.pop_empty ns.pop_empty)
  show "strategy_inv (strategy_Push x s)" if "\<not> strategy_Exist s (GetSourceID x)"
    using s that by (cases s) (simp_all add: hs.push_inv ns.push_inv)
  show "strategy_bag (strategy_Push x s) = add_mset x (strategy_bag s)" if "\<not> strategy_Exist s (GetSourceID x)"
    using s that by (cases s) (simp_all add: hs.push_bag ns.push_bag del: mset_map)
  assume pop: "strategy_Pop s = Some (x, s')"
  show "strategy_inv s'" using s pop by (cases s) (auto intro: hs.pop_inv ns.pop_inv)
  show "strategy_bag s = add_mset x (strategy_bag s')"
    using s pop by (cases s) (auto dest: hs.pop_bag ns.pop_bag simp del: mset_map)
  show "\<not> strategy_Exist s' (GetSourceID x)" using s pop by (cases s) (auto dest: hs.pop_source ns.pop_source)
  show "GetCommitTs x \<le> GetCommitTs y" if "y \<in># strategy_bag s"
    using s pop that by (cases s) (auto dest: hs.pop_least ns.pop_least simp del: mset_map set_mset_mset)
qed

end
