(* ===== verification/MergeProps.thy ===== *)
theory MergeProps
  imports Merge
begin

text \<open>
  The merger sends an increasing stream, and with a fixed set of ordered sources it drops nothing but
  duplicates, whichever strategy it uses.
\<close>

section \<open>Ordered output\<close>

definition ordered_from :: "int \<Rightarrow> 'job Merger \<Rightarrow> bool" where
  "ordered_from t m \<longleftrightarrow> sorted_wrt (<) (t # map GetCommitTs (m_output m)) \<and>
     m_latestTS m = last (t # map GetCommitTs (m_output m))"

lemma ordered_snoc:
  "ordered_from t m \<Longrightarrow> m_latestTS m < GetCommitTs x \<Longrightarrow>
   ordered_from t (m\<lparr>m_output := m_output m @ [x], m_latestTS := GetCommitTs x\<rparr>)"
  by (cases "m_output m" rule: rev_cases) (auto simp: ordered_from_def sorted_wrt_append)

lemma ordered_frame [simp]:
  "ordered_from t (m\<lparr>m_sources := a\<rparr>) = ordered_from t m" "ordered_from t (m\<lparr>m_strategy := b\<rparr>) = ordered_from t m"
  "ordered_from t (m\<lparr>m_close := c\<rparr>) = ordered_from t m" "ordered_from t (m\<lparr>m_pause := c\<rparr>) = ordered_from t m"
  "ordered_from t (m\<lparr>m_sourceChanged := c\<rparr>) = ordered_from t m" "ordered_from t (m\<lparr>m_pc := p\<rparr>) = ordered_from t m"
  by (simp_all add: ordered_from_def)

lemma ordered_run: "ordered_from t m \<Longrightarrow> ordered_from t (merger_run m)"
proof -
  assume m: "ordered_from t m"
  have "ordered_from t (run_fill m)" using m by (simp add: run_fill_def Let_def split: prod.split)
  moreover have "ordered_from t (run_pop m)"
  proof (cases "strategy_Pop (m_strategy m)")
    case None
    with m show ?thesis by (simp add: run_pop_def)
  next
    case (Some p)
    obtain x st where p: "p = (x, st)" by (cases p)
    show ?thesis
    proof (cases "m_sourceChanged m \<or> GetCommitTs x \<le> m_latestTS m")
      case True
      with m Some p show ?thesis by (auto simp: run_pop_def Let_def)
    next
      case False
      with ordered_snoc [of t "m\<lparr>m_strategy := st, m_pc := AtTop\<rparr>" x] m Some p show ?thesis
        by (simp add: run_pop_def Let_def)
    qed
  qed
  ultimately show ?thesis using m by (simp add: merger_run_def split: merger_pc.split)
qed

lemma ordered_step: "ordered_from t m \<Longrightarrow> ordered_from t (merger_step e m)"
  by (cases e) (simp_all add: ordered_run AddSource_def RemoveSource_def merger_Close_def merger_Stop_def merger_Continue_def)

lemma ordered_exec: "ordered_from t m \<Longrightarrow> ordered_from t (merger_exec evs m)"
  unfolding merger_exec_def by (induction evs arbitrary: m) (simp_all add: ordered_step)

text \<open>C24. Whatever is added, removed, paused or disordered, the merger sends strictly increasing commit timestamps above
  the one it started from, and \<^verbatim>\<open>GetLatestTS\<close> is the last of them.\<close>

theorem merger_output_increasing:
  "sorted_wrt (<) (t # map GetCommitTs (m_output (merger_exec evs (NewMerger t strategy sources)))) \<and>
   GetLatestTS (merger_exec evs (NewMerger t strategy sources)) =
     last (t # map GetCommitTs (m_output (merger_exec evs (NewMerger t strategy sources))))"
proof -
  have "ordered_from t (NewMerger t strategy sources)" by (simp add: ordered_from_def NewMerger_def)
  from ordered_exec [OF this] show ?thesis by (simp add: ordered_from_def GetLatestTS_def)
qed

section \<open>Nothing is dropped\<close>

text \<open>The streams of the sources: every item carries the ID of its source, and the commit timestamps increase.\<close>

definition good_streams :: "int \<Rightarrow> (string \<times> 'job binlogItem list) list \<Rightarrow> bool" where
  "good_streams t srcs \<longleftrightarrow> distinct (map_keys srcs) \<and>
     list_all (\<lambda>(sourceID, xs). sorted_wrt (<) (t # map GetCommitTs xs) \<and>
       list_all (\<lambda>x. GetSourceID x = sourceID) xs) srcs"

text \<open>\<open>f\<close> gives the items each source still has.\<close>

definition source_inv ::
  "int \<Rightarrow> 'job binlogItem list \<Rightarrow> 'job MergeStrategy \<Rightarrow> 'job binlogItem list \<Rightarrow> 'job binlogItem list \<Rightarrow> bool" where
  "source_inv latest out st xs rest \<longleftrightarrow> (\<forall>z\<in>set rest. latest \<le> GetCommitTs z) \<and>
     (\<exists>taken. xs = taken @ rest \<and>
        (\<forall>x\<in>set taken. x \<in># strategy_bag st \<or> GetCommitTs x \<in> GetCommitTs ` set out))"

definition item_inv :: "int \<Rightarrow> (string \<Rightarrow> 'job binlogItem list) \<Rightarrow> 'job binlogItem \<Rightarrow> bool" where
  "item_inv latest f y \<longleftrightarrow> latest \<le> GetCommitTs y \<and> (\<forall>z\<in>set (f (GetSourceID y)). GetCommitTs y < GetCommitTs z)"

definition merge_inv ::
  "(string \<times> 'job binlogItem list) list \<Rightarrow> int \<Rightarrow> 'job binlogItem list \<Rightarrow> (string \<Rightarrow> 'job binlogItem list)
     \<Rightarrow> 'job MergeStrategy \<Rightarrow> bool" where
  "merge_inv srcs latest out f st \<longleftrightarrow> strategy_inv st \<and>
     (\<forall>i xs. (i, xs) \<in> set srcs \<longrightarrow> source_inv latest out st xs (f i)) \<and>
     (\<forall>y. y \<in># strategy_bag st \<longrightarrow> y \<in> set (concat (map snd srcs)) \<and> item_inv latest f y)"

lemma merge_invD:
  assumes "merge_inv srcs latest out f st"
  shows "strategy_inv st" "(i, xs) \<in> set srcs \<Longrightarrow> source_inv latest out st xs (f i)"
    "y \<in># strategy_bag st \<Longrightarrow> y \<in> set (concat (map snd srcs))" "y \<in># strategy_bag st \<Longrightarrow> item_inv latest f y"
  using assms by (simp_all add: merge_inv_def)

lemma source_inv_mono:
  "source_inv latest out st xs rest \<Longrightarrow> set_mset (strategy_bag st) \<subseteq> set_mset (strategy_bag st') \<Longrightarrow>
   source_inv latest out st' xs rest"
  unfolding source_inv_def by (elim conjE exE) (rule conjI, assumption, rule exI, auto)

lemma source_inv_take:
  "source_inv latest out st xs (x # rest) \<Longrightarrow> strategy_bag st' = add_mset x (strategy_bag st) \<Longrightarrow>
   source_inv latest out st' xs rest"
proof -
  assume "source_inv latest out st xs (x # rest)" and st': "strategy_bag st' = add_mset x (strategy_bag st)"
  then obtain taken where "xs = taken @ x # rest" "\<forall>z\<in>set (x # rest). latest \<le> GetCommitTs z"
    "\<forall>x\<in>set taken. x \<in># strategy_bag st \<or> GetCommitTs x \<in> GetCommitTs ` set out"
    by (auto simp: source_inv_def)
  with st' show ?thesis unfolding source_inv_def by (intro conjI exI [of _ "taken @ [x]"]) auto
qed

lemma good_streamsD:
  assumes "good_streams t srcs" "(i, xs) \<in> set srcs"
  shows "sorted_wrt (<) (t # map GetCommitTs xs)" "x \<in> set xs \<Longrightarrow> GetSourceID x = i"
    "(i, ys) \<in> set srcs \<Longrightarrow> ys = xs"
  using assms by (auto simp: good_streams_def list_all_iff dest: eq_key_imp_eq_value intro: rev_image_eqI)

lemma merge_inv_push:
  assumes good: "good_streams t srcs" and inv: "merge_inv srcs latest out f st"
    and i: "(i, xs) \<in> set srcs" and new: "\<not> strategy_Exist st i" and f: "f i = x # rest"
  shows "merge_inv srcs latest out (f(i := rest)) (strategy_Push x st)" "GetSourceID x = i"
proof -
  have src: "source_inv latest out st xs (x # rest)" using merge_invD(2) [OF inv i] f by simp
  then obtain taken where xs: "xs = taken @ x # rest" and le: "latest \<le> GetCommitTs x" by (auto simp: source_inv_def)
  show x: "GetSourceID x = i" using good_streamsD(2) [OF good i, of x] by (simp add: xs)
  have st: "strategy_inv st" by (rule merge_invD(1) [OF inv])
  have bag: "strategy_inv (strategy_Push x st)" "strategy_bag (strategy_Push x st) = add_mset x (strategy_bag st)"
    using ms.push_inv [OF st, of x] ms.push_bag [OF st, of x] new x by simp_all
  have other: "GetSourceID y \<noteq> i" if "y \<in># strategy_bag st" for y
    using new that ms.exist_bag [OF st, of i] by auto
  have self: "item_inv latest (f(i := rest)) x"
    using good_streamsD(1) [OF good i] le x by (auto simp: item_inv_def xs sorted_wrt_append)
  have old: "item_inv latest (f(i := rest)) y" if "y \<in># strategy_bag st" for y
    using merge_invD(4) [OF inv that] other [OF that] by (simp add: item_inv_def)
  have srcs: "source_inv latest out (strategy_Push x st) ys ((f(i := rest)) k)" if k: "(k, ys) \<in> set srcs" for k ys
  proof (cases "k = i")
    case True
    with k good_streamsD(3) [OF good i, of ys] source_inv_take [OF src bag(2)] show ?thesis by simp
  next
    case False
    have "set_mset (strategy_bag st) \<subseteq> set_mset (strategy_bag (strategy_Push x st))" using bag(2) by auto
    from source_inv_mono [OF merge_invD(2) [OF inv k] this] False show ?thesis by simp
  qed
  have stream: "x \<in> set (concat (map snd srcs))" using i by (force simp: xs)
  show "merge_inv srcs latest out (f(i := rest)) (strategy_Push x st)"
    unfolding merge_inv_def bag(2)
    using bag(1) srcs self old x stream merge_invD(3) [OF inv] by simp
qed

text \<open>The channels hold what the sources still have.\<close>

definition channels :: "(string \<Rightarrow> 'job binlogItem list) \<Rightarrow> (string \<times> 'job binlogItem list option) list \<Rightarrow> bool" where
  "channels f sources \<longleftrightarrow> (\<forall>(i, src)\<in>set sources. src = Some (f i))"

lemma channels_upd: "channels f sources \<Longrightarrow> i \<notin> set (map_keys sources) \<Longrightarrow> channels (f(i := r)) sources"
  by (force simp: channels_def)

lemma channels_Cons [simp]: "channels f ((i, src) # sources) \<longleftrightarrow> src = Some (f i) \<and> channels f sources"
  by (auto simp: channels_def)

text \<open>What one pass of the loop over the sources gives.\<close>

definition fills ::
  "(string \<times> 'job binlogItem list) list \<Rightarrow> int \<Rightarrow> 'job binlogItem list \<Rightarrow> (string \<times> 'job binlogItem list option) list
     \<Rightarrow> (string \<Rightarrow> 'job binlogItem list) \<Rightarrow> 'job MergeStrategy \<Rightarrow> (string \<Rightarrow> 'job binlogItem list)
     \<Rightarrow> bool \<times> (string \<times> 'job binlogItem list option) list \<times> 'job MergeStrategy \<Rightarrow> bool" where
  "fills srcs latest out sources f st f' res \<longleftrightarrow>
     (case res of (skip, sources', st') \<Rightarrow>
        merge_inv srcs latest out f' st' \<and> channels f' sources' \<and> map_keys sources' = map_keys sources \<and>
        (\<forall>i. i \<notin> set (map_keys sources) \<longrightarrow> f' i = f i) \<and>
        (\<forall>i. strategy_Exist st i \<longrightarrow> strategy_Exist st' i) \<and>
        (\<not> skip \<longrightarrow> (\<forall>i\<in>set (map_keys sources). strategy_Exist st' i)) \<and>
        (skip \<longrightarrow> (\<exists>i\<in>set (map_keys sources). \<not> strategy_Exist st' i \<and> f' i = [])) \<and>
        (\<forall>i. i \<notin> set (map_keys sources) \<longrightarrow> strategy_Exist st' i = strategy_Exist st i) \<and>
        size (strategy_bag st') + (\<Sum>i\<leftarrow>map_keys sources. length (f' i)) =
          size (strategy_bag st) + (\<Sum>i\<leftarrow>map_keys sources. length (f i)))"

lemma fill_sources_fills:
  assumes good: "good_streams t srcs"
  shows "merge_inv srcs latest out f st \<Longrightarrow> channels f sources \<Longrightarrow> distinct (map_keys sources) \<Longrightarrow>
    set (map_keys sources) \<subseteq> set (map_keys srcs) \<Longrightarrow>
    \<exists>f'. fills srcs latest out sources f st f' (fill_sources sources st)"
proof (induction sources arbitrary: f st)
  case Nil
  then show ?case by (auto simp: fills_def)
next
  case (Cons p sources)
  obtain i src where p: "p = (i, src)" by (cases p)
  note prems = Cons.prems [unfolded p]
  have ch: "src = Some (f i)" "channels f sources" using prems(2) by simp_all
  have rest: "distinct (map_keys sources)" "i \<notin> set (map_keys sources)" "set (map_keys sources) \<subseteq> set (map_keys srcs)"
    using prems(3,4) by auto
  show ?case
  proof (cases "strategy_Exist st i \<or> f i = []")
    case True
    from Cons.IH [OF prems(1) ch(2) rest(1,3)] obtain f' where
      "fills srcs latest out sources f st f' (fill_sources sources st)" by (elim exE)
    with True ch(1) rest(2) have "fills srcs latest out (p # sources) f st f' (fill_sources (p # sources) st)"
      unfolding p by (auto simp: fills_def split: prod.splits)
    then show ?thesis by (intro exI [of _ f'])
  next
    case False
    then obtain x r where x: "f i = x # r" by (cases "f i") auto
    obtain xs where xs: "(i, xs) \<in> set srcs" using prems(4) by auto
    have new: "\<not> strategy_Exist st i" using False by simp
    note push = merge_inv_push [OF good prems(1) xs new x]
    from Cons.IH [OF push(1) channels_upd [OF ch(2) rest(2)] rest(1,3)] obtain f' where
      "fills srcs latest out sources (f(i := r)) (strategy_Push x st) f' (fill_sources sources (strategy_Push x st))"
      by (elim exE)
    moreover have "strategy_Exist (strategy_Push x st) k \<longleftrightarrow> k = i \<or> strategy_Exist st k" for k
      using ms.exist_push [OF merge_invD(1) [OF prems(1)], of x k] new push(2) by auto
    moreover have "(\<Sum>k\<leftarrow>map_keys sources. length ((f(i := r)) k)) = (\<Sum>k\<leftarrow>map_keys sources. length (f k))"
      using rest(2) by (intro arg_cong [of _ _ sum_list] map_cong) auto
    moreover have "size (strategy_bag (strategy_Push x st)) = Suc (size (strategy_bag st))"
      using ms.push_bag [OF merge_invD(1) [OF prems(1)], of x] new push(2) by simp
    ultimately have "fills srcs latest out (p # sources) f st f' (fill_sources (p # sources) st)"
      using ch(1) x new rest(2) unfolding p by (auto simp: fills_def split: prod.splits)
    then show ?thesis by (intro exI [of _ f'])
  qed
qed

text \<open>Taking the least item, when every source has one in the strategy.\<close>

lemma source_inv_pop:
  assumes "source_inv latest out st xs rest" "strategy_bag st = add_mset x (strategy_bag st')"
    "\<forall>z\<in>set rest. GetCommitTs x \<le> GetCommitTs z"
    "insert (GetCommitTs x) (GetCommitTs ` set out) \<subseteq> GetCommitTs ` set out'"
  shows "source_inv (GetCommitTs x) out' st' xs rest"
proof -
  obtain taken where taken: "xs = taken @ rest"
    "\<forall>y\<in>set taken. y \<in># strategy_bag st \<or> GetCommitTs y \<in> GetCommitTs ` set out"
    using assms(1) by (auto simp: source_inv_def)
  have "\<forall>y\<in>set taken. y \<in># strategy_bag st' \<or> GetCommitTs y \<in> GetCommitTs ` set out'"
  proof
    fix y assume "y \<in> set taken"
    then consider "y = x" | "y \<in># strategy_bag st'" | "GetCommitTs y \<in> GetCommitTs ` set out"
      using taken(2) assms(2) by auto
    then show "y \<in># strategy_bag st' \<or> GetCommitTs y \<in> GetCommitTs ` set out'"
      using assms(4) by cases auto
  qed
  with taken(1) assms(3) show ?thesis unfolding source_inv_def by (intro conjI exI [of _ taken])
qed

lemma merge_inv_pop:
  assumes inv: "merge_inv srcs latest out f st" and all: "\<forall>i\<in>set (map_keys srcs). strategy_Exist st i"
    and pop: "strategy_Pop st = Some (x, st')"
    and out': "insert (GetCommitTs x) (GetCommitTs ` set out) \<subseteq> GetCommitTs ` set out'"
  shows "latest \<le> GetCommitTs x" "x \<in> set (concat (map snd srcs))" "merge_inv srcs (GetCommitTs x) out' f st'"
proof -
  have st: "strategy_inv st" by (rule merge_invD(1) [OF inv])
  note st' = ms.pop_inv [OF st pop] and bag = ms.pop_bag [OF st pop] and least = ms.pop_least [OF st pop]
  have "x \<in># strategy_bag st" using bag by simp
  from merge_invD(3,4) [OF inv this] show "latest \<le> GetCommitTs x" "x \<in> set (concat (map snd srcs))"
    by (simp_all add: item_inv_def)
  have later: "GetCommitTs x \<le> GetCommitTs z" if "(i, xs) \<in> set srcs" "z \<in> set (f i)" for i xs z
  proof -
    have "strategy_Exist st i" using all that(1) by force
    then obtain y where y: "y \<in># strategy_bag st" "GetSourceID y = i" using ms.exist_bag [OF st, of i] by auto
    have "GetCommitTs y < GetCommitTs z" using merge_invD(4) [OF inv y(1)] y(2) that(2) by (simp add: item_inv_def)
    with least [OF y(1)] show ?thesis by simp
  qed
  have items: "y \<in> set (concat (map snd srcs)) \<and> item_inv (GetCommitTs x) f y" if "y \<in># strategy_bag st'" for y
  proof -
    have y: "y \<in># strategy_bag st" using that bag by simp
    from merge_invD(3,4) [OF inv y] least [OF y] show ?thesis by (simp add: item_inv_def)
  qed
  have sources: "source_inv (GetCommitTs x) out' st' xs (f i)" if i: "(i, xs) \<in> set srcs" for i xs
    using source_inv_pop [OF merge_invD(2) [OF inv i] bag _ out'] later [OF i] by simp
  show "merge_inv srcs (GetCommitTs x) out' f st'"
    unfolding merge_inv_def using st' items sources by simp
qed

section \<open>The invariant of the merger\<close>

definition merger_inv ::
  "int \<Rightarrow> (string \<times> 'job binlogItem list) list \<Rightarrow> (string \<Rightarrow> 'job binlogItem list) \<Rightarrow> 'job Merger \<Rightarrow> bool" where
  "merger_inv t srcs f m \<longleftrightarrow> ordered_from t m \<and> set (m_output m) \<subseteq> set (concat (map snd srcs)) \<and>
     channels f (m_sources m) \<and> map_keys (m_sources m) = map_keys srcs \<and> \<not> m_sourceChanged m \<and>
     merge_inv srcs (m_latestTS m) (m_output m) f (m_strategy m) \<and>
     (m_pc m = Filled \<longrightarrow> (\<forall>i\<in>set (map_keys srcs). strategy_Exist (m_strategy m) i))"

lemma items_after: "good_streams t srcs \<Longrightarrow> x \<in> set (concat (map snd srcs)) \<Longrightarrow> t < GetCommitTs x"
  by (auto simp: good_streams_def list_all_iff)

lemma latest_sent: "ordered_from t m \<Longrightarrow> m_latestTS m \<noteq> t \<Longrightarrow> m_latestTS m \<in> GetCommitTs ` set (m_output m)"
  by (cases "m_output m" rule: rev_cases) (auto simp: ordered_from_def)

lemma merger_inv_fill:
  assumes good: "good_streams t srcs" and inv: "merger_inv t srcs f m" "m_pc m = AtTop"
  shows "\<exists>f'. merger_inv t srcs f' (run_fill m)"
proof -
  obtain f' where f': "fills srcs (m_latestTS m) (m_output m) (m_sources m) f (m_strategy m) f'
      (fill_sources (m_sources m) (m_strategy m))"
    using fill_sources_fills [OF good, of "m_latestTS m" "m_output m" f "m_strategy m" "m_sources m"] inv good
    by (auto simp: merger_inv_def good_streams_def simp del: set_map)
  show ?thesis
  proof (cases "m_close m \<or> m_pause m \<or> m_sources m = []")
    case True
    with inv have "merger_inv t srcs f (run_fill m)" by (auto simp: merger_inv_def run_fill_def Let_def)
    then show ?thesis by (intro exI [of _ f])
  next
    case False
    with inv f' have "merger_inv t srcs f' (run_fill m)"
      by (auto simp: merger_inv_def run_fill_def Let_def fills_def split: prod.splits)
    then show ?thesis by (intro exI [of _ f'])
  qed
qed

lemma merger_inv_pop:
  assumes good: "good_streams t srcs" and inv: "merger_inv t srcs f m" "m_pc m = Filled"
  shows "merger_inv t srcs f (run_pop m)"
proof (cases "strategy_Pop (m_strategy m)")
  case None
  with inv show ?thesis by (simp add: merger_inv_def run_pop_def)
next
  case (Some p)
  obtain x st where p: "strategy_Pop (m_strategy m) = Some (x, st)" using Some by (cases p) auto
  have m: "ordered_from t m" "merge_inv srcs (m_latestTS m) (m_output m) f (m_strategy m)"
    "\<forall>i\<in>set (map_keys srcs). strategy_Exist (m_strategy m) i"
    using inv by (simp_all add: merger_inv_def)
  have x: "m_latestTS m \<le> GetCommitTs x" "x \<in> set (concat (map snd srcs))"
    and sent: "merge_inv srcs (GetCommitTs x) (m_output m @ [x]) f st"
    using merge_inv_pop [OF m(2,3) p, of "m_output m @ [x]"] by auto
  show ?thesis
  proof (cases "GetCommitTs x = m_latestTS m")
    case True
    then have "m_latestTS m \<in> GetCommitTs ` set (m_output m)"
      using items_after [OF good x(2)] latest_sent [OF m(1)] by simp
    with True have "merge_inv srcs (GetCommitTs x) (m_output m) f st"
      using merge_inv_pop(3) [OF m(2,3) p, of "m_output m"] by simp
    with True p inv show ?thesis by (simp add: merger_inv_def run_pop_def Let_def)
  next
    case False
    with x(1) have "ordered_from t (m\<lparr>m_strategy := st, m_pc := AtTop, m_output := m_output m @ [x], m_latestTS := GetCommitTs x\<rparr>)"
      using ordered_snoc [of t "m\<lparr>m_strategy := st, m_pc := AtTop\<rparr>" x] m(1) by simp
    with False x p inv sent show ?thesis by (simp add: merger_inv_def run_pop_def Let_def)
  qed
qed

text \<open>The events of a fixed set of sources.\<close>

fun fixed_sources :: "'job merger_event \<Rightarrow> bool" where
  "fixed_sources (Add _ _) = False"
| "fixed_sources (Remove _) = False"
| "fixed_sources _ = True"

lemma merger_inv_step:
  assumes "good_streams t srcs" "merger_inv t srcs f m" "fixed_sources e"
  shows "\<exists>f'. merger_inv t srcs f' (merger_step e m)"
proof (cases e)
  case Step
  with merger_inv_fill [OF assms(1,2)] merger_inv_pop [OF assms(1,2)] assms(2) show ?thesis
    by (cases "m_pc m") (auto simp: merger_run_def)
qed (use assms in \<open>auto simp: merger_inv_def merger_Close_def merger_Stop_def merger_Continue_def intro!: exI [of _ f]\<close>)

lemma merger_inv_exec:
  assumes "good_streams t srcs"
  shows "merger_inv t srcs f m \<Longrightarrow> list_all fixed_sources evs \<Longrightarrow> \<exists>f'. merger_inv t srcs f' (merger_exec evs m)"
proof (induction evs arbitrary: f m)
  case Nil
  then show ?case by (auto simp: merger_exec_def)
next
  case (Cons e evs)
  from merger_inv_step [OF assms Cons.prems(1), of e] Cons.prems(2) obtain f' where
    "merger_inv t srcs f' (merger_step e m)" by auto
  from Cons.IH [OF this] Cons.prems(2) show ?case by (simp add: merger_exec_def)
qed

definition open_channels :: "(string \<times> 'job binlogItem list) list \<Rightarrow> (string \<times> 'job binlogItem list option) list" where
  "open_channels srcs = map (\<lambda>(i, xs). (i, Some xs)) srcs"

definition stream_of :: "(string \<times> 'job binlogItem list) list \<Rightarrow> string \<Rightarrow> 'job binlogItem list" where
  "stream_of srcs i = (case map_of srcs i of None \<Rightarrow> [] | Some xs \<Rightarrow> xs)"

lemma fold_update_new:
  "distinct (map_keys (acc @ kvs)) \<Longrightarrow> fold (\<lambda>(k, v). AList.update k v) kvs acc = acc @ kvs"
proof (induction kvs arbitrary: acc)
  case (Cons kv kvs)
  obtain k v where kv: "kv = (k, v)" by (cases kv)
  have "k \<notin> fst ` set acc" using Cons.prems kv by auto
  then have "AList.update k v acc = acc @ [(k, v)]" by (induction acc) auto
  with Cons.IH [of "acc @ [(k, v)]"] Cons.prems kv show ?case by simp
qed simp

lemma merger_inv_new:
  assumes "good_streams t srcs"
  shows "merger_inv t srcs (stream_of srcs) (NewMerger t strategy (open_channels srcs))"
proof -
  let ?m = "NewMerger t strategy (open_channels srcs)"
  have d: "distinct (map_keys srcs)" using assms by (simp add: good_streams_def)
  have keys: "map_keys (open_channels srcs) = map_keys srcs" by (induction srcs) (auto simp: open_channels_def)
  have of: "stream_of srcs i = xs" if "(i, xs) \<in> set srcs" for i xs
    using that d by (simp add: stream_of_def)
  have srcs: "m_sources ?m = open_channels srcs"
    using fold_update_new [of "[]" "open_channels srcs"] d keys by (simp add: NewMerger_def)
  have ch: "channels (stream_of srcs) (open_channels srcs)"
    using of by (auto simp: channels_def open_channels_def)
  have st: "strategy_inv (m_strategy ?m)" "strategy_bag (m_strategy ?m) = {#}"
    by (simp_all add: NewMerger_def NewHeapStrategy_def NewNormalStrategy_def heap_strategy_inv_def normal_strategy_inv_def is_heap_def)
  have "source_inv t [] st xs (stream_of srcs i)" if "(i, xs) \<in> set srcs" for i xs and st :: "'a MergeStrategy"
    using good_streamsD(1) [OF assms that] of [OF that] by (auto simp: source_inv_def less_imp_le)
  with st have "merge_inv srcs t [] (stream_of srcs) (m_strategy ?m)" by (simp add: merge_inv_def)
  with srcs ch keys show ?thesis
    by (simp add: merger_inv_def) (simp add: NewMerger_def ordered_from_def)
qed

lemma merger_inv_sent:
  assumes good: "good_streams t srcs" and inv: "merger_inv t srcs f m"
  shows "GetCommitTs ` set (m_output m) = {c \<in> GetCommitTs ` set (concat (map snd srcs)). c \<le> m_latestTS m}"
proof (intro equalityI subsetI)
  have o: "ordered_from t m" and out: "set (m_output m) \<subseteq> set (concat (map snd srcs))" using inv by (simp_all add: merger_inv_def)
  have "c \<le> m_latestTS m" if "c \<in> set (map GetCommitTs (m_output m))" for c
    using o that by (cases "m_output m" rule: rev_cases) (auto simp: ordered_from_def sorted_wrt_append less_imp_le)
  with out show "c \<in> {c \<in> GetCommitTs ` set (concat (map snd srcs)). c \<le> m_latestTS m}"
    if "c \<in> GetCommitTs ` set (m_output m)" for c using that by auto
  fix c assume "c \<in> {c \<in> GetCommitTs ` set (concat (map snd srcs)). c \<le> m_latestTS m}"
  then obtain i xs x where x: "(i, xs) \<in> set srcs" "x \<in> set xs" "c = GetCommitTs x" "c \<le> m_latestTS m" by auto
  have "m_latestTS m \<noteq> t" using good_streamsD(1) [OF good x(1)] x(2-4) by auto
  note latest = latest_sent [OF o this]
  have mi: "merge_inv srcs (m_latestTS m) (m_output m) f (m_strategy m)" using inv by (simp add: merger_inv_def)
  obtain taken where taken: "xs = taken @ f i" "\<forall>z\<in>set (f i). m_latestTS m \<le> GetCommitTs z"
    "\<forall>x\<in>set taken. x \<in># strategy_bag (m_strategy m) \<or> GetCommitTs x \<in> GetCommitTs ` set (m_output m)"
    using merge_invD(2) [OF mi x(1)] by (auto simp: source_inv_def)
  consider "x \<in> set (f i)" | "x \<in># strategy_bag (m_strategy m)" | "GetCommitTs x \<in> GetCommitTs ` set (m_output m)"
    using taken(1,3) x(2) by auto
  then have "c \<in> GetCommitTs ` set (m_output m) \<or> m_latestTS m \<le> c"
    using taken(2) merge_invD(4) [OF mi, of x] x(3) by cases (auto simp: item_inv_def)
  with x(4) latest show "c \<in> GetCommitTs ` set (m_output m)" by auto
qed


definition example_item :: "string \<Rightarrow> int \<Rightarrow> unit binlogItem" where
  "example_item node c = 
     newBinlogItem \<lparr>Tp = Commit, StartTs = c - 1, CommitTs = c, PrewriteKey = [], PrewriteValue = [], DdlQuery = [],
       DdlJobId = 0, DdlSchemaState = 0\<rparr> node"

definition example_sources :: "(string \<times> unit binlogItem list) list" where
  "example_sources = [(''a'', [example_item ''a'' 3, example_item ''a'' 8]), (''b'', [example_item ''b'' 5])]"

lemma example_good: "good_streams 1 example_sources" by code_simp


section \<open>Progress\<close>

definition pending :: "(string \<times> 'job binlogItem list) list \<Rightarrow> (string \<Rightarrow> 'job binlogItem list) \<Rightarrow> 'job Merger \<Rightarrow> nat" where
  "pending srcs f m = size (strategy_bag (m_strategy m)) + (\<Sum>i\<leftarrow>map_keys srcs. length (f i))"

definition drained :: "(string \<times> 'job binlogItem list) list \<Rightarrow> 'job Merger \<Rightarrow> bool" where
  "drained srcs m \<longleftrightarrow> list_ex (\<lambda>(i, xs). GetCommitTs ` set xs \<subseteq> GetCommitTs ` set (m_output m)) srcs"

definition idle :: "'job Merger \<Rightarrow> bool" where
  "idle m \<longleftrightarrow> m_pc m = AtTop \<and> \<not> m_close m \<and> \<not> m_pause m"

lemma source_drained:
  assumes good: "good_streams t srcs" and inv: "merge_inv srcs (m_latestTS m) (m_output m) f (m_strategy m)"
    and i: "i \<in> set (map_keys srcs)" "\<not> strategy_Exist (m_strategy m) i" "f i = []"
  shows "drained srcs m"
proof -
  obtain xs where xs: "(i, xs) \<in> set srcs" using i(1) by auto
  have no: "x \<notin># strategy_bag (m_strategy m)" if "x \<in> set xs" for x
    using good_streamsD(2) [OF good xs that] i(2) ms.exist_bag [OF merge_invD(1) [OF inv], of i] by auto
  have "\<forall>x\<in>set xs. GetCommitTs x \<in> GetCommitTs ` set (m_output m)"
    using merge_invD(2) [OF inv xs] i(3) no by (auto simp: source_inv_def)
  with xs show ?thesis by (auto simp: drained_def list_ex_iff)
qed

lemma output_grows: "set (m_output m) \<subseteq> set (m_output (merger_exec evs m))"
proof (induction evs arbitrary: m)
  case (Cons e evs)
  have "set (m_output m) \<subseteq> set (m_output (merger_step e m))"
    by (cases e) (auto simp: AddSource_def RemoveSource_def merger_Close_def merger_Stop_def merger_Continue_def
        merger_run_def run_fill_def run_pop_def Let_def split: merger_pc.split prod.split option.split)
  with Cons.IH [of "merger_step e m"] show ?case by (simp add: merger_exec_def)
qed (simp add: merger_exec_def)

lemma drained_mono: "drained srcs m \<Longrightarrow> drained srcs (merger_exec evs m)"
  using output_grows [of m evs] by (fastforce simp: drained_def list_ex_iff)

lemma fill_progress:
  assumes good: "good_streams t srcs" "srcs \<noteq> []" and inv: "merger_inv t srcs f m" "idle m"
  shows "drained srcs (run_fill m) \<or>
    (\<exists>f'. merger_inv t srcs f' (run_fill m) \<and> m_pc (run_fill m) = Filled \<and> \<not> m_close (run_fill m) \<and>
      \<not> m_pause (run_fill m) \<and> pending srcs f' (run_fill m) = pending srcs f m)"
proof -
  obtain skip sources st where fs: "fill_sources (m_sources m) (m_strategy m) = (skip, sources, st)"
    by (cases "fill_sources (m_sources m) (m_strategy m)")
  obtain f' where f': "fills srcs (m_latestTS m) (m_output m) (m_sources m) f (m_strategy m) f' (skip, sources, st)"
    using fill_sources_fills [OF good(1), of "m_latestTS m" "m_output m" f "m_strategy m" "m_sources m"] inv good fs
    by (auto simp: merger_inv_def good_streams_def simp del: set_map)
  have ne: "m_sources m \<noteq> []" "map_keys (m_sources m) = map_keys srcs" using inv(1) good(2) by (auto simp: merger_inv_def)
  have fill: "run_fill m = m\<lparr>m_sourceChanged := False, m_sources := sources, m_strategy := st, m_pc := (if skip then AtTop else Filled)\<rparr>"
    using inv(2) ne(1) fs by (simp add: run_fill_def idle_def)
  show ?thesis
  proof (cases skip)
    case True
    then obtain i where "i \<in> set (map_keys srcs)" "\<not> strategy_Exist st i" "f' i = []"
      using f' ne(2) by (auto simp: fills_def simp del: set_map)
    with source_drained [OF good(1), of "run_fill m" f' i] f' show ?thesis by (simp add: fill fills_def)
  next
    case False
    with f' inv ne(2) have "merger_inv t srcs f' (run_fill m)" "pending srcs f' (run_fill m) = pending srcs f m"
      by (auto simp: fill fills_def merger_inv_def pending_def simp del: set_map map_map)
    with False inv(2) show ?thesis by (auto simp: fill idle_def)
  qed
qed

lemma pop_progress:
  assumes good: "good_streams t srcs" "srcs \<noteq> []" and inv: "merger_inv t srcs f m" "m_pc m = Filled" "\<not> m_close m" "\<not> m_pause m"
  shows "idle (run_pop m)" "Suc (pending srcs f (run_pop m)) = pending srcs f m"
proof -
  have st: "strategy_inv (m_strategy m)" and ch: "\<not> m_sourceChanged m" using inv(1) by (simp_all add: merger_inv_def merge_inv_def)
  obtain i where "strategy_Exist (m_strategy m) i" using inv(1,2) good(2) by (cases srcs) (auto simp: merger_inv_def)
  then have "strategy_Pop (m_strategy m) \<noteq> None" using ms.pop_empty [OF st] ms.exist_bag [OF st, of i] by auto
  then obtain x st' where p: "strategy_Pop (m_strategy m) = Some (x, st')" by auto
  show "idle (run_pop m)" using inv p ch by (simp add: run_pop_def idle_def Let_def)
  show "Suc (pending srcs f (run_pop m)) = pending srcs f m"
    using ms.pop_bag [OF st p] p ch by (simp add: run_pop_def pending_def Let_def)
qed

lemma merger_drains:
  assumes good: "good_streams t srcs" "srcs \<noteq> []"
  shows "merger_inv t srcs f m \<Longrightarrow> idle m \<Longrightarrow> pending srcs f m \<le> n \<Longrightarrow>
    drained srcs (merger_exec (replicate (2 * n) Step) m)"
proof (induction n arbitrary: f m)
  case 0
  then have e: "strategy_bag (m_strategy m) = {#}" "\<forall>i\<in>set (map_keys srcs). f i = []" by (auto simp: pending_def)
  obtain i where i: "i \<in> set (map_keys srcs)" using good(2) by (cases srcs) auto
  have mi: "merge_inv srcs (m_latestTS m) (m_output m) f (m_strategy m)" using 0 by (simp add: merger_inv_def)
  have "\<not> strategy_Exist (m_strategy m) i" using ms.exist_bag [OF merge_invD(1) [OF mi], of i] e(1) by simp
  with source_drained [OF good(1) mi i] bspec [OF e(2) i] show ?case by (simp add: merger_exec_def)
next
  case (Suc n)
  have two: "merger_exec (replicate (2 * Suc n) Step) m = merger_exec (replicate (2 * n) Step) (merger_run (run_fill m))"
    using Suc.prems(2) by (simp add: merger_exec_def merger_run_def idle_def)
  show ?case
  proof (cases "drained srcs (run_fill m)")
    case True
    with drained_mono [of srcs "run_fill m" "Step # replicate (2 * n) Step"] two show ?thesis
      by (simp add: merger_exec_def)
  next
    case False
    with fill_progress [OF good Suc.prems(1,2)] obtain f' where
      f': "merger_inv t srcs f' (run_fill m)" "m_pc (run_fill m) = Filled" "\<not> m_close (run_fill m)" "\<not> m_pause (run_fill m)"
        "pending srcs f' (run_fill m) = pending srcs f m" by auto
    note pop = pop_progress [OF good f'(1-4)]
    have "drained srcs (merger_exec (replicate (2 * n) Step) (run_pop (run_fill m)))"
      by (rule Suc.IH [OF merger_inv_pop [OF good(1) f'(1,2)] pop(1)]) (use pop(2) f'(5) Suc.prems(3) in simp)
    with two f'(2) show ?thesis by (simp add: merger_run_def)
  qed
qed



end
