(* ===== verification/TableFilter.thy ===== *)
theory TableFilter
  imports Prelude
begin

text \<open>
  \<^verbatim>\<open>pkg/filter/filter.go\<close>: the allow and block lists of databases and tables that the drainer and
  reparo apply to every event. The engine behind \<^verbatim>\<open>regexp\<close> is the parameter \<open>compile\<close>: the pattern's text to the
  predicate \<^verbatim>\<open>MatchString\<close>, or None when it does not parse.
\<close>

section \<open>The filter\<close>

record TableName =
  tn_Schema :: string
  tn_Table :: string

type_synonym regexp = "string \<Rightarrow> bool"
type_synonym regexp_compile = "string \<Rightarrow> regexp option"

record Filter =
  reMap :: "string \<rightharpoonup> regexp"
  doDBs :: "string list"
  doTables :: "TableName list"
  ignoreDBs :: "string list"
  ignoreTables :: "TableName list"

text \<open>\<^verbatim>\<open>strings.ToLower\<close> on ASCII letters.\<close>

definition lower_char :: "char \<Rightarrow> char" where
  "lower_char c = (let n = of_char c :: nat in if 65 \<le> n \<and> n \<le> 90 then char_of (n + 32) else c)"

abbreviation ToLower :: "string \<Rightarrow> string" where
  "ToLower \<equiv> map lower_char"

text \<open>The text given to \<^verbatim>\<open>regexp.MustCompile\<close>.\<close>

definition regex_text :: "string \<Rightarrow> string" where
  "regex_text originStr =
     (case originStr of
        CHR ''~'' # rest \<Rightarrow> ''(?i)'' @ rest
      | _ \<Rightarrow> ''(?i)^'' @ originStr @ ''$'')"

definition addOneRegex :: "regexp_compile \<Rightarrow> string \<Rightarrow> Filter \<Rightarrow> go_error + Filter" where
  "addOneRegex compile originStr s =
     (case reMap s originStr of
        Some _ \<Rightarrow> Inr s
      | None \<Rightarrow>
          (case compile (regex_text originStr) of
             None \<Rightarrow> Inl (Panic ''regexp: Compile'')
           | Some re \<Rightarrow> Inr (s\<lparr>reMap := (reMap s)(originStr \<mapsto> re)\<rparr>)))"

fun add_regexes :: "regexp_compile \<Rightarrow> string list \<Rightarrow> Filter \<Rightarrow> go_error + Filter" where
  "add_regexes compile [] s = Inr s"
| "add_regexes compile (p # ps) s =
     (case addOneRegex compile p s of Inl e \<Rightarrow> Inl e | Inr s \<Rightarrow> add_regexes compile ps s)"

definition table_patterns :: "TableName list \<Rightarrow> string list" where
  "table_patterns tbs = concat (map (\<lambda>tb. [tn_Schema tb, tn_Table tb]) tbs)"

definition genRegexMap :: "regexp_compile \<Rightarrow> Filter \<Rightarrow> go_error + Filter" where
  "genRegexMap compile s =
     add_regexes compile
       (doDBs s @ table_patterns (doTables s) @ ignoreDBs s @ table_patterns (ignoreTables s)) s"

definition NewFilter ::
  "regexp_compile \<Rightarrow> string list \<Rightarrow> TableName list \<Rightarrow> string list \<Rightarrow> TableName list \<Rightarrow> go_error + Filter" where
  "NewFilter compile iDBs iTables dDBs dTables =
     genRegexMap compile
       \<lparr>reMap = Map.empty, doDBs = dDBs, doTables = dTables, ignoreDBs = iDBs, ignoreTables = iTables\<rparr>"

definition matchString :: "Filter \<Rightarrow> string \<Rightarrow> string \<Rightarrow> bool" where
  "matchString s pattern t = (case reMap s pattern of Some re \<Rightarrow> re t | None \<Rightarrow> pattern = t)"

definition matchDB :: "Filter \<Rightarrow> string list \<Rightarrow> string \<Rightarrow> bool" where
  "matchDB s patternDBS a = list_ex (\<lambda>b. matchString s b a) patternDBS"

definition matchTable :: "Filter \<Rightarrow> TableName list \<Rightarrow> TableName \<Rightarrow> bool" where
  "matchTable s patternTBS tb =
     list_ex (\<lambda>ptb. matchString s (tn_Schema ptb) (tn_Schema tb) \<and> matchString s (tn_Table ptb) (tn_Table tb)) patternTBS"

definition allowFilter :: "Filter \<Rightarrow> TableName list \<Rightarrow> TableName list" where
  "allowFilter s stbs =
     (if doTables s = [] \<and> doDBs s = [] then stbs
      else concat (map (\<lambda>tb. (if matchTable s (doTables s) tb then [tb] else []) @
                             (if matchDB s (doDBs s) (tn_Schema tb) then [tb] else [])) stbs))"

definition blockFilter :: "Filter \<Rightarrow> TableName list \<Rightarrow> TableName list" where
  "blockFilter s stbs =
     (if ignoreTables s = [] \<and> ignoreDBs s = [] then stbs
      else filter (\<lambda>tb. \<not> matchTable s (ignoreTables s) tb \<and> \<not> matchDB s (ignoreDBs s) (tn_Schema tb)) stbs)"

definition SkipSchemaAndTable :: "Filter \<Rightarrow> string \<Rightarrow> string \<Rightarrow> bool" where
  "SkipSchemaAndTable s sch table =
     (blockFilter s (allowFilter s [\<lparr>tn_Schema = ToLower sch, tn_Table = ToLower table\<rparr>]) = [])"

section \<open>What the lists mean\<close>

text \<open>A pattern matches what its compiled expression matches; a table is listed when a database pattern matches its schema or
  both halves of a table pattern match.\<close>

definition pattern_matches :: "regexp_compile \<Rightarrow> string \<Rightarrow> string \<Rightarrow> bool" where
  "pattern_matches compile p t = (case compile (regex_text p) of Some re \<Rightarrow> re t | None \<Rightarrow> False)"

definition listed :: "regexp_compile \<Rightarrow> string list \<Rightarrow> TableName list \<Rightarrow> string \<Rightarrow> string \<Rightarrow> bool" where
  "listed compile dbs tbs sch table \<longleftrightarrow>
     (\<exists>p\<in>set dbs. pattern_matches compile p sch) \<or>
     (\<exists>tb\<in>set tbs. pattern_matches compile (tn_Schema tb) sch \<and> pattern_matches compile (tn_Table tb) table)"

definition replicated ::
  "regexp_compile \<Rightarrow> string list \<Rightarrow> TableName list \<Rightarrow> string list \<Rightarrow> TableName list \<Rightarrow> string \<Rightarrow> string \<Rightarrow> bool" where
  "replicated compile iDBs iTables dDBs dTables sch table \<longleftrightarrow>
     (dDBs = [] \<and> dTables = [] \<or> listed compile dDBs dTables (ToLower sch) (ToLower table)) \<and>
     \<not> listed compile iDBs iTables (ToLower sch) (ToLower table)"

text \<open>The expressions in the map are the compiled patterns, and the lists are left alone.\<close>

definition compiled :: "regexp_compile \<Rightarrow> Filter \<Rightarrow> bool" where
  "compiled compile s \<longleftrightarrow> (\<forall>p re. reMap s p = Some re \<longrightarrow> compile (regex_text p) = Some re)"

definition same_lists :: "Filter \<Rightarrow> Filter \<Rightarrow> bool" where
  "same_lists s s' \<longleftrightarrow> doDBs s' = doDBs s \<and> doTables s' = doTables s \<and> ignoreDBs s' = ignoreDBs s \<and> ignoreTables s' = ignoreTables s"

lemma addOneRegex_ok:
  "addOneRegex compile p s = Inr s' \<Longrightarrow> compiled compile s \<Longrightarrow>
   compiled compile s' \<and> same_lists s s' \<and> p \<in> dom (reMap s') \<and> dom (reMap s) \<subseteq> dom (reMap s')"
  by (auto simp: addOneRegex_def compiled_def same_lists_def split: option.splits if_splits)

lemma add_regexes_ok:
  "add_regexes compile ps s = Inr s' \<Longrightarrow> compiled compile s \<Longrightarrow>
   compiled compile s' \<and> same_lists s s' \<and> set ps \<union> dom (reMap s) \<subseteq> dom (reMap s')"
proof (induction ps arbitrary: s)
  case (Cons p ps)
  then obtain s1 where s1: "addOneRegex compile p s = Inr s1" "add_regexes compile ps s1 = Inr s'"
    by (auto split: sum.splits)
  note one = addOneRegex_ok [OF s1(1) Cons.prems(2)]
  with Cons.IH [OF s1(2)] show ?case unfolding same_lists_def by (simp; blast)
qed (simp add: same_lists_def)

lemma matchString_compiled:
  "compiled compile s \<Longrightarrow> p \<in> dom (reMap s) \<Longrightarrow> matchString s p t \<longleftrightarrow> pattern_matches compile p t"
  by (auto simp: compiled_def matchString_def pattern_matches_def)

lemma matches_listed:
  assumes "compiled compile s" "set dbs \<subseteq> dom (reMap s)" "set (table_patterns tbs) \<subseteq> dom (reMap s)"
  shows "matchTable s tbs tb \<or> matchDB s dbs (tn_Schema tb) \<longleftrightarrow> listed compile dbs tbs (tn_Schema tb) (tn_Table tb)"
proof -
  have "p \<in> dom (reMap s)" if "p \<in> set dbs" for p using that assms(2) by auto
  moreover have "tn_Schema q \<in> dom (reMap s)" "tn_Table q \<in> dom (reMap s)" if "q \<in> set tbs" for q
    using that assms(3) by (auto simp: table_patterns_def)
  ultimately show ?thesis
    using matchString_compiled [OF assms(1)] by (auto simp: matchTable_def matchDB_def listed_def list_ex_iff)
qed

section \<open>The filter is what the lists mean\<close>

text \<open>An engine for patterns without operators: a search, or with anchors the whole text, in both cases ignoring case.\<close>

fun infix_of :: "string \<Rightarrow> string \<Rightarrow> bool" where
  "infix_of p [] = (p = [])"
| "infix_of p (c # t) = (take (length p) (c # t) = p \<or> infix_of p t)"

definition literal_regexp :: regexp_compile where
  "literal_regexp re =
     (let body = drop 4 re in
      if take 4 re \<noteq> ''(?i)'' then None
      else if body \<noteq> [] \<and> hd body = CHR ''^'' \<and> last body = CHR ''$''
        then Some (\<lambda>t. ToLower t = ToLower (butlast (tl body)))
      else Some (\<lambda>t. infix_of (ToLower body) (ToLower t)))"

text \<open>C37. A filter that could be built skips a table exactly when the lists say so, in any letter case: it is replicated when the allow
  lists are empty or one of them lists it, and no block list does.\<close>

theorem filter_decides:
  assumes "NewFilter compile iDBs iTables dDBs dTables = Inr f"
  shows "SkipSchemaAndTable f sch table \<longleftrightarrow> \<not> replicated compile iDBs iTables dDBs dTables sch table"
proof -
  let ?ps = "dDBs @ table_patterns dTables @ iDBs @ table_patterns iTables"
  let ?tb = "\<lparr>tn_Schema = ToLower sch, tn_Table = ToLower table\<rparr>"
  have "compiled compile f \<and> doDBs f = dDBs \<and> doTables f = dTables \<and> ignoreDBs f = iDBs \<and> ignoreTables f = iTables \<and>
      set ?ps \<subseteq> dom (reMap f)"
    using add_regexes_ok [OF assms [unfolded NewFilter_def genRegexMap_def]] by (simp add: compiled_def same_lists_def)
  then have f: "compiled compile f" "doDBs f = dDBs" "doTables f = dTables" "ignoreDBs f = iDBs" "ignoreTables f = iTables"
    "set dDBs \<subseteq> dom (reMap f)" "set (table_patterns dTables) \<subseteq> dom (reMap f)"
    "set iDBs \<subseteq> dom (reMap f)" "set (table_patterns iTables) \<subseteq> dom (reMap f)"
    by auto
  note allow = matches_listed [OF f(1,6,7), of ?tb] and block = matches_listed [OF f(1,8,9), of ?tb]
  have "allowFilter f [?tb] = [] \<longleftrightarrow> \<not> (dDBs = [] \<and> dTables = [] \<or> listed compile dDBs dTables (ToLower sch) (ToLower table))"
    "set (allowFilter f [?tb]) \<subseteq> {?tb}"
    using allow by (auto simp: allowFilter_def f(2,3))
  moreover have "blockFilter f tbs = [] \<longleftrightarrow> tbs = [] \<or> listed compile iDBs iTables (ToLower sch) (ToLower table)"
    if "set tbs \<subseteq> {?tb}" for tbs
  proof (cases "iDBs = [] \<and> iTables = []")
    case True
    then show ?thesis by (auto simp: blockFilter_def f(4,5) listed_def)
  next
    case False
    with that block show ?thesis by (cases tbs) (auto simp: blockFilter_def f(4,5) filter_empty_conv)
  qed
  ultimately show ?thesis unfolding SkipSchemaAndTable_def replicated_def by blast
qed

theorem filter_decides_witness:
  "case NewFilter literal_regexp [''mysql''] [] [''~shop''] [\<lparr>tn_Schema = ''app'', tn_Table = ''Users''\<rparr>] of
     Inl _ \<Rightarrow> False
   | Inr f \<Rightarrow> \<not> SkipSchemaAndTable f ''App'' ''users'' \<and> SkipSchemaAndTable f ''app'' ''orders''"
proof (cases "NewFilter literal_regexp [''mysql''] [] [''~shop''] [\<lparr>tn_Schema = ''app'', tn_Table = ''Users''\<rparr>]")
  case (Inl e)
  moreover have "\<not> isl (NewFilter literal_regexp [''mysql''] [] [''~shop''] [\<lparr>tn_Schema = ''app'', tn_Table = ''Users''\<rparr>])"
    by code_simp
  ultimately show ?thesis by simp
next
  case (Inr f)
  have "replicated literal_regexp [''mysql''] [] [''~shop''] [\<lparr>tn_Schema = ''app'', tn_Table = ''Users''\<rparr>] ''App'' ''users''"
    "\<not> replicated literal_regexp [''mysql''] [] [''~shop''] [\<lparr>tn_Schema = ''app'', tn_Table = ''Users''\<rparr>] ''app'' ''orders''"
    by code_simp+
  with Inr filter_decides [OF Inr] show ?thesis by simp
qed

end
