(* ===== verification/DrainerSchema.thy ===== *)
theory DrainerSchema
  imports TableFilter
begin

text \<open>
  \<^verbatim>\<open>drainer/schema.go\<close>: the drainer's copy of the upstream catalogue, kept up to date by replaying the DDL jobs.
  The catalogue of schemas and tables refines an abstract map from table IDs to names and definitions.

  A \<^verbatim>\<open>*model.DBInfo\<close> is shared between the map \<^verbatim>\<open>schemas\<close> and the callers of \<^verbatim>\<open>CreateTable\<close>, which append to its tables;
  it is never stored under two IDs, so the model names it by its key in \<^verbatim>\<open>schemas\<close>. A nil pointer is None, and using it is a panic.
  The job and table descriptions are those of the parser package, with the fields the code reads.
\<close>

section \<open>Jobs\<close>

datatype ActionType =
    ActionCreateSchema | ActionDropSchema | ActionModifySchemaCharsetAndCollate
  | ActionCreateTable | ActionCreateView | ActionCreateSequence | ActionRecoverTable
  | ActionDropTable | ActionDropView | ActionDropSequence
  | ActionTruncateTable | ActionRenameTable | ActionDropColumn
  | ActionUpdateTiFlashReplicaStatus | ActionLockTable | ActionUnlockTable
  | ActionAlterTableAttributes | ActionAlterTablePartitionAttributes
  | OtherAction nat

datatype JobState = JobStateDone | JobStateSynced | OtherJobState nat

datatype SchemaState = StateNone | StateDeleteOnly | StatePublic | OtherState nat

datatype field_type =
    TypeInt24 | TypeDate | TypeDatetime | TypeNewDate | TypeTimestamp | TypeDuration | TypeNewDecimal | TypeJSON
  | TypeEnum | TypeSet | TypeBit | OtherType nat

text \<open>The original default value of a column: nil, a string, or a value of another type.\<close>

datatype default_value = NoDefault | DefaultString string | DefaultOther int

record ColumnInfo =
  ci_ID :: int
  ci_Name :: string
  ci_Tp :: field_type
  ci_State :: SchemaState
  ci_Generated :: bool
  ci_NotNull :: bool
  ci_PriKey :: bool
  ci_Unsigned :: bool
  ci_Elems :: "string list"
  OriginDefault :: default_value

record IndexColumn =
  ic_Name :: string
  ic_Offset :: nat
  ic_Length :: int

record IndexInfo =
  ix_Primary :: bool
  ix_Columns :: "IndexColumn list"

record TableInfo =
  ti_ID :: int
  ti_Name :: string
  ti_PKIsHandle :: bool
  ti_IsCommonHandle :: bool
  ti_Columns :: "ColumnInfo list"
  ti_Indices :: "IndexInfo list"

record DBInfo =
  db_ID :: int
  db_Name :: string
  db_Tables :: "TableInfo list"

record HistoryInfo =
  SchemaVersion :: int
  DBInfo_of :: "DBInfo option"
  TableInfo_of :: "TableInfo option"

record Job =
  job_Type :: ActionType
  job_State :: JobState
  job_SchemaState :: SchemaState
  job_SchemaID :: int
  job_TableID :: int
  job_Query :: string
  BinlogInfo :: "HistoryInfo option"

section \<open>The catalogue\<close>

record Schema =
  tableIDToName :: "int \<rightharpoonup> TableName"
  schemaNameToID :: "string \<rightharpoonup> int"
  schemas :: "int \<rightharpoonup> DBInfo"
  tables :: "int \<rightharpoonup> (int \<times> TableInfo) list"
  truncateTableID :: "int set"
  tblsDroppingCol :: "int \<Rightarrow> bool"
  tableSchemaVersion :: "int \<rightharpoonup> int"
  schemaMetaVersion :: int
  hasImplicitCol :: bool
  jobs :: "Job list"
  version2SchemaTable :: "int \<rightharpoonup> TableName"
  currentVersion :: int

definition implicitColName :: string where "implicitColName = ''_tidb_rowid''"

definition implicitColID :: int where "implicitColID = -1"

definition NewSchema :: "Job list \<Rightarrow> bool \<Rightarrow> Schema" where
  "NewSchema js implicit =
     \<lparr>tableIDToName = Map.empty, schemaNameToID = Map.empty, schemas = Map.empty, tables = Map.empty,
      truncateTableID = {}, tblsDroppingCol = (\<lambda>_. False), tableSchemaVersion = Map.empty, schemaMetaVersion = 0,
      hasImplicitCol = implicit,
      jobs = js, version2SchemaTable = Map.empty, currentVersion = 0\<rparr>"

definition SchemaMetaVersion :: "Schema \<Rightarrow> int" where
  "SchemaMetaVersion s = schemaMetaVersion s"

definition SchemaAndTableName :: "Schema \<Rightarrow> int \<Rightarrow> (string \<times> string) option" where
  "SchemaAndTableName s i = map_option (\<lambda>tn. (tn_Schema tn, tn_Table tn)) (tableIDToName s i)"

definition SchemaByID :: "Schema \<Rightarrow> int \<Rightarrow> DBInfo option" where
  "SchemaByID s i = schemas s i"

text \<open>The key of the schema of a table, and the schema.\<close>

definition schema_key :: "Schema \<Rightarrow> int \<Rightarrow> int option" where
  "schema_key s tableID =
     (case tableIDToName s tableID of None \<Rightarrow> None | Some tn \<Rightarrow> schemaNameToID s (tn_Schema tn))"

definition SchemaByTableID :: "Schema \<Rightarrow> int \<Rightarrow> DBInfo option" where
  "SchemaByTableID s tableID =
     (case tableIDToName s tableID of
        None \<Rightarrow> None
      | Some tn \<Rightarrow>
          (case schemaNameToID s (tn_Schema tn) of None \<Rightarrow> None | Some schemaID \<Rightarrow> SchemaByID s schemaID))"

definition TableByID :: "Schema \<Rightarrow> int \<Rightarrow> TableInfo option" where
  "TableByID s i =
     (case tables s i of
        None \<Rightarrow> None
      | Some tbls \<Rightarrow> if tbls = [] then None else Some (snd (last tbls)))"

definition forget_tables :: "TableInfo list \<Rightarrow> Schema \<Rightarrow> Schema" where
  "forget_tables ts s =
     fold (\<lambda>table s. s\<lparr>tables := (tables s)(ti_ID table := None),
                         tableIDToName := (tableIDToName s)(ti_ID table := None)\<rparr>) ts s"

definition DropSchema :: "int \<Rightarrow> Schema \<Rightarrow> (go_error + string) \<times> Schema" where
  "DropSchema i s =
     (case schemas s i of
        None \<Rightarrow> (Inl ErrNotFound, s)
      | Some schema \<Rightarrow>
          (let s = forget_tables (db_Tables schema) s
           in (Inr (db_Name schema),
               s\<lparr>schemas := (schemas s)(i := None), schemaNameToID := (schemaNameToID s)(db_Name schema := None)\<rparr>)))"

definition CreateSchema :: "DBInfo \<Rightarrow> Schema \<Rightarrow> go_error option \<times> Schema" where
  "CreateSchema db s =
     (case schemas s (db_ID db) of
        Some _ \<Rightarrow> (Some (ErrMsg ''already exists''), s)
      | None \<Rightarrow>
          (None, s\<lparr>schemas := (schemas s)(db_ID db \<mapsto> db),
                   schemaNameToID := (schemaNameToID s)(db_Name db \<mapsto> db_ID db)\<rparr>))"

fun remove_first :: "int \<Rightarrow> TableInfo list \<Rightarrow> TableInfo list" where
  "remove_first i [] = []"
| "remove_first i (t # ts) = (if ti_ID t = i then ts else t # remove_first i ts)"

definition removeTable :: "int \<Rightarrow> Schema \<Rightarrow> go_error option \<times> Schema" where
  "removeTable tableID s =
     (case (SchemaByTableID s tableID, schema_key s tableID) of
        (Some schema, Some k) \<Rightarrow>
          (None, s\<lparr>schemas := (schemas s)(k \<mapsto> schema\<lparr>db_Tables := remove_first tableID (db_Tables schema)\<rparr>)\<rparr>)
      | _ \<Rightarrow> (Some ErrNotFound, s))"

definition DropTable :: "int \<Rightarrow> Schema \<Rightarrow> (go_error + string) \<times> Schema" where
  "DropTable i s =
     (case tables s i of
        None \<Rightarrow> (Inl ErrNotFound, s)
      | Some tbls \<Rightarrow>
          if tbls = [] then (Inl (Panic ''index out of range''), s)
          else
            let table = snd (last tbls) in
            (case removeTable i s of
               (Some err, s) \<Rightarrow> (Inl err, s)
             | (None, s) \<Rightarrow>
                 (Inr (ti_Name table), s\<lparr>tables := (tables s)(i := None), tableIDToName := (tableIDToName s)(i := None)\<rparr>)))"

definition appendTableInfo :: "int \<Rightarrow> TableInfo \<Rightarrow> Schema \<Rightarrow> Schema" where
  "appendTableInfo v table s =
     (let tbls = (case tables s (ti_ID table) of None \<Rightarrow> [] | Some tbls \<Rightarrow> tbls);
          tbls = tbls @ [(v, table)];
          tbls = (if 2 < length tbls then drop (length tbls - 2) tbls else tbls)
      in s\<lparr>tables := (tables s)(ti_ID table \<mapsto> tbls)\<rparr>)"

definition TableBySchemaVersion :: "Schema \<Rightarrow> int \<Rightarrow> int \<Rightarrow> TableInfo option" where
  "TableBySchemaVersion s i v =
     (case tables s i of
        None \<Rightarrow> None
      | Some tbls \<Rightarrow> map_option snd (find (\<lambda>t. fst t \<ge> v) tbls))"

definition addImplicitColumn :: "TableInfo \<Rightarrow> TableInfo" where
  "addImplicitColumn table =
     table\<lparr>ti_Columns := ti_Columns table @ [\<lparr>ci_ID = implicitColID, ci_Name = implicitColName, ci_Tp = TypeInt24, ci_State = StateNone,
             ci_Generated = False, ci_NotNull = False, ci_PriKey = False, ci_Unsigned = False, ci_Elems = [], OriginDefault = NoDefault\<rparr>],
           ti_Indices := [\<lparr>ix_Primary = True, ix_Columns = [\<lparr>ic_Name = implicitColName, ic_Offset = 0, ic_Length = 0\<rparr>]\<rparr>]\<rparr>"

definition with_implicit :: "bool \<Rightarrow> TableInfo \<Rightarrow> TableInfo" where
  "with_implicit implicit table = (if implicit \<and> \<not> ti_PKIsHandle table then addImplicitColumn table else table)"

text \<open>\<^verbatim>\<open>CreateTable\<close> on the schema stored under \<open>k\<close>.\<close>

definition CreateTable :: "int \<Rightarrow> int \<Rightarrow> DBInfo \<Rightarrow> TableInfo \<Rightarrow> Schema \<Rightarrow> go_error option \<times> Schema" where
  "CreateTable v k schema table s =
     (if tables s (ti_ID table) \<noteq> None then (Some (ErrMsg ''already exists''), s)
      else
        let table = with_implicit (hasImplicitCol s) table;
            s = s\<lparr>schemas := (schemas s)(k \<mapsto> schema\<lparr>db_Tables := db_Tables schema @ [table]\<rparr>)\<rparr>;
            s = appendTableInfo v table s
        in (None, s\<lparr>tableIDToName := (tableIDToName s)(ti_ID table \<mapsto>
                      \<lparr>tn_Schema = db_Name schema, tn_Table = ti_Name table\<rparr>)\<rparr>))"

definition ReplaceTable :: "int \<Rightarrow> TableInfo \<Rightarrow> Schema \<Rightarrow> go_error option \<times> Schema" where
  "ReplaceTable v table s =
     (if tables s (ti_ID table) = None then (Some ErrNotFound, s)
      else (None, appendTableInfo v (with_implicit (hasImplicitCol s) table) s))"

definition addJob :: "Job \<Rightarrow> Schema \<Rightarrow> go_error + Schema" where
  "addJob job s =
     (if jobs s = [] then Inr (s\<lparr>jobs := [job]\<rparr>)
      else
        (case (BinlogInfo (last (jobs s)), BinlogInfo job) of
           (Some i, Some i') \<Rightarrow> Inr (if SchemaVersion i < SchemaVersion i' then s\<lparr>jobs := jobs s @ [job]\<rparr> else s)
         | _ \<Rightarrow> Inl (Panic ''nil pointer dereference'')))"

section \<open>Handling a job\<close>

definition skipJob :: "Job \<Rightarrow> bool" where
  "skipJob job \<longleftrightarrow> job_State job \<noteq> JobStateSynced \<and> job_State job \<noteq> JobStateDone"

fun unsupported :: "ActionType \<Rightarrow> bool" where
  "unsupported ActionUpdateTiFlashReplicaStatus = True"
| "unsupported ActionLockTable = True"
| "unsupported ActionUnlockTable = True"
| "unsupported ActionAlterTableAttributes = True"
| "unsupported ActionAlterTablePartitionAttributes = True"
| "unsupported _ = False"

definition skipUnsupportedDDLJob :: "Job \<Rightarrow> bool" where
  "skipUnsupportedDDLJob job = unsupported (job_Type job)"

type_synonym ddl_result = "(go_error + string \<times> string \<times> string) \<times> Schema"

definition nil_pointer :: go_error where
  "nil_pointer = Panic ''nil pointer dereference''"

text \<open>The end of every branch: the names are recorded under the version of the job, which becomes the current one.\<close>

definition finish_ddl :: "Job \<Rightarrow> string \<Rightarrow> string \<Rightarrow> Schema \<Rightarrow> ddl_result" where
  "finish_ddl job schemaName tableName s =
     (case BinlogInfo job of
        None \<Rightarrow> (Inl nil_pointer, s)
      | Some info \<Rightarrow>
          (Inr (schemaName, tableName, job_Query job),
           s\<lparr>version2SchemaTable :=
               (version2SchemaTable s)(SchemaVersion info \<mapsto> \<lparr>tn_Schema = schemaName, tn_Table = tableName\<rparr>),
             currentVersion := SchemaVersion info\<rparr>))"

definition handle_create_schema :: "Job \<Rightarrow> Schema \<Rightarrow> ddl_result" where
  "handle_create_schema job s =
     (case BinlogInfo job of
        None \<Rightarrow> (Inl nil_pointer, s)
      | Some info \<Rightarrow>
          (case DBInfo_of info of
             None \<Rightarrow> (Inl nil_pointer, s)
           | Some schema \<Rightarrow>
               (case CreateSchema schema s of
                  (Some err, s) \<Rightarrow> (Inl err, s)
                | (None, s) \<Rightarrow> finish_ddl job (db_Name schema) [] s)))"

definition handle_modify_schema :: "Job \<Rightarrow> Schema \<Rightarrow> ddl_result" where
  "handle_modify_schema job s =
     (case BinlogInfo job of
        None \<Rightarrow> (Inl nil_pointer, s)
      | Some info \<Rightarrow>
          (case DBInfo_of info of
             None \<Rightarrow> (Inl nil_pointer, s)
           | Some db \<Rightarrow>
               if schemas s (db_ID db) = None then (Inl ErrNotFound, s)
               else
                 finish_ddl job (db_Name db) []
                   (s\<lparr>schemas := (schemas s)(db_ID db \<mapsto> db),
                      schemaNameToID := (schemaNameToID s)(db_Name db \<mapsto> db_ID db)\<rparr>)))"

definition handle_drop_schema :: "Job \<Rightarrow> Schema \<Rightarrow> ddl_result" where
  "handle_drop_schema job s =
     (case DropSchema (job_SchemaID job) s of
        (Inl err, s) \<Rightarrow> (Inl err, s)
      | (Inr schemaName, s) \<Rightarrow> finish_ddl job schemaName [] s)"

definition handle_rename_table :: "Job \<Rightarrow> Schema \<Rightarrow> ddl_result" where
  "handle_rename_table job s =
     (if SchemaByTableID s (job_TableID job) = None then (Inl ErrNotFound, s)
      else
        (case DropTable (job_TableID job) s of
           (Inl err, s) \<Rightarrow> (Inl err, s)
         | (Inr _, s) \<Rightarrow>
             (case BinlogInfo job of
                None \<Rightarrow> (Inl nil_pointer, s)
              | Some info \<Rightarrow>
                  (case SchemaByID s (job_SchemaID job) of
                     None \<Rightarrow> (Inl ErrNotFound, s)
                   | Some schema \<Rightarrow>
                       (case TableInfo_of info of
                          None \<Rightarrow> (Inl nil_pointer, s)
                        | Some table \<Rightarrow>
                            (case CreateTable (SchemaVersion info) (job_SchemaID job) schema table s of
                               (Some err, s) \<Rightarrow> (Inl err, s)
                             | (None, s) \<Rightarrow> finish_ddl job (db_Name schema) (ti_Name table) s))))))"

definition handle_create_table :: "Job \<Rightarrow> Schema \<Rightarrow> ddl_result" where
  "handle_create_table job s =
     (case BinlogInfo job of
        None \<Rightarrow> (Inl nil_pointer, s)
      | Some info \<Rightarrow>
          (case TableInfo_of info of
             None \<Rightarrow> (Inl ErrNotFound, s)
           | Some table \<Rightarrow>
               (case SchemaByID s (job_SchemaID job) of
                  None \<Rightarrow> (Inl ErrNotFound, s)
                | Some schema \<Rightarrow>
                    (case CreateTable (SchemaVersion info) (job_SchemaID job) schema table s of
                       (Some err, s) \<Rightarrow> (Inl err, s)
                     | (None, s) \<Rightarrow> finish_ddl job (db_Name schema) (ti_Name table) s))))"

definition handle_drop_table :: "Job \<Rightarrow> Schema \<Rightarrow> ddl_result" where
  "handle_drop_table job s =
     (case SchemaByID s (job_SchemaID job) of
        None \<Rightarrow> (Inl ErrNotFound, s)
      | Some schema \<Rightarrow>
          (case DropTable (job_TableID job) s of
             (Inl err, s) \<Rightarrow> (Inl err, s)
           | (Inr tableName, s) \<Rightarrow> finish_ddl job (db_Name schema) tableName s))"

text \<open>The pointer to the schema is taken before the old table is dropped; dropping it may change the schema behind the pointer,
  so the schema is read again under its key.\<close>

definition handle_truncate_table :: "Job \<Rightarrow> Schema \<Rightarrow> ddl_result" where
  "handle_truncate_table job s =
     (case SchemaByID s (job_SchemaID job) of
        None \<Rightarrow> (Inl ErrNotFound, s)
      | Some _ \<Rightarrow>
          (case DropTable (job_TableID job) s of
             (Inl err, s) \<Rightarrow> (Inl err, s)
           | (Inr _, s) \<Rightarrow>
               (case BinlogInfo job of
                  None \<Rightarrow> (Inl nil_pointer, s)
                | Some info \<Rightarrow>
                    (case (TableInfo_of info, SchemaByID s (job_SchemaID job)) of
                       (Some table, Some schema) \<Rightarrow>
                         (case CreateTable (SchemaVersion info) (job_SchemaID job) schema table s of
                            (Some err, s) \<Rightarrow> (Inl err, s)
                          | (None, s) \<Rightarrow>
                              (case finish_ddl job (db_Name schema) (ti_Name table) s of
                                 (r, s) \<Rightarrow> (r, s\<lparr>truncateTableID := insert (job_TableID job) (truncateTableID s)\<rparr>)))
                     | _ \<Rightarrow> (Inl ErrNotFound, s)))))"

definition handle_other :: "Job \<Rightarrow> Schema \<Rightarrow> ddl_result" where
  "handle_other job s =
     (case BinlogInfo job of
        None \<Rightarrow> (Inl ErrNotFound, s)
      | Some info \<Rightarrow>
          (case TableInfo_of info of
             None \<Rightarrow> (Inl ErrNotFound, s)
           | Some tbInfo \<Rightarrow>
               (case SchemaByID s (job_SchemaID job) of
                  None \<Rightarrow> (Inl ErrNotFound, s)
                | Some schema \<Rightarrow>
                    (case ReplaceTable (SchemaVersion info) tbInfo s of
                       (Some err, s) \<Rightarrow> (Inl err, s)
                     | (None, s) \<Rightarrow>
                         (case finish_ddl job (db_Name schema) (ti_Name tbInfo) s of
                            (r, s) \<Rightarrow>
                              (r, if job_Type job = ActionDropColumn
                                  then s\<lparr>tblsDroppingCol := (tblsDroppingCol s)(job_TableID job := False)\<rparr> else s))))))"

text \<open>The switch on the type of the job.\<close>

fun ddl_branch :: "ActionType \<Rightarrow> Job \<Rightarrow> Schema \<Rightarrow> ddl_result" where
  "ddl_branch ActionCreateSchema = handle_create_schema"
| "ddl_branch ActionModifySchemaCharsetAndCollate = handle_modify_schema"
| "ddl_branch ActionDropSchema = handle_drop_schema"
| "ddl_branch ActionRenameTable = handle_rename_table"
| "ddl_branch ActionCreateTable = handle_create_table"
| "ddl_branch ActionCreateView = handle_create_table"
| "ddl_branch ActionCreateSequence = handle_create_table"
| "ddl_branch ActionRecoverTable = handle_create_table"
| "ddl_branch ActionDropTable = handle_drop_table"
| "ddl_branch ActionDropView = handle_drop_table"
| "ddl_branch ActionDropSequence = handle_drop_table"
| "ddl_branch ActionTruncateTable = handle_truncate_table"
| "ddl_branch _ = handle_other"

definition handleDDL :: "Job \<Rightarrow> Schema \<Rightarrow> ddl_result" where
  "handleDDL job s =
     (if skipJob job then (Inr ([], [], []), s)
      else if job_Query job = [] then (Inl (ErrMsg ''[ddl job sql miss]''), s)
      else ddl_branch (job_Type job) job s)"

text \<open>The loop over the waiting jobs; the jobs left are those from the first one above the version.\<close>

fun handle_jobs :: "int \<Rightarrow> Job list \<Rightarrow> Schema \<Rightarrow> (go_error + Job list) \<times> Schema" where
  "handle_jobs version [] s = (Inr [], s)"
| "handle_jobs version (job # js) s =
     (case BinlogInfo job of
        None \<Rightarrow> (Inl nil_pointer, s)
      | Some info \<Rightarrow>
          if SchemaVersion info > version then (Inr (job # js), s)
          else if SchemaVersion info \<le> currentVersion s then handle_jobs version js s
          else if job_SchemaState job = StateDeleteOnly \<and> job_Type job = ActionDropColumn
            then handle_jobs version js (s\<lparr>tblsDroppingCol := (tblsDroppingCol s)(job_TableID job := True)\<rparr>)
          else if skipUnsupportedDDLJob job then handle_jobs version js s
          else
            (case handleDDL job s of
               (Inl err, s) \<Rightarrow> (Inl err, s)
             | (Inr _, s) \<Rightarrow>
                 handle_jobs version js
                   (s\<lparr>tableSchemaVersion := (tableSchemaVersion s)(job_TableID job \<mapsto> SchemaVersion info)\<rparr>)))"

definition handlePreviousDDLJobIfNeed :: "int \<Rightarrow> Schema \<Rightarrow> go_error option \<times> Schema" where
  "handlePreviousDDLJobIfNeed version s =
     (case handle_jobs version (jobs s) s of
        (Inl err, s) \<Rightarrow> (Some err, s)
      | (Inr js, s) \<Rightarrow> (None, s\<lparr>jobs := js\<rparr>))"

definition IsDroppingColumn :: "Schema \<Rightarrow> int \<Rightarrow> bool" where
  "IsDroppingColumn s i = tblsDroppingCol s i"

definition CanAppendDefaultValue :: "Schema \<Rightarrow> int \<Rightarrow> int \<Rightarrow> bool" where
  "CanAppendDefaultValue s i v =
     (if IsDroppingColumn s i then True
      else (case tableSchemaVersion s i of Some v' \<Rightarrow> v < v' | None \<Rightarrow> False))"

definition IsTruncateTableID :: "Schema \<Rightarrow> int \<Rightarrow> bool" where
  "IsTruncateTableID s i \<longleftrightarrow> i \<in> truncateTableID s"

definition getSchemaTableAndDelete :: "int \<Rightarrow> Schema \<Rightarrow> (go_error + string \<times> string) \<times> Schema" where
  "getSchemaTableAndDelete version s =
     (case version2SchemaTable s version of
        None \<Rightarrow> (Inl ErrNotFound, s)
      | Some tn \<Rightarrow>
          (Inr (tn_Schema tn, tn_Table tn), s\<lparr>version2SchemaTable := (version2SchemaTable s)(version := None)\<rparr>))"

end
