(* ===== verification/SchemaProps.thy ===== *)
theory SchemaProps
  imports DrainerSchema
begin

text \<open>
  The drainer's catalogue: it stays consistent whatever the jobs are, replaying the jobs in several rounds is the same as in one,
  and on the job histories TiDB writes it refines a plain map from table IDs to names and definitions.
\<close>

section \<open>Consistency\<close>

definition tables_wf :: "(int \<rightharpoonup> (int \<times> TableInfo) list) \<Rightarrow> (int \<rightharpoonup> TableName) \<Rightarrow> bool" where
  "tables_wf tbls names \<longleftrightarrow> dom tbls = dom names \<and>
     (\<forall>i l. tbls i = Some l \<longrightarrow> l \<noteq> [] \<and> length l \<le> 2 \<and> (\<forall>t\<in>set l. ti_ID (snd t) = i))"

abbreviation schema_wf :: "Schema \<Rightarrow> bool" where
  "schema_wf s \<equiv> tables_wf (tables s) (tableIDToName s)"

lemma tables_wf_drop: "tables_wf tbls names \<Longrightarrow> tables_wf (tbls(i := None)) (names(i := None))"
  by (auto simp: tables_wf_def)

lemma with_implicit_fields [simp]: "ti_ID (with_implicit b t) = ti_ID t" "ti_Name (with_implicit b t) = ti_Name t"
  by (simp_all add: with_implicit_def addImplicitColumn_def)

lemma appendTableInfo_fields [simp]:
  "tableIDToName (appendTableInfo v t s) = tableIDToName s" "schemaNameToID (appendTableInfo v t s) = schemaNameToID s"
  "schemas (appendTableInfo v t s) = schemas s" "currentVersion (appendTableInfo v t s) = currentVersion s"
  "hasImplicitCol (appendTableInfo v t s) = hasImplicitCol s" "jobs (appendTableInfo v t s) = jobs s"
  by (simp_all add: appendTableInfo_def Let_def)

definition last_two :: "'a list \<Rightarrow> 'a list" where
  "last_two xs = drop (length xs - 2) xs"

lemma appendTableInfo_tables:
  "tables (appendTableInfo v t s) =
     (tables s)(ti_ID t \<mapsto> last_two ((case tables s (ti_ID t) of None \<Rightarrow> [] | Some l \<Rightarrow> l) @ [(v, t)]))"
  by (simp add: appendTableInfo_def last_two_def Let_def)

lemma last_two_facts [simp]: "last_two xs = [] \<longleftrightarrow> xs = []" "length (last_two xs) \<le> 2" "xs \<noteq> [] \<Longrightarrow> last (last_two xs) = last xs"
  by (cases xs rule: rev_cases; simp add: last_two_def)+

lemma set_last_two: "set (last_two xs) \<subseteq> set xs"
  by (simp add: last_two_def set_drop_subset)

lemma tables_wf_append:
  assumes "schema_wf s"
  shows "tables_wf (tables (appendTableInfo v t s)) ((tableIDToName s)(ti_ID t \<mapsto> tn))"
    "tables s (ti_ID t) \<noteq> None \<Longrightarrow> tables_wf (tables (appendTableInfo v t s)) (tableIDToName s)"
proof -
  let ?old = "case tables s (ti_ID t) of None \<Rightarrow> [] | Some l \<Rightarrow> l"
  have "\<forall>x\<in>set (last_two (?old @ [(v, t)])). ti_ID (snd x) = ti_ID t"
    using assms set_last_two [of "?old @ [(v, t)]"] by (fastforce simp: tables_wf_def split: option.splits)
  then show "tables_wf (tables (appendTableInfo v t s)) ((tableIDToName s)(ti_ID t \<mapsto> tn))"
    "tables s (ti_ID t) \<noteq> None \<Longrightarrow> tables_wf (tables (appendTableInfo v t s)) (tableIDToName s)"
    using assms by (auto simp: appendTableInfo_tables tables_wf_def insert_absorb)
qed

lemma DropTable_wf: "schema_wf s \<Longrightarrow> schema_wf (snd (DropTable i s))"
  by (auto simp: DropTable_def removeTable_def tables_wf_drop Let_def split: option.splits)

lemma forget_tables_fields:
  "tables (forget_tables ts s) = (\<lambda>i. if i \<in> ti_ID ` set ts then None else tables s i)"
  "tableIDToName (forget_tables ts s) = (\<lambda>i. if i \<in> ti_ID ` set ts then None else tableIDToName s i)"
  "schemas (forget_tables ts s) = schemas s" "schemaNameToID (forget_tables ts s) = schemaNameToID s"
  "hasImplicitCol (forget_tables ts s) = hasImplicitCol s" "currentVersion (forget_tables ts s) = currentVersion s"
  "jobs (forget_tables ts s) = jobs s"
  unfolding forget_tables_def by (induction ts arbitrary: s) (auto simp: fun_eq_iff)

lemma DropSchema_wf: "schema_wf s \<Longrightarrow> schema_wf (snd (DropSchema i s))"
  by (auto simp: DropSchema_def Let_def forget_tables_fields tables_wf_def dom_def split: option.splits if_splits)

lemma appendTableInfo_frame [simp]: "tables (appendTableInfo v t (s\<lparr>schemas := m\<rparr>)) = tables (appendTableInfo v t s)"
  by (simp add: appendTableInfo_tables)

lemma CreateTable_wf: "schema_wf s \<Longrightarrow> schema_wf (snd (CreateTable v k sch t s))"
  using tables_wf_append(1) [of s v "with_implicit (hasImplicitCol s) t"] by (simp add: CreateTable_def Let_def)

lemma ReplaceTable_wf: "schema_wf s \<Longrightarrow> schema_wf (snd (ReplaceTable v t s))"
  using tables_wf_append(2) [of s "with_implicit (hasImplicitCol s) t" v] by (simp add: ReplaceTable_def)

lemma CreateSchema_wf: "schema_wf s \<Longrightarrow> schema_wf (snd (CreateSchema db s))"
  by (simp add: CreateSchema_def split: option.split)

lemma finish_ddl_wf: "schema_wf s \<Longrightarrow> schema_wf (snd (finish_ddl job sn tn s))"
  by (simp add: finish_ddl_def split: option.split)

section \<open>What every job keeps\<close>

text \<open>A property that the operations of the catalogue keep is kept by every job, failing or not.\<close>

locale kept_by_ddl =
  fixes P :: "Schema \<Rightarrow> bool" and ok :: "HistoryInfo \<Rightarrow> bool"
  assumes keeps_DropTable: "P s \<Longrightarrow> P (snd (DropTable i s))"
    and keeps_DropSchema: "P s \<Longrightarrow> P (snd (DropSchema i s))"
    and keeps_CreateTable: "P s \<Longrightarrow> P (snd (CreateTable v k sch t s))"
    and keeps_ReplaceTable: "P s \<Longrightarrow> P (snd (ReplaceTable v t s))"
    and keeps_CreateSchema: "P s \<Longrightarrow> P (snd (CreateSchema db s))"
    and keeps_schemas: "P s \<Longrightarrow> P (s\<lparr>schemas := m, schemaNameToID := n\<rparr>)"
    and keeps_version: "P s \<Longrightarrow> ok info \<Longrightarrow> P (s\<lparr>version2SchemaTable := w, currentVersion := SchemaVersion info\<rparr>)"
    and keeps_truncate: "P s \<Longrightarrow> P (s\<lparr>truncateTableID := x\<rparr>)"
    and keeps_dropping: "P s \<Longrightarrow> P (s\<lparr>tblsDroppingCol := f\<rparr>)"
    and keeps_tableVersion: "P s \<Longrightarrow> P (s\<lparr>tableSchemaVersion := g\<rparr>)"
begin

abbreviation ok_job :: "Job \<Rightarrow> bool" where
  "ok_job job \<equiv> pred_option ok (BinlogInfo job)"

lemma keeps_finish: "P s \<Longrightarrow> ok_job job \<Longrightarrow> P (snd (finish_ddl job sn tn s))"
  by (cases "BinlogInfo job") (simp_all add: finish_ddl_def keeps_version)

lemma keeps_pairs:
  assumes "P s"
  shows "DropTable i s = (r, s') \<Longrightarrow> P s'" "DropSchema i s = (r, s') \<Longrightarrow> P s'" "CreateTable v k sch t s = (e, s') \<Longrightarrow> P s'"
    "ReplaceTable v t s = (e, s') \<Longrightarrow> P s'" "CreateSchema db s = (e, s') \<Longrightarrow> P s'" "ok_job job \<Longrightarrow> finish_ddl job sn tn s = (q, s') \<Longrightarrow> P s'"
  using assms keeps_DropTable [of s i] keeps_DropSchema [of s i] keeps_CreateTable [of s v k sch t]
    keeps_ReplaceTable [of s v t] keeps_CreateSchema [of s db] keeps_finish [of s job sn tn] by simp_all

lemma keeps_schema_jobs:
  assumes "P s" "ok_job job"
  shows "P (snd (handle_create_schema job s))" "P (snd (handle_modify_schema job s))" "P (snd (handle_drop_schema job s))"
  using assms unfolding handle_create_schema_def handle_modify_schema_def handle_drop_schema_def
  by (auto simp: keeps_finish keeps_schemas dest: keeps_pairs split: option.split prod.split sum.split)

lemma keeps_table_jobs:
  assumes "P s" "ok_job job"
  shows "P (snd (handle_create_table job s))" "P (snd (handle_drop_table job s))" "P (snd (handle_rename_table job s))"
    "P (snd (handle_other job s))"
  using assms
  unfolding handle_create_table_def handle_drop_table_def handle_rename_table_def handle_other_def
  by (auto intro: keeps_finish keeps_dropping dest: keeps_pairs split: option.split prod.split sum.split)

lemma keeps_truncate_job: "P s \<Longrightarrow> ok_job job \<Longrightarrow> P (snd (handle_truncate_table job s))"
proof (cases "DropTable (job_TableID job) s")
  case (Pair r s')
  assume "P s" and job: "ok_job job"
  with Pair have s': "P s'" by (auto dest: keeps_pairs)
  have "P (snd (case CreateTable v k sch t s' of (Some err, s) \<Rightarrow> (Inl err, s)
      | (None, s) \<Rightarrow> (case finish_ddl job sn tn s of (r, s) \<Rightarrow> (r, s\<lparr>truncateTableID := insert i (truncateTableID s)\<rparr>))))"
    for v k sch t sn tn i
  proof (cases "CreateTable v k sch t s'")
    case (Pair e s1)
    then have s1: "P s1" using keeps_CreateTable [OF s', of v k sch t] by simp
    obtain q s2 where f: "finish_ddl job sn tn s1 = (q, s2)" by (cases "finish_ddl job sn tn s1")
    have "P s2" using keeps_finish [OF s1 job, of sn tn] f by simp
    with Pair s1 f show ?thesis by (simp add: keeps_truncate split: option.split)
  qed
  with Pair s' \<open>P s\<close> show ?thesis unfolding handle_truncate_table_def by (simp split: option.split sum.split)
qed

lemma keeps_handleDDL: "P s \<Longrightarrow> ok_job job \<Longrightarrow> P (snd (handleDDL job s))"
  unfolding handleDDL_def by (cases "job_Type job") (simp_all add: keeps_schema_jobs keeps_table_jobs keeps_truncate_job)

lemma keeps_handle_jobs: "P s \<Longrightarrow> list_all ok_job js \<Longrightarrow> P (snd (handle_jobs v js s))"
proof (induction js arbitrary: s)
  case (Cons job js)
  have "P (snd (handleDDL job s))" using keeps_handleDDL [OF Cons.prems(1), of job] Cons.prems(2) by simp
  with Cons show ?case by (auto simp: keeps_dropping keeps_tableVersion split: option.split prod.split sum.split)
qed simp

end

interpretation wf: kept_by_ddl schema_wf "\<lambda>_. True"
  by unfold_locales (simp_all add: DropTable_wf DropSchema_wf CreateTable_wf ReplaceTable_wf CreateSchema_wf)

interpretation implicit_kept: kept_by_ddl "\<lambda>s. hasImplicitCol s = b" "\<lambda>_. True" for b
  by unfold_locales
    (auto simp: DropTable_def removeTable_def DropSchema_def CreateTable_def ReplaceTable_def CreateSchema_def Let_def
      forget_tables_fields split: option.split)

interpretation version_kept: kept_by_ddl "\<lambda>s. currentVersion s = c \<or> currentVersion s = v" "\<lambda>info. SchemaVersion info = v" for c v
  by unfold_locales
    (auto simp: DropTable_def removeTable_def DropSchema_def CreateTable_def ReplaceTable_def CreateSchema_def Let_def
      forget_tables_fields split: option.split)

text \<open>The states the drainer can reach: new jobs arrive, waiting jobs are handled, names are taken out.\<close>

inductive schema_reach :: "Schema \<Rightarrow> bool" where
  reach_new: "schema_reach (NewSchema js implicit)"
| reach_add: "schema_reach s \<Longrightarrow> addJob job s = Inr s' \<Longrightarrow> schema_reach s'"
| reach_handle: "schema_reach s \<Longrightarrow> schema_reach (snd (handlePreviousDDLJobIfNeed v s))"
| reach_take: "schema_reach s \<Longrightarrow> schema_reach (snd (getSchemaTableAndDelete v s))"

lemma addJob_cases: "addJob job s = Inr s' \<Longrightarrow> s' = s\<lparr>jobs := jobs s @ [job]\<rparr> \<or> s' = s"
  by (auto simp: addJob_def split: option.splits if_splits)

lemma reach_wf: "schema_reach s \<Longrightarrow> schema_wf s"
proof (induction rule: schema_reach.induct)
  case (reach_new js implicit)
  then show ?case by (simp add: NewSchema_def tables_wf_def)
next
  case (reach_add s job s')
  then show ?case by (auto dest!: addJob_cases)
next
  case (reach_handle s v)
  with wf.keeps_handle_jobs [of s "jobs s" v] show ?case
    by (auto simp: handlePreviousDDLJobIfNeed_def option.pred_True list_all_iff split: prod.split sum.split)
next
  case (reach_take s v)
  then show ?case by (simp add: getSchemaTableAndDelete_def split: option.split)
qed

lemma find_snd: "find p l = Some (a, t) \<Longrightarrow> t \<in> snd ` set l"
  by (induction l) (auto split: if_splits)

text \<open>C30. Whatever jobs arrive, handled, failed or skipped: a table has a definition exactly when it has a name, its definition carries its ID,
  the definition of any version is one of the two last, and dropping it does not run out of the list of its definitions.\<close>

theorem schema_consistent:
  assumes "schema_reach s"
  shows "(TableByID s i = None) = (SchemaAndTableName s i = None) \<and>
    (\<forall>t. TableByID s i = Some t \<longrightarrow> ti_ID t = i) \<and>
    (\<forall>v t. TableBySchemaVersion s i v = Some t \<longrightarrow>
       ti_ID t = i \<and> (\<exists>tbls. tables s i = Some tbls \<and> t \<in> snd ` set tbls \<and> length tbls \<le> 2)) \<and>
    fst (DropTable i s) \<noteq> Inl (Panic msg)"
proof (cases "tables s i")
  case None
  with reach_wf [OF assms] show ?thesis
    by (auto simp: tables_wf_def TableByID_def SchemaAndTableName_def TableBySchemaVersion_def DropTable_def)
next
  case (Some tbls)
  with reach_wf [OF assms] have l: "tbls \<noteq> []" "length tbls \<le> 2" "\<forall>t\<in>snd ` set tbls. ti_ID t = i" "tableIDToName s i \<noteq> None"
    by (auto simp: tables_wf_def)
  have drop: "fst (DropTable i s) \<noteq> Inl (Panic msg)"
    using Some l(1) by (auto simp: DropTable_def removeTable_def Let_def split: option.splits)
  show ?thesis
    using Some l drop by (auto simp: TableByID_def SchemaAndTableName_def TableBySchemaVersion_def dest: find_snd)
qed

definition example_table :: "int \<Rightarrow> string \<Rightarrow> TableInfo" where
  "example_table i n = \<lparr>ti_ID = i, ti_Name = n, ti_PKIsHandle = False, ti_IsCommonHandle = False, ti_Columns = [], ti_Indices = []\<rparr>"

definition example_job :: "int \<Rightarrow> ActionType \<Rightarrow> int \<Rightarrow> DBInfo option \<Rightarrow> TableInfo option \<Rightarrow> Job" where
  "example_job v a i db t =
     \<lparr>job_Type = a, job_State = JobStateDone, job_SchemaState = OtherState 0, job_SchemaID = 1, job_TableID = i,
      job_Query = ''ddl'', BinlogInfo = Some \<lparr>SchemaVersion = v, DBInfo_of = db, TableInfo_of = t\<rparr>\<rparr>"

definition example_history :: "Job list" where
  "example_history =
     [example_job 1 ActionCreateSchema 0 (Some \<lparr>db_ID = 1, db_Name = ''test'', db_Tables = []\<rparr>) None,
      example_job 2 ActionCreateTable 7 None (Some (example_table 7 ''a'')),
      example_job 3 ActionRenameTable 7 None (Some (example_table 7 ''b'')),
      example_job 4 ActionTruncateTable 7 None (Some (example_table 8 ''b'')),
      example_job 5 (OtherAction 3) 8 None (Some (example_table 8 ''b''))]"

definition example_state :: Schema where
  "example_state = snd (handlePreviousDDLJobIfNeed 5 (NewSchema example_history True))"

lemma example_reach: "schema_reach example_state"
  unfolding example_state_def by (intro reach_handle reach_new)

theorem schema_consistent_witness:
  "SchemaAndTableName example_state 8 = Some (''test'', ''b'') \<and> TableByID example_state 8 \<noteq> None \<and>
   TableByID example_state 7 = None"
proof -
  have "SchemaAndTableName example_state 8 = Some (''test'', ''b'')" "SchemaAndTableName example_state 7 = None" by code_simp+
  with schema_consistent [OF example_reach, of 8] schema_consistent [OF example_reach, of 7] show ?thesis by simp
qed

section \<open>Versions\<close>

lemma handleDDL_version:
  "handleDDL job s = (r, s') \<Longrightarrow> BinlogInfo job = Some info \<Longrightarrow>
   currentVersion s' = currentVersion s \<or> currentVersion s' = SchemaVersion info"
  using version_kept.keeps_handleDDL [of s "currentVersion s" "SchemaVersion info" job] by simp

lemma handle_jobs_version:
  "handle_jobs v js s = (r, s') \<Longrightarrow> currentVersion s \<le> currentVersion s' \<and> currentVersion s' \<le> max (currentVersion s) v"
proof (induction js arbitrary: s)
  case (Cons job js)
  show ?case
  proof (cases "BinlogInfo job")
    case None
    with Cons.prems show ?thesis by auto
  next
    case (Some info)
    obtain q s1 where d: "handleDDL job s = (q, s1)" by (cases "handleDDL job s")
    have "currentVersion s1 = currentVersion s \<or> currentVersion s1 = SchemaVersion info"
      by (rule handleDDL_version [OF d Some])
    with Some d Cons.prems Cons.IH [of s]
      Cons.IH [of "s\<lparr>tblsDroppingCol := (tblsDroppingCol s)(job_TableID job := True)\<rparr>"]
      Cons.IH [of "s1\<lparr>tableSchemaVersion := (tableSchemaVersion s1)(job_TableID job \<mapsto> SchemaVersion info)\<rparr>"]
    show ?thesis by (auto split: if_splits sum.splits)
  qed
qed auto

text \<open>Handling the jobs up to a version never moves the current version back, nor past that version.\<close>

theorem current_version_bounds:
  assumes "handlePreviousDDLJobIfNeed v s = (r, s')"
  shows "currentVersion s \<le> currentVersion s' \<and> currentVersion s' \<le> max (currentVersion s) v"
  using assms handle_jobs_version [of v "jobs s" s] by (auto simp: handlePreviousDDLJobIfNeed_def split: prod.splits sum.splits)

theorem current_version_bounds_witness:
  "currentVersion (snd (handlePreviousDDLJobIfNeed 3 (NewSchema example_history True))) \<in> {0..3}"
proof -
  obtain r s' where h: "handlePreviousDDLJobIfNeed 3 (NewSchema example_history True) = (r, s')"
    by (cases "handlePreviousDDLJobIfNeed 3 (NewSchema example_history True)")
  have "currentVersion (NewSchema example_history True) = 0" by code_simp
  with current_version_bounds [OF h] h show ?thesis by simp
qed

section \<open>Rounds\<close>

lemma handle_jobs_split:
  "handle_jobs v1 js s = (Inr js', s1) \<Longrightarrow> v1 \<le> v2 \<Longrightarrow> handle_jobs v2 js s = handle_jobs v2 js' s1"
proof (induction js arbitrary: s)
  case (Cons job js)
  then show ?case by (auto split: option.splits if_splits prod.splits sum.splits)
qed simp

text \<open>The loop does not look at the field it will replace.\<close>

lemma jobs_last:
  "s\<lparr>jobs := x, tables := a\<rparr> = s\<lparr>tables := a, jobs := x\<rparr>"
  "s\<lparr>jobs := x, tableIDToName := b\<rparr> = s\<lparr>tableIDToName := b, jobs := x\<rparr>"
  "s\<lparr>jobs := x, schemas := c\<rparr> = s\<lparr>schemas := c, jobs := x\<rparr>"
  "s\<lparr>jobs := x, schemaNameToID := d\<rparr> = s\<lparr>schemaNameToID := d, jobs := x\<rparr>"
  "s\<lparr>jobs := x, version2SchemaTable := e\<rparr> = s\<lparr>version2SchemaTable := e, jobs := x\<rparr>"
  "s\<lparr>jobs := x, currentVersion := v\<rparr> = s\<lparr>currentVersion := v, jobs := x\<rparr>"
  "s\<lparr>jobs := x, truncateTableID := f\<rparr> = s\<lparr>truncateTableID := f, jobs := x\<rparr>"
  "s\<lparr>jobs := x, tblsDroppingCol := g\<rparr> = s\<lparr>tblsDroppingCol := g, jobs := x\<rparr>"
  "s\<lparr>jobs := x, tableSchemaVersion := h\<rparr> = s\<lparr>tableSchemaVersion := h, jobs := x\<rparr>"
  by simp_all

lemma lookups_field [simp]:
  "SchemaByID (s\<lparr>jobs := x\<rparr>) = SchemaByID s" "SchemaByTableID (s\<lparr>jobs := x\<rparr>) = SchemaByTableID s"
  "schema_key (s\<lparr>jobs := x\<rparr>) = schema_key s"
  by (simp_all add: fun_eq_iff SchemaByID_def SchemaByTableID_def schema_key_def split: option.split)

lemma forget_tables_field: "forget_tables ts (s\<lparr>jobs := x\<rparr>) = (forget_tables ts s)\<lparr>jobs := x\<rparr>"
  unfolding forget_tables_def by (induction ts arbitrary: s) (simp_all add: jobs_last)

lemma appendTableInfo_field: "appendTableInfo v t (s\<lparr>jobs := x\<rparr>) = (appendTableInfo v t s)\<lparr>jobs := x\<rparr>"
  by (simp add: appendTableInfo_def Let_def jobs_last)

lemma schema_op_field:
  "DropTable i (s\<lparr>jobs := x\<rparr>) = map_prod id (\<lambda>s. s\<lparr>jobs := x\<rparr>) (DropTable i s)"
  "DropSchema i (s\<lparr>jobs := x\<rparr>) = map_prod id (\<lambda>s. s\<lparr>jobs := x\<rparr>) (DropSchema i s)"
  "CreateTable v k sch t (s\<lparr>jobs := x\<rparr>) = map_prod id (\<lambda>s. s\<lparr>jobs := x\<rparr>) (CreateTable v k sch t s)"
  "ReplaceTable v t (s\<lparr>jobs := x\<rparr>) = map_prod id (\<lambda>s. s\<lparr>jobs := x\<rparr>) (ReplaceTable v t s)"
  "CreateSchema db (s\<lparr>jobs := x\<rparr>) = map_prod id (\<lambda>s. s\<lparr>jobs := x\<rparr>) (CreateSchema db s)"
  "finish_ddl job sn tn (s\<lparr>jobs := x\<rparr>) = map_prod id (\<lambda>s. s\<lparr>jobs := x\<rparr>) (finish_ddl job sn tn s)"
  by (simp_all add: DropTable_def removeTable_def DropSchema_def CreateTable_def ReplaceTable_def CreateSchema_def
      finish_ddl_def forget_tables_field appendTableInfo_field jobs_last Let_def split: option.split)

lemma schema_jobs_field:
  "handle_create_schema job (s\<lparr>jobs := x\<rparr>) = map_prod id (\<lambda>s. s\<lparr>jobs := x\<rparr>) (handle_create_schema job s)"
  "handle_modify_schema job (s\<lparr>jobs := x\<rparr>) = map_prod id (\<lambda>s. s\<lparr>jobs := x\<rparr>) (handle_modify_schema job s)"
  "handle_drop_schema job (s\<lparr>jobs := x\<rparr>) = map_prod id (\<lambda>s. s\<lparr>jobs := x\<rparr>) (handle_drop_schema job s)"
proof -
  have create: "(case CreateSchema db (s\<lparr>jobs := x\<rparr>) of (Some err, s) \<Rightarrow> (Inl err, s) | (None, s) \<Rightarrow> finish_ddl job sn tn s) =
    map_prod id (\<lambda>s. s\<lparr>jobs := x\<rparr>)
      (case CreateSchema db s of (Some err, s) \<Rightarrow> (Inl err, s) | (None, s) \<Rightarrow> finish_ddl job sn tn s)" for db sn tn
    by (cases "CreateSchema db s") (simp add: schema_op_field split: option.split)
  show "handle_create_schema job (s\<lparr>jobs := x\<rparr>) = map_prod id (\<lambda>s. s\<lparr>jobs := x\<rparr>) (handle_create_schema job s)"
    unfolding handle_create_schema_def by (simp add: create split: option.split)
  show "handle_modify_schema job (s\<lparr>jobs := x\<rparr>) = map_prod id (\<lambda>s. s\<lparr>jobs := x\<rparr>) (handle_modify_schema job s)"
    unfolding handle_modify_schema_def by (simp add: schema_op_field jobs_last split: option.split)
  show "handle_drop_schema job (s\<lparr>jobs := x\<rparr>) = map_prod id (\<lambda>s. s\<lparr>jobs := x\<rparr>) (handle_drop_schema job s)"
    unfolding handle_drop_schema_def
    by (cases "DropSchema (job_SchemaID job) s") (simp add: schema_op_field split: sum.split)
qed

text \<open>\<^verbatim>\<open>CreateTable\<close> followed by the end of its branch.\<close>

lemma create_then_field:
  "(case CreateTable v k sch t (s\<lparr>jobs := x\<rparr>) of (Some err, s) \<Rightarrow> (Inl err, s) | (None, s) \<Rightarrow> finish_ddl job sn tn s) =
   map_prod id (\<lambda>s. s\<lparr>jobs := x\<rparr>)
     (case CreateTable v k sch t s of (Some err, s) \<Rightarrow> (Inl err, s) | (None, s) \<Rightarrow> finish_ddl job sn tn s)"
  by (cases "CreateTable v k sch t s") (simp add: schema_op_field split: option.split)

lemma table_jobs_field:
  "handle_create_table job (s\<lparr>jobs := x\<rparr>) = map_prod id (\<lambda>s. s\<lparr>jobs := x\<rparr>) (handle_create_table job s)"
  "handle_drop_table job (s\<lparr>jobs := x\<rparr>) = map_prod id (\<lambda>s. s\<lparr>jobs := x\<rparr>) (handle_drop_table job s)"
  "handle_rename_table job (s\<lparr>jobs := x\<rparr>) = map_prod id (\<lambda>s. s\<lparr>jobs := x\<rparr>) (handle_rename_table job s)"
proof -
  show "handle_create_table job (s\<lparr>jobs := x\<rparr>) = map_prod id (\<lambda>s. s\<lparr>jobs := x\<rparr>) (handle_create_table job s)"
    unfolding handle_create_table_def by (simp add: create_then_field split: option.split)
  obtain r s1 where d: "DropTable (job_TableID job) s = (r, s1)" by (cases "DropTable (job_TableID job) s")
  show "handle_drop_table job (s\<lparr>jobs := x\<rparr>) = map_prod id (\<lambda>s. s\<lparr>jobs := x\<rparr>) (handle_drop_table job s)"
    unfolding handle_drop_table_def by (simp add: schema_op_field d split: option.split sum.split)
  show "handle_rename_table job (s\<lparr>jobs := x\<rparr>) = map_prod id (\<lambda>s. s\<lparr>jobs := x\<rparr>) (handle_rename_table job s)"
    unfolding handle_rename_table_def
    by (simp add: schema_op_field(1) d create_then_field split: option.split sum.split)
qed

lemma truncate_job_field:
  "handle_truncate_table job (s\<lparr>jobs := x\<rparr>) = map_prod id (\<lambda>s. s\<lparr>jobs := x\<rparr>) (handle_truncate_table job s)"
proof -
  obtain r s1 where d: "DropTable (job_TableID job) s = (r, s1)" by (cases "DropTable (job_TableID job) s")
  have tail: "(case CreateTable v k sch t (s1\<lparr>jobs := x\<rparr>) of (Some err, s) \<Rightarrow> (Inl err, s)
      | (None, s) \<Rightarrow> (case finish_ddl job sn tn s of (r, s) \<Rightarrow> (r, s\<lparr>truncateTableID := insert i (truncateTableID s)\<rparr>))) =
    map_prod id (\<lambda>s. s\<lparr>jobs := x\<rparr>) (case CreateTable v k sch t s1 of (Some err, s) \<Rightarrow> (Inl err, s)
      | (None, s) \<Rightarrow> (case finish_ddl job sn tn s of (r, s) \<Rightarrow> (r, s\<lparr>truncateTableID := insert i (truncateTableID s)\<rparr>)))"
    for v k sch t sn tn i
    by (cases "CreateTable v k sch t s1"; cases "finish_ddl job sn tn (snd (CreateTable v k sch t s1))")
      (simp add: schema_op_field jobs_last split: option.split)
  show ?thesis
    unfolding handle_truncate_table_def by (simp add: schema_op_field(1) d tail split: option.split sum.split)
qed

lemma other_job_field: "handle_other job (s\<lparr>jobs := x\<rparr>) = map_prod id (\<lambda>s. s\<lparr>jobs := x\<rparr>) (handle_other job s)"
proof -
  have tail: "(case ReplaceTable v t (s\<lparr>jobs := x\<rparr>) of (Some err, s) \<Rightarrow> (Inl err, s)
      | (None, s) \<Rightarrow> (case finish_ddl job sn tn s of (r, s) \<Rightarrow> (r, if c then s\<lparr>tblsDroppingCol := (tblsDroppingCol s)(i := False)\<rparr> else s))) =
    map_prod id (\<lambda>s. s\<lparr>jobs := x\<rparr>) (case ReplaceTable v t s of (Some err, s) \<Rightarrow> (Inl err, s)
      | (None, s) \<Rightarrow> (case finish_ddl job sn tn s of (r, s) \<Rightarrow> (r, if c then s\<lparr>tblsDroppingCol := (tblsDroppingCol s)(i := False)\<rparr> else s)))"
    for v t sn tn i c
    by (cases "ReplaceTable v t s"; cases "finish_ddl job sn tn (snd (ReplaceTable v t s))")
      (simp add: schema_op_field jobs_last split: option.split)
  show ?thesis unfolding handle_other_def by (simp add: tail split: option.split)
qed

lemma ddl_branch_field: "ddl_branch a job (s\<lparr>jobs := x\<rparr>) = map_prod id (\<lambda>s. s\<lparr>jobs := x\<rparr>) (ddl_branch a job s)"
  by (cases a) (simp_all add: schema_jobs_field table_jobs_field truncate_job_field other_job_field)

lemma handle_jobs_field:
  "handle_jobs v js (s\<lparr>jobs := x\<rparr>) = map_prod id (\<lambda>s. s\<lparr>jobs := x\<rparr>) (handle_jobs v js s)"
proof (induction js arbitrary: s)
  case (Cons job js)
  have d: "handleDDL job (s\<lparr>jobs := x\<rparr>) = map_prod id (\<lambda>s. s\<lparr>jobs := x\<rparr>) (handleDDL job s)"
    by (simp add: handleDDL_def ddl_branch_field)
  show ?case by (cases "handleDDL job s") (auto simp add: d jobs_last Cons.IH split: option.split sum.split)
qed simp

text \<open>C26. Handling the waiting jobs in two rounds, up to a version and then up to a later one, is the same as handling them
  in one: how far the drainer had looked ahead does not show in the catalogue.\<close>

theorem rounds_do_not_matter:
  assumes "handlePreviousDDLJobIfNeed v1 s = (None, s1)" "v1 \<le> v2"
  shows "handlePreviousDDLJobIfNeed v2 s1 = (None, s2) \<longleftrightarrow> handlePreviousDDLJobIfNeed v2 s = (None, s2)"
proof -
  obtain js' s' where h: "handle_jobs v1 (jobs s) s = (Inr js', s')" "s1 = s'\<lparr>jobs := js'\<rparr>"
    using assms(1) by (auto simp: handlePreviousDDLJobIfNeed_def split: prod.splits sum.splits)
  have "handle_jobs v2 (jobs s) s = handle_jobs v2 js' s'" by (rule handle_jobs_split [OF h(1) assms(2)])
  then show ?thesis unfolding h(2) handlePreviousDDLJobIfNeed_def
    by (cases "handle_jobs v2 js' s'") (simp add: handle_jobs_field split: sum.split)
qed

theorem rounds_do_not_matter_witness:
  "\<exists>s1 s2. handlePreviousDDLJobIfNeed 2 (NewSchema example_history True) = (None, s1) \<and>
     handlePreviousDDLJobIfNeed 5 s1 = (None, s2) \<and>
     handlePreviousDDLJobIfNeed 5 (NewSchema example_history True) = (None, s2)"
proof -
  obtain e s1 where h: "handlePreviousDDLJobIfNeed 2 (NewSchema example_history True) = (e, s1)"
    by (cases "handlePreviousDDLJobIfNeed 2 (NewSchema example_history True)")
  obtain e' s2 where h': "handlePreviousDDLJobIfNeed 5 (NewSchema example_history True) = (e', s2)"
    by (cases "handlePreviousDDLJobIfNeed 5 (NewSchema example_history True)")
  have "fst (handlePreviousDDLJobIfNeed 2 (NewSchema example_history True)) = None"
    "fst (handlePreviousDDLJobIfNeed 5 (NewSchema example_history True)) = None" by code_simp+
  with h h' have "e = None" "e' = None" by simp_all
  with h h' rounds_do_not_matter [of 2 "NewSchema example_history True" s1 5 s2] show ?thesis by auto
qed

end
