(* ===== verification/SchemaCatalog.thy ===== *)
theory SchemaCatalog
  imports SchemaProps
begin

text \<open>
  On the job histories TiDB writes, the drainer's catalogue refines a plain map: the schema names by ID, and the name and definition of
  every table by ID, on which each DDL job is one update.
\<close>

section \<open>The catalogue as a map\<close>

text \<open>\<open>catalog_ok\<close>: schemas are stored under their ID and found by their name, and the tables a schema lists are those named after it.\<close>

definition catalog_ok :: "(int \<rightharpoonup> TableName) \<Rightarrow> (string \<rightharpoonup> int) \<Rightarrow> (int \<rightharpoonup> DBInfo) \<Rightarrow> bool" where
  "catalog_ok names ids schs \<longleftrightarrow>
     (\<forall>k db. schs k = Some db \<longrightarrow> ids (db_Name db) = Some k \<and> distinct (map ti_ID (db_Tables db))) \<and>
     (\<forall>n k. ids n = Some k \<longrightarrow> (\<exists>db. schs k = Some db \<and> db_Name db = n)) \<and>
     (\<forall>i n. map_option tn_Schema (names i) = Some n \<longleftrightarrow>
        (\<exists>k db. schs k = Some db \<and> db_Name db = n \<and> i \<in> ti_ID ` set (db_Tables db)))"

definition schema_ok :: "Schema \<Rightarrow> bool" where
  "schema_ok s \<longleftrightarrow> schema_wf s \<and> catalog_ok (tableIDToName s) (schemaNameToID s) (schemas s)"

text \<open>The abstract catalogue: the names of the schemas, and the name and definition of every table.\<close>

type_synonym catalog = "(int \<rightharpoonup> string) \<times> (int \<rightharpoonup> TableName \<times> TableInfo)"

definition schema_names :: "Schema \<Rightarrow> int \<rightharpoonup> string" where
  "schema_names s k = map_option db_Name (schemas s k)"

definition table_defs :: "Schema \<Rightarrow> int \<rightharpoonup> TableName \<times> TableInfo" where
  "table_defs s i =
     (case (tableIDToName s i, TableByID s i) of (Some tn, Some t) \<Rightarrow> Some (tn, t) | _ \<Rightarrow> None)"

definition abs_catalog :: "Schema \<Rightarrow> catalog" where
  "abs_catalog s = (schema_names s, table_defs s)"

lemma abs_catalog_frame [simp]:
  "abs_catalog (s\<lparr>version2SchemaTable := w, currentVersion := v\<rparr>) = abs_catalog s"
  "abs_catalog (s\<lparr>truncateTableID := x\<rparr>) = abs_catalog s" "abs_catalog (s\<lparr>tblsDroppingCol := f\<rparr>) = abs_catalog s"
  "abs_catalog (s\<lparr>tableSchemaVersion := g\<rparr>) = abs_catalog s"
  by (simp_all add: abs_catalog_def schema_names_def table_defs_def TableByID_def fun_eq_iff)

lemma schema_ok_frame [simp]:
  "schema_ok (s\<lparr>version2SchemaTable := w, currentVersion := v\<rparr>) = schema_ok s"
  "schema_ok (s\<lparr>truncateTableID := x\<rparr>) = schema_ok s" "schema_ok (s\<lparr>tblsDroppingCol := f\<rparr>) = schema_ok s"
  "schema_ok (s\<lparr>tableSchemaVersion := g\<rparr>) = schema_ok s"
  by (simp_all add: schema_ok_def)

lemma catalog_okD:
  assumes "catalog_ok names ids schs"
  shows "schs k = Some db \<Longrightarrow> ids (db_Name db) = Some k" "schs k = Some db \<Longrightarrow> distinct (map ti_ID (db_Tables db))"
    "ids n = Some k \<Longrightarrow> \<exists>db. schs k = Some db \<and> db_Name db = n"
    "map_option tn_Schema (names i) = Some n \<longleftrightarrow>
       (\<exists>k db. schs k = Some db \<and> db_Name db = n \<and> i \<in> ti_ID ` set (db_Tables db))"
  using assms unfolding catalog_ok_def by blast+

lemma remove_first_ids: "distinct (map ti_ID ts) \<Longrightarrow> map ti_ID (remove_first i ts) = filter (\<lambda>j. j \<noteq> i) (map ti_ID ts)"
proof (induction ts)
  case (Cons t ts)
  then show ?case by (cases "ti_ID t = i") (auto intro!: filter_True [symmetric])
qed simp

lemma table_defs_None: "schema_wf s \<Longrightarrow> table_defs s i = None \<longleftrightarrow> tables s i = None"
  by (auto simp: table_defs_def TableByID_def tables_wf_def split: option.splits)

lemma catalog_ok_upd:
  assumes ok: "catalog_ok names ids schs" and k: "schs k = Some sch" and name: "db_Name sch' = db_Name sch"
    and dist: "distinct (map ti_ID (db_Tables sch'))"
    and names': "\<And>i. map_option tn_Schema (names' i) =
      (if i \<in> ti_ID ` set (db_Tables sch') then Some (db_Name sch)
       else if i \<in> ti_ID ` set (db_Tables sch) then None else map_option tn_Schema (names i))"
    and fresh: "\<And>i. i \<in> ti_ID ` set (db_Tables sch') \<Longrightarrow> i \<in> ti_ID ` set (db_Tables sch) \<or> names i = None"
  shows "catalog_ok names' ids (schs(k \<mapsto> sch'))"
  unfolding catalog_ok_def
proof (intro conjI allI impI)
  note okD = catalog_okD [OF ok]
  fix k' db assume "(schs(k \<mapsto> sch')) k' = Some db"
  then show "ids (db_Name db) = Some k'" "distinct (map ti_ID (db_Tables db))"
    using okD(1,2) [of k' db] okD(1) [OF k] name dist by (auto split: if_splits)
next
  fix n k' assume "ids n = Some k'"
  then show "\<exists>db. (schs(k \<mapsto> sch')) k' = Some db \<and> db_Name db = n"
    using catalog_okD(3) [OF ok, of n k'] k name by auto
next
  fix i n
  note okD = catalog_okD [OF ok]
  have key: "k' = k" if "schs k' = Some db" "db_Name db = db_Name sch" for k' db
    using okD(1) [OF that(1)] okD(1) [OF k] that(2) by simp
  show "map_option tn_Schema (names' i) = Some n \<longleftrightarrow>
      (\<exists>k' db. (schs(k \<mapsto> sch')) k' = Some db \<and> db_Name db = n \<and> i \<in> ti_ID ` set (db_Tables db))"
  proof (cases "i \<in> ti_ID ` set (db_Tables sch)")
    case True
    have at: "map_option tn_Schema (names i) = Some (db_Name sch)"
      by (rule okD(4) [THEN iffD2]) (use k True in blast)
    have "k' = k" if "schs k' = Some db" "i \<in> ti_ID ` set (db_Tables db)" for k' db
    proof -
      have "map_option tn_Schema (names i) = Some (db_Name db)" by (rule okD(4) [THEN iffD2]) (use that in blast)
      with at show ?thesis using key [OF that(1)] by simp
    qed
    then have "\<not> (schs k' = Some db \<and> k' \<noteq> k \<and> i \<in> ti_ID ` set (db_Tables db))" for k' db by blast
    with True name show ?thesis unfolding names' by (auto split: if_splits)
  next
    case False
    show ?thesis
    proof (cases "i \<in> ti_ID ` set (db_Tables sch')")
      case True
      have none: "names i = None" using fresh [OF True] False by blast
      have "\<not> (schs k' = Some db \<and> i \<in> ti_ID ` set (db_Tables db))" for k' db
        using okD(4) [of i "db_Name db"] none by auto
      with True name show ?thesis unfolding names' by (auto split: if_splits)
    next
      case no: False
      then have "map_option tn_Schema (names' i) = map_option tn_Schema (names i)" using False names' [of i] by simp
      moreover have "(\<exists>k' db. (schs(k \<mapsto> sch')) k' = Some db \<and> db_Name db = n \<and> i \<in> ti_ID ` set (db_Tables db)) \<longleftrightarrow>
          (\<exists>k' db. schs k' = Some db \<and> db_Name db = n \<and> i \<in> ti_ID ` set (db_Tables db))"
      proof -
        have "(schs(k \<mapsto> sch')) k' = Some db \<and> i \<in> ti_ID ` set (db_Tables db) \<longleftrightarrow>
            schs k' = Some db \<and> i \<in> ti_ID ` set (db_Tables db)" for k' db
          using k no False by (cases "k' = k") auto
        then show ?thesis by blast
      qed
      ultimately show ?thesis using okD(4) [of i n] by simp
    qed
  qed
qed

lemma CreateTable_ok:
  assumes s: "schema_ok s" and k: "schemas s k = Some sch" and c: "CreateTable v k sch t s = (None, s')"
  shows "schema_ok s'" "schema_names s' = schema_names s"
    "table_defs s' = (table_defs s)(ti_ID t \<mapsto>
       (\<lparr>tn_Schema = db_Name sch, tn_Table = ti_Name t\<rparr>, with_implicit (hasImplicitCol s) t))"
proof -
  let ?t = "with_implicit (hasImplicitCol s) t"
  have new: "tables s (ti_ID t) = None"
    and s': "s' = (appendTableInfo v ?t (s\<lparr>schemas := (schemas s)(k \<mapsto> sch\<lparr>db_Tables := db_Tables sch @ [?t]\<rparr>)\<rparr>))\<lparr>tableIDToName :=
      (tableIDToName s)(ti_ID t \<mapsto> \<lparr>tn_Schema = db_Name sch, tn_Table = ti_Name t\<rparr>)\<rparr>"
    using c by (auto simp: CreateTable_def Let_def split: if_splits)
  have wf: "schema_wf s" and ok: "catalog_ok (tableIDToName s) (schemaNameToID s) (schemas s)"
    using s by (simp_all add: schema_ok_def)
  have noname: "tableIDToName s (ti_ID t) = None" using wf new by (auto simp: tables_wf_def)
  have own: "map_option tn_Schema (tableIDToName s i) = Some (db_Name sch)" if "i \<in> ti_ID ` set (db_Tables sch)" for i
    using catalog_okD(4) [OF ok, of i "db_Name sch"] k that by blast
  have fresh: "ti_ID t \<notin> ti_ID ` set (db_Tables sch)" using own [of "ti_ID t"] noname by auto
  have "catalog_ok (tableIDToName s') (schemaNameToID s') (schemas s')"
  proof -
    let ?names = "(tableIDToName s)(ti_ID t \<mapsto> \<lparr>tn_Schema = db_Name sch, tn_Table = ti_Name t\<rparr>)"
    let ?sch = "sch\<lparr>db_Tables := db_Tables sch @ [?t]\<rparr>"
    have names': "map_option tn_Schema (?names j) =
      (if j \<in> ti_ID ` set (db_Tables ?sch) then Some (db_Name sch)
       else if j \<in> ti_ID ` set (db_Tables sch) then None else map_option tn_Schema (tableIDToName s j))" for j
      using own [of j] by (cases "j = ti_ID t"; simp)
    have "catalog_ok ?names (schemaNameToID s) ((schemas s)(k \<mapsto> ?sch))"
      by (rule catalog_ok_upd [OF ok k _ _ names']) (use fresh noname catalog_okD(2) [OF ok k] in auto)
    then show ?thesis by (simp add: s')
  qed
  moreover have "schema_wf s'" using CreateTable_wf [OF wf, of v k sch t] c by simp
  ultimately show "schema_ok s'" by (simp add: schema_ok_def)
  show "schema_names s' = schema_names s" using k by (simp add: s' schema_names_def fun_eq_iff)
  show "table_defs s' = (table_defs s)(ti_ID t \<mapsto> (\<lparr>tn_Schema = db_Name sch, tn_Table = ti_Name t\<rparr>, ?t))"
    using new by (simp add: s' table_defs_def TableByID_def fun_eq_iff appendTableInfo_tables)
qed

lemma DropTable_ok:
  assumes s: "schema_ok s" and d: "DropTable i s = (Inr n, s')"
  shows "schema_ok s'" "schema_names s' = schema_names s" "table_defs s' = (table_defs s)(i := None)"
    "hasImplicitCol s' = hasImplicitCol s"
proof -
  have wf: "schema_wf s" and ok: "catalog_ok (tableIDToName s) (schemaNameToID s) (schemas s)"
    using s by (simp_all add: schema_ok_def)
  obtain sch k where sk: "SchemaByTableID s i = Some sch" "schema_key s i = Some k"
    and s': "s' = s\<lparr>schemas := (schemas s)(k \<mapsto> sch\<lparr>db_Tables := remove_first i (db_Tables sch)\<rparr>),
      tables := (tables s)(i := None), tableIDToName := (tableIDToName s)(i := None)\<rparr>"
    using d by (auto simp: DropTable_def removeTable_def Let_def split: option.splits if_splits)
  obtain tn where tn: "tableIDToName s i = Some tn" "schemaNameToID s (tn_Schema tn) = Some k" "schemas s k = Some sch"
    using sk by (auto simp: SchemaByTableID_def schema_key_def SchemaByID_def split: option.splits)
  note k = tn(3)
  have name: "db_Name sch = tn_Schema tn" using catalog_okD(3) [OF ok tn(2)] k by auto
  have dist: "distinct (map ti_ID (db_Tables sch))" by (rule catalog_okD(2) [OF ok k])
  have ids: "map ti_ID (remove_first i (db_Tables sch)) = filter (\<lambda>j. j \<noteq> i) (map ti_ID (db_Tables sch))"
    by (rule remove_first_ids [OF dist])
  have idset: "ti_ID ` set (remove_first i (db_Tables sch)) = ti_ID ` set (db_Tables sch) - {i}"
    using arg_cong [OF ids, of set] by auto
  have own: "map_option tn_Schema (tableIDToName s j) = Some (db_Name sch)" if "j \<in> ti_ID ` set (db_Tables sch)" for j
    using catalog_okD(4) [OF ok, of j "db_Name sch"] k that by blast
  have inown: "i \<in> ti_ID ` set (db_Tables sch)"
  proof -
    obtain k' db where "schemas s k' = Some db" "db_Name db = tn_Schema tn" "i \<in> ti_ID ` set (db_Tables db)"
      using catalog_okD(4) [OF ok, of i "tn_Schema tn"] tn(1) by auto
    with catalog_okD(1) [OF ok, of k' db] tn(2,3) show ?thesis by auto
  qed
  have "catalog_ok (tableIDToName s') (schemaNameToID s') (schemas s')"
  proof -
    let ?sch = "sch\<lparr>db_Tables := remove_first i (db_Tables sch)\<rparr>"
    have names': "map_option tn_Schema (((tableIDToName s)(i := None)) j) =
      (if j \<in> ti_ID ` set (db_Tables ?sch) then Some (db_Name sch)
       else if j \<in> ti_ID ` set (db_Tables sch) then None else map_option tn_Schema (tableIDToName s j))" for j
      using own [of j] inown by (cases "j = i"; simp add: idset)
    have "catalog_ok ((tableIDToName s)(i := None)) (schemaNameToID s) ((schemas s)(k \<mapsto> ?sch))"
      by (rule catalog_ok_upd [OF ok k _ _ names']) (use dist in \<open>simp_all add: ids idset\<close>)
    then show ?thesis by (simp add: s')
  qed
  moreover have "schema_wf s'" using DropTable_wf [OF wf, of i] d by simp
  ultimately show "schema_ok s'" by (simp add: schema_ok_def)
  show "schema_names s' = schema_names s" using k by (simp add: s' schema_names_def fun_eq_iff)
  show "table_defs s' = (table_defs s)(i := None)" by (simp add: s' table_defs_def TableByID_def fun_eq_iff)
  show "hasImplicitCol s' = hasImplicitCol s" by (simp add: s')
qed

lemma ReplaceTable_ok:
  assumes s: "schema_ok s" and r: "ReplaceTable v t s = (None, s')"
  shows "schema_ok s'" "schema_names s' = schema_names s"
    "\<exists>tn old. table_defs s (ti_ID t) = Some (tn, old) \<and>
       table_defs s' = (table_defs s)(ti_ID t \<mapsto> (tn, with_implicit (hasImplicitCol s) t))"
proof -
  let ?t = "with_implicit (hasImplicitCol s) t"
  have old: "tables s (ti_ID t) \<noteq> None" and s': "s' = appendTableInfo v ?t s"
    using r by (auto simp: ReplaceTable_def split: if_splits)
  have wf: "schema_wf s" using s by (simp add: schema_ok_def)
  then show "schema_ok s'" using s ReplaceTable_wf [OF wf, of v t] r by (simp add: schema_ok_def) (simp add: s')
  show "schema_names s' = schema_names s" by (simp add: s' schema_names_def fun_eq_iff)
  obtain tn t0 where d: "table_defs s (ti_ID t) = Some (tn, t0)" using table_defs_None [OF wf, of "ti_ID t"] old by auto
  then have "tableIDToName s (ti_ID t) = Some tn" by (auto simp: table_defs_def split: option.splits)
  then have "table_defs s' = (table_defs s)(ti_ID t \<mapsto> (tn, ?t))"
    by (simp add: s' table_defs_def TableByID_def fun_eq_iff appendTableInfo_tables)
  with d show "\<exists>tn old. table_defs s (ti_ID t) = Some (tn, old) \<and> table_defs s' = (table_defs s)(ti_ID t \<mapsto> (tn, ?t))" by blast
qed

lemma DropSchema_ok:
  assumes s: "schema_ok s" and d: "DropSchema k s = (Inr n, s')"
  shows "schema_ok s'" "schema_names s k = Some n" "schema_names s' = (schema_names s)(k := None)"
    "table_defs s' = (\<lambda>i. case table_defs s i of None \<Rightarrow> None | Some (tn, t) \<Rightarrow> if tn_Schema tn = n then None else Some (tn, t))"
proof -
  have wf: "schema_wf s" and ok: "catalog_ok (tableIDToName s) (schemaNameToID s) (schemas s)"
    using s by (simp_all add: schema_ok_def)
  obtain sch where k: "schemas s k = Some sch" "n = db_Name sch"
    and s': "s' = (forget_tables (db_Tables sch) s)\<lparr>schemas := (schemas s)(k := None),
      schemaNameToID := (schemaNameToID s)(db_Name sch := None)\<rparr>"
    using d by (auto simp: DropSchema_def Let_def forget_tables_fields split: option.splits)
  have own: "i \<in> ti_ID ` set (db_Tables sch) \<longleftrightarrow> map_option tn_Schema (tableIDToName s i) = Some n" for i
  proof
    assume "i \<in> ti_ID ` set (db_Tables sch)"
    with k show "map_option tn_Schema (tableIDToName s i) = Some n" by (intro catalog_okD(4) [OF ok, THEN iffD2]) blast
  next
    assume "map_option tn_Schema (tableIDToName s i) = Some n"
    then obtain k' db where "schemas s k' = Some db" "db_Name db = n" "i \<in> ti_ID ` set (db_Tables db)"
      using catalog_okD(4) [OF ok, of i n] by auto
    with catalog_okD(1) [OF ok, of k' db] catalog_okD(1) [OF ok k(1)] k show "i \<in> ti_ID ` set (db_Tables sch)" by auto
  qed
  have names: "tableIDToName s' = (\<lambda>i. if map_option tn_Schema (tableIDToName s i) = Some n then None else tableIDToName s i)"
    by (simp add: s' forget_tables_fields own fun_eq_iff)
  have "catalog_ok (tableIDToName s') ((schemaNameToID s)(n := None)) ((schemas s)(k := None))"
    unfolding catalog_ok_def
  proof (intro conjI allI impI)
    fix k' db assume "((schemas s)(k := None)) k' = Some db"
    then have k': "k' \<noteq> k" "schemas s k' = Some db" by (auto split: if_splits)
    show "((schemaNameToID s)(n := None)) (db_Name db) = Some k'" "distinct (map ti_ID (db_Tables db))"
      using catalog_okD(1,2) [OF ok k'(2)] catalog_okD(1) [OF ok k(1)] k' k(2) by auto
  next
    fix m k' assume "((schemaNameToID s)(n := None)) m = Some k'"
    then have m: "m \<noteq> n" "schemaNameToID s m = Some k'" by (auto split: if_splits)
    with catalog_okD(3) [OF ok m(2)] k show "\<exists>db. ((schemas s)(k := None)) k' = Some db \<and> db_Name db = m" by auto
  next
    fix i m
    have "schemas s k' = Some db \<and> db_Name db = m \<and> k' \<noteq> k \<longleftrightarrow> schemas s k' = Some db \<and> db_Name db = m \<and> m \<noteq> n" for k' db
      using catalog_okD(1) [OF ok, of k' db] catalog_okD(1) [OF ok k(1)] k by auto
    then have "(\<exists>k' db. ((schemas s)(k := None)) k' = Some db \<and> db_Name db = m \<and> i \<in> ti_ID ` set (db_Tables db)) \<longleftrightarrow>
        m \<noteq> n \<and> (\<exists>k' db. schemas s k' = Some db \<and> db_Name db = m \<and> i \<in> ti_ID ` set (db_Tables db))"
      unfolding fun_upd_apply by (simp split: if_split) blast
    moreover have "map_option tn_Schema (tableIDToName s' i) = Some m \<longleftrightarrow>
        m \<noteq> n \<and> map_option tn_Schema (tableIDToName s i) = Some m"
      by (auto simp: names)
    ultimately show "map_option tn_Schema (tableIDToName s' i) = Some m \<longleftrightarrow>
        (\<exists>k' db. ((schemas s)(k := None)) k' = Some db \<and> db_Name db = m \<and> i \<in> ti_ID ` set (db_Tables db))"
      unfolding catalog_okD(4) [OF ok] by (simp only:)
  qed
  moreover have "schema_wf s'" using DropSchema_wf [OF wf, of k] d by simp
  ultimately show "schema_ok s'" using k(2) by (simp add: schema_ok_def s')
  show "schema_names s k = Some n" "schema_names s' = (schema_names s)(k := None)"
    using k by (simp_all add: s' schema_names_def fun_eq_iff)
  show "table_defs s' = (\<lambda>i. case table_defs s i of None \<Rightarrow> None | Some (tn, t) \<Rightarrow> if tn_Schema tn = n then None else Some (tn, t))"
    unfolding table_defs_def names
    by (rule ext) (auto simp: TableByID_def s' forget_tables_fields own split: option.splits)
qed

lemma CreateSchema_ok:
  assumes s: "schema_ok s" and c: "CreateSchema db s = (None, s')"
    and new: "schemaNameToID s (db_Name db) = None" "db_Tables db = []"
  shows "schema_ok s'" "schema_names s' = (schema_names s)(db_ID db \<mapsto> db_Name db)" "table_defs s' = table_defs s"
proof -
  have ok: "catalog_ok (tableIDToName s) (schemaNameToID s) (schemas s)" using s by (simp add: schema_ok_def)
  have k: "schemas s (db_ID db) = None"
    and s': "s' = s\<lparr>schemas := (schemas s)(db_ID db \<mapsto> db), schemaNameToID := (schemaNameToID s)(db_Name db \<mapsto> db_ID db)\<rparr>"
    using c by (auto simp: CreateSchema_def split: option.splits)
  have "catalog_ok (tableIDToName s) ((schemaNameToID s)(db_Name db \<mapsto> db_ID db)) ((schemas s)(db_ID db \<mapsto> db))"
    unfolding catalog_ok_def
  proof (intro conjI allI impI)
    fix k' d assume "((schemas s)(db_ID db \<mapsto> db)) k' = Some d"
    then show "((schemaNameToID s)(db_Name db \<mapsto> db_ID db)) (db_Name d) = Some k'" "distinct (map ti_ID (db_Tables d))"
      using catalog_okD(1,2) [OF ok, of k' d] new by (auto split: if_splits)
  next
    fix n k' assume "((schemaNameToID s)(db_Name db \<mapsto> db_ID db)) n = Some k'"
    then show "\<exists>d. ((schemas s)(db_ID db \<mapsto> db)) k' = Some d \<and> db_Name d = n"
      using catalog_okD(3) [OF ok, of n k'] k by (auto split: if_splits)
  next
    fix i n
    have "((schemas s)(db_ID db \<mapsto> db)) k' = Some d \<and> db_Name d = n \<and> i \<in> ti_ID ` set (db_Tables d) \<longleftrightarrow>
        schemas s k' = Some d \<and> db_Name d = n \<and> i \<in> ti_ID ` set (db_Tables d)" for k' d
      using new(2) k by auto
    then show "map_option tn_Schema (tableIDToName s i) = Some n \<longleftrightarrow>
        (\<exists>k' d. ((schemas s)(db_ID db \<mapsto> db)) k' = Some d \<and> db_Name d = n \<and> i \<in> ti_ID ` set (db_Tables d))"
      unfolding catalog_okD(4) [OF ok] by (simp only:)
  qed
  with s show "schema_ok s'" by (simp add: schema_ok_def s')
  show "schema_names s' = (schema_names s)(db_ID db \<mapsto> db_Name db)" "table_defs s' = table_defs s"
    by (simp_all add: s' schema_names_def table_defs_def TableByID_def fun_eq_iff)
qed

text \<open>What TiDB promises of the jobs it writes: a created schema has a new name and no tables yet, and a changed schema keeps its name and its tables.\<close>

definition sane_job :: "Job \<Rightarrow> Schema \<Rightarrow> bool" where
  "sane_job job s \<longleftrightarrow>
     (case BinlogInfo job of
        None \<Rightarrow> True
      | Some info \<Rightarrow>
          (case DBInfo_of info of
             None \<Rightarrow> True
           | Some db \<Rightarrow>
               (job_Type job = ActionCreateSchema \<longrightarrow> schemaNameToID s (db_Name db) = None \<and> db_Tables db = []) \<and>
               (job_Type job = ActionModifySchemaCharsetAndCollate \<longrightarrow>
                  (case schemas s (db_ID db) of
                     None \<Rightarrow> True
                   | Some old \<Rightarrow> db_Name db = db_Name old \<and> map ti_ID (db_Tables db) = map ti_ID (db_Tables old)))))"

text \<open>Each job as one update of the abstract catalogue.\<close>

definition spec_put :: "bool \<Rightarrow> int \<Rightarrow> TableInfo option \<Rightarrow> catalog \<Rightarrow> catalog" where
  "spec_put implicit k t c =
     (case c of (names, defs) \<Rightarrow>
        (case (names k, t) of
           (Some n, Some t) \<Rightarrow>
             (names, defs(ti_ID t \<mapsto> (\<lparr>tn_Schema = n, tn_Table = ti_Name t\<rparr>, with_implicit implicit t)))
         | _ \<Rightarrow> c))"

definition spec_drop :: "int \<Rightarrow> catalog \<Rightarrow> catalog" where
  "spec_drop i c = (case c of (names, defs) \<Rightarrow> (names, defs(i := None)))"

definition spec_drop_schema :: "int \<Rightarrow> catalog \<Rightarrow> catalog" where
  "spec_drop_schema k c =
     (case c of (names, defs) \<Rightarrow>
        (names(k := None),
         \<lambda>i. case defs i of None \<Rightarrow> None | Some (tn, t) \<Rightarrow> if names k = Some (tn_Schema tn) then None else Some (tn, t)))"

definition spec_replace :: "bool \<Rightarrow> TableInfo option \<Rightarrow> catalog \<Rightarrow> catalog" where
  "spec_replace implicit t c =
     (case (c, t) of ((names, defs), Some t) \<Rightarrow>
        (names, defs(ti_ID t := map_option (\<lambda>(tn, _). (tn, with_implicit implicit t)) (defs (ti_ID t)))) | _ \<Rightarrow> c)"

definition spec_create_schema :: "DBInfo option \<Rightarrow> catalog \<Rightarrow> catalog" where
  "spec_create_schema db c =
     (case (c, db) of ((names, defs), Some db) \<Rightarrow> (names(db_ID db \<mapsto> db_Name db), defs) | _ \<Rightarrow> c)"

fun ddl_spec :: "ActionType \<Rightarrow> bool \<Rightarrow> Job \<Rightarrow> HistoryInfo \<Rightarrow> catalog \<Rightarrow> catalog" where
  "ddl_spec ActionCreateSchema b job info = spec_create_schema (DBInfo_of info)"
| "ddl_spec ActionModifySchemaCharsetAndCollate b job info = id"
| "ddl_spec ActionDropSchema b job info = spec_drop_schema (job_SchemaID job)"
| "ddl_spec ActionRenameTable b job info = spec_put b (job_SchemaID job) (TableInfo_of info) \<circ> spec_drop (job_TableID job)"
| "ddl_spec ActionTruncateTable b job info = spec_put b (job_SchemaID job) (TableInfo_of info) \<circ> spec_drop (job_TableID job)"
| "ddl_spec ActionCreateTable b job info = spec_put b (job_SchemaID job) (TableInfo_of info)"
| "ddl_spec ActionCreateView b job info = spec_put b (job_SchemaID job) (TableInfo_of info)"
| "ddl_spec ActionCreateSequence b job info = spec_put b (job_SchemaID job) (TableInfo_of info)"
| "ddl_spec ActionRecoverTable b job info = spec_put b (job_SchemaID job) (TableInfo_of info)"
| "ddl_spec ActionDropTable b job info = spec_drop (job_TableID job)"
| "ddl_spec ActionDropView b job info = spec_drop (job_TableID job)"
| "ddl_spec ActionDropSequence b job info = spec_drop (job_TableID job)"
| "ddl_spec _ b job info = spec_replace b (TableInfo_of info)"

text \<open>A step from a catalogue to the state after a job.\<close>

definition ddl_refines :: "(catalog \<Rightarrow> catalog) \<Rightarrow> Schema \<Rightarrow> Schema \<Rightarrow> bool" where
  "ddl_refines f s s' \<longleftrightarrow> schema_ok s' \<and> abs_catalog s' = f (abs_catalog s)"

lemma finish_ddl_Inr:
  "finish_ddl job sn tn s = (Inr r, s') \<Longrightarrow>
   \<exists>info. BinlogInfo job = Some info \<and> abs_catalog s' = abs_catalog s \<and> schema_ok s' = schema_ok s"
  by (auto simp: finish_ddl_def split: option.splits)

lemma create_table_refines:
  assumes "schema_ok s" "SchemaByID s k = Some sch" "CreateTable v k sch t s = (None, s')"
  shows "ddl_refines (spec_put (hasImplicitCol s) k (Some t)) s s'"
  using CreateTable_ok [OF assms(1) _ assms(3)] assms(2)
  by (simp add: ddl_refines_def abs_catalog_def spec_put_def SchemaByID_def schema_names_def)

lemma drop_table_refines:
  assumes "schema_ok s" "DropTable i s = (Inr n, s')"
  shows "ddl_refines (spec_drop i) s s'" "hasImplicitCol s' = hasImplicitCol s"
  using DropTable_ok [OF assms] by (simp_all add: ddl_refines_def abs_catalog_def spec_drop_def)

lemma ddl_refines_trans: "ddl_refines f s s1 \<Longrightarrow> ddl_refines g s1 s2 \<Longrightarrow> ddl_refines (g \<circ> f) s s2"
  by (simp add: ddl_refines_def)

lemma ddl_refines_finish:
  "ddl_refines f s s1 \<Longrightarrow> finish_ddl job sn tn s1 = (Inr r, s2) \<Longrightarrow> ddl_refines f s s2"
  using finish_ddl_Inr [of job sn tn s1 r s2] by (auto simp: ddl_refines_def)

lemma ddl_refines_okD: "ddl_refines f s s' \<Longrightarrow> schema_ok s'"
  by (simp add: ddl_refines_def)

lemma schema_jobs_refine:
  assumes "schema_ok s" "BinlogInfo job = Some info" "sane_job job s"
  shows "job_Type job = ActionCreateSchema \<Longrightarrow> handle_create_schema job s = (Inr r, s') \<Longrightarrow> ddl_refines (spec_create_schema (DBInfo_of info)) s s'"
    "job_Type job = ActionModifySchemaCharsetAndCollate \<Longrightarrow> handle_modify_schema job s = (Inr r, s') \<Longrightarrow> ddl_refines id s s'"
    "handle_drop_schema job s = (Inr r, s') \<Longrightarrow> ddl_refines (spec_drop_schema (job_SchemaID job)) s s'"
proof -
  assume t: "job_Type job = ActionCreateSchema" and h: "handle_create_schema job s = (Inr r, s')"
  obtain db s1 where db: "DBInfo_of info = Some db" "CreateSchema db s = (None, s1)" "finish_ddl job (db_Name db) [] s1 = (Inr r, s')"
    using h assms(2) by (auto simp: handle_create_schema_def split: option.splits prod.splits)
  have "ddl_refines (spec_create_schema (DBInfo_of info)) s s1"
    using CreateSchema_ok [OF assms(1) db(2)] assms(2,3) t db(1)
    by (simp add: ddl_refines_def abs_catalog_def spec_create_schema_def sane_job_def)
  then show "ddl_refines (spec_create_schema (DBInfo_of info)) s s'" by (rule ddl_refines_finish [OF _ db(3)])
next
  assume t: "job_Type job = ActionModifySchemaCharsetAndCollate" and h: "handle_modify_schema job s = (Inr r, s')"
  obtain db old where db: "DBInfo_of info = Some db" "schemas s (db_ID db) = Some old"
    and f: "finish_ddl job (db_Name db) [] (s\<lparr>schemas := (schemas s)(db_ID db \<mapsto> db),
      schemaNameToID := (schemaNameToID s)(db_Name db \<mapsto> db_ID db)\<rparr>) = (Inr r, s')"
    using h assms(2) by (auto simp: handle_modify_schema_def split: option.splits if_splits)
  have same: "db_Name db = db_Name old" "map ti_ID (db_Tables db) = map ti_ID (db_Tables old)"
    using assms(2,3) t db by (simp_all add: sane_job_def)
  have ids: "ti_ID ` set (db_Tables db) = ti_ID ` set (db_Tables old)" using arg_cong [OF same(2), of set] by simp
  have ok: "catalog_ok (tableIDToName s) (schemaNameToID s) (schemas s)" using assms(1) by (simp add: schema_ok_def)
  have own: "map_option tn_Schema (tableIDToName s i) = Some (db_Name old)" if "i \<in> ti_ID ` set (db_Tables old)" for i
    by (rule catalog_okD(4) [OF ok, THEN iffD2]) (use db(2) that in blast)
  have names: "map_option tn_Schema (tableIDToName s i) = (if i \<in> ti_ID ` set (db_Tables db) then Some (db_Name old)
      else if i \<in> ti_ID ` set (db_Tables old) then None else map_option tn_Schema (tableIDToName s i))" for i
    using own [of i] ids by simp
  have "catalog_ok (tableIDToName s) (schemaNameToID s) ((schemas s)(db_ID db \<mapsto> db))"
    by (rule catalog_ok_upd [OF ok db(2) same(1) _ names]) (use catalog_okD(2) [OF ok db(2)] same(2) ids in simp_all)
  moreover have "(schemaNameToID s)(db_Name db \<mapsto> db_ID db) = schemaNameToID s"
    using catalog_okD(1) [OF ok db(2)] same(1) by auto
  ultimately have "schema_ok (s\<lparr>schemas := (schemas s)(db_ID db \<mapsto> db), schemaNameToID := (schemaNameToID s)(db_Name db \<mapsto> db_ID db)\<rparr>)"
    using assms(1) by (simp add: schema_ok_def)
  then have "ddl_refines id s (s\<lparr>schemas := (schemas s)(db_ID db \<mapsto> db),
      schemaNameToID := (schemaNameToID s)(db_Name db \<mapsto> db_ID db)\<rparr>)"
    using db(2) same(1)
    by (simp add: ddl_refines_def abs_catalog_def schema_names_def table_defs_def TableByID_def fun_eq_iff)
  then show "ddl_refines id s s'" by (rule ddl_refines_finish [OF _ f])
next
  assume h: "handle_drop_schema job s = (Inr r, s')"
  obtain n s1 where d: "DropSchema (job_SchemaID job) s = (Inr n, s1)" "finish_ddl job n [] s1 = (Inr r, s')"
    using h by (auto simp: handle_drop_schema_def split: prod.splits sum.splits)
  have "ddl_refines (spec_drop_schema (job_SchemaID job)) s s1"
    using DropSchema_ok [OF assms(1) d(1)]
    by (auto simp: ddl_refines_def abs_catalog_def spec_drop_schema_def fun_eq_iff split: option.split)
  then show "ddl_refines (spec_drop_schema (job_SchemaID job)) s s'" by (rule ddl_refines_finish [OF _ d(2)])
qed

lemma handle_create_table_refines:
  assumes "schema_ok s" "BinlogInfo job = Some info" "handle_create_table job s = (Inr r, s')"
  shows "ddl_refines (spec_put (hasImplicitCol s) (job_SchemaID job) (TableInfo_of info)) s s'"
proof -
  obtain t sch s1 where c: "TableInfo_of info = Some t" "SchemaByID s (job_SchemaID job) = Some sch"
    "CreateTable (SchemaVersion info) (job_SchemaID job) sch t s = (None, s1)" "finish_ddl job (db_Name sch) (ti_Name t) s1 = (Inr r, s')"
    using assms(2,3) by (auto simp: handle_create_table_def split: option.splits prod.splits)
  with ddl_refines_finish [OF create_table_refines [OF assms(1) c(2,3)] c(4)] show ?thesis by simp
qed

lemma handle_drop_table_refines:
  assumes "schema_ok s" "handle_drop_table job s = (Inr r, s')"
  shows "ddl_refines (spec_drop (job_TableID job)) s s'"
proof -
  obtain sn n s1 where d: "DropTable (job_TableID job) s = (Inr n, s1)" "finish_ddl job sn n s1 = (Inr r, s')"
    using assms(2) by (auto simp: handle_drop_table_def split: option.splits prod.splits sum.splits)
  show ?thesis by (rule ddl_refines_finish [OF drop_table_refines(1) [OF assms(1) d(1)] d(2)])
qed

lemma drop_create_refines:
  assumes "schema_ok s" "DropTable i s = (Inr n, s1)" "SchemaByID s1 k = Some sch" "CreateTable v k sch t s1 = (None, s2)"
  shows "ddl_refines (spec_put (hasImplicitCol s) k (Some t) \<circ> spec_drop i) s s2"
  using ddl_refines_trans [OF drop_table_refines(1) [OF assms(1,2)] create_table_refines [OF _ assms(3,4)]]
    drop_table_refines [OF assms(1,2)] by (simp add: ddl_refines_def)

lemma handle_rename_table_refines:
  assumes "schema_ok s" "BinlogInfo job = Some info" "handle_rename_table job s = (Inr r, s')"
  shows "ddl_refines (spec_put (hasImplicitCol s) (job_SchemaID job) (TableInfo_of info) \<circ> spec_drop (job_TableID job)) s s'"
proof -
  obtain n s1 sch t s2 where c: "DropTable (job_TableID job) s = (Inr n, s1)" "SchemaByID s1 (job_SchemaID job) = Some sch"
    "TableInfo_of info = Some t" "CreateTable (SchemaVersion info) (job_SchemaID job) sch t s1 = (None, s2)"
    "finish_ddl job (db_Name sch) (ti_Name t) s2 = (Inr r, s')"
    using assms(2,3) by (auto simp: handle_rename_table_def split: option.splits prod.splits sum.splits if_splits)
  with ddl_refines_finish [OF drop_create_refines [OF assms(1) c(1,2,4)] c(5)] show ?thesis by simp
qed

lemma handle_truncate_table_refines:
  assumes "schema_ok s" "BinlogInfo job = Some info" "handle_truncate_table job s = (Inr r, s')"
  shows "ddl_refines (spec_put (hasImplicitCol s) (job_SchemaID job) (TableInfo_of info) \<circ> spec_drop (job_TableID job)) s s'"
proof -
  obtain n s1 sch t s2 s3 where c: "DropTable (job_TableID job) s = (Inr n, s1)" "SchemaByID s1 (job_SchemaID job) = Some sch"
    "TableInfo_of info = Some t" "CreateTable (SchemaVersion info) (job_SchemaID job) sch t s1 = (None, s2)"
    "finish_ddl job (db_Name sch) (ti_Name t) s2 = (Inr r, s3)"
    "s' = s3\<lparr>truncateTableID := insert (job_TableID job) (truncateTableID s3)\<rparr>"
    using assms(2,3) by (auto simp: handle_truncate_table_def split: option.splits prod.splits sum.splits)
  with ddl_refines_finish [OF drop_create_refines [OF assms(1) c(1,2,4)] c(5)] show ?thesis by (simp add: ddl_refines_def)
qed

lemma handle_other_refines:
  assumes "schema_ok s" "BinlogInfo job = Some info" "handle_other job s = (Inr r, s')"
  shows "ddl_refines (spec_replace (hasImplicitCol s) (TableInfo_of info)) s s'"
proof -
  obtain t sn tn s1 s2 where c: "TableInfo_of info = Some t" "ReplaceTable (SchemaVersion info) t s = (None, s1)"
    "finish_ddl job sn tn s1 = (Inr r, s2)"
    "s' = s2 \<or> s' = s2\<lparr>tblsDroppingCol := (tblsDroppingCol s2)(job_TableID job := False)\<rparr>"
    using assms(2,3) by (auto simp: handle_other_def split: option.splits prod.splits if_splits)
  have "ddl_refines (spec_replace (hasImplicitCol s) (Some t)) s s1"
    using ReplaceTable_ok [OF assms(1) c(2)] by (auto simp: ddl_refines_def abs_catalog_def spec_replace_def)
  from ddl_refines_finish [OF this c(3)] c(1,4) show ?thesis by (auto simp: ddl_refines_def)
qed


definition example_drop :: Job where
  "example_drop = example_job 6 ActionDropSchema 0 None None"

definition example_db :: DBInfo where
  "example_db = \<lparr>db_ID = 1, db_Name = ''test'', db_Tables = []\<rparr>"

definition example_catalog :: Schema where
  "example_catalog = snd (CreateTable 2 1 example_db (example_table 8 ''b'') (snd (CreateSchema example_db (NewSchema [] True))))"

lemma example_catalog_ok: "schema_ok example_catalog"
proof -
  have "schema_ok (NewSchema [] True)" by (simp add: schema_ok_def tables_wf_def catalog_ok_def NewSchema_def)
  moreover obtain s1 where s1: "CreateSchema example_db (NewSchema [] True) = (None, s1)"
    by (simp add: CreateSchema_def NewSchema_def)
  ultimately have "schema_ok s1" by (rule CreateSchema_ok(1)) (simp_all add: NewSchema_def example_db_def)
  moreover have "schemas s1 1 = Some example_db" "tables s1 8 = None"
    using s1 by (auto simp: CreateSchema_def NewSchema_def example_db_def)
  ultimately show ?thesis
    using CreateTable_ok(1) [of s1 1 example_db 2 "example_table 8 ''b''" example_catalog] s1
    by (simp add: example_catalog_def CreateTable_def Let_def example_table_def)
qed


text \<open>A change of the character set stores a description without tables; the schema's tables then outlive it.\<close>

lemma charset_change_orphans_tables:
  "let js = [example_job 1 ActionCreateSchema 0 (Some \<lparr>db_ID = 1, db_Name = ''test'', db_Tables = []\<rparr>) None,
        example_job 2 ActionCreateTable 7 None (Some (example_table 7 ''a'')),
        example_job 3 ActionModifySchemaCharsetAndCollate 0 (Some \<lparr>db_ID = 1, db_Name = ''test'', db_Tables = []\<rparr>) None,
        example_job 4 ActionDropSchema 0 None None];
      s = snd (handlePreviousDDLJobIfNeed 4 (NewSchema js False))
   in currentVersion s = 4 \<and> SchemaByID s 1 = None \<and> SchemaAndTableName s 7 = Some (''test'', ''a'') \<and> TableByID s 7 \<noteq> None"
  by code_simp

end
