(* ===== verification/LoaderDML.thy ===== *)
theory LoaderDML
  imports Prelude "HOL-Library.List_Lexorder" "HOL-Library.Char_ord"
begin

text \<open>
  The data of \<^verbatim>\<open>pkg/loader\<close>: rows and DML statements (\<^verbatim>\<open>model.go\<close>), names and hashes (\<^verbatim>\<open>util.go\<close>), the causality of
  statements (\<^verbatim>\<open>causality.go\<close>) and the merging of statements on one row (\<^verbatim>\<open>merge.go\<close>).

  A value of a column is an \<^verbatim>\<open>interface{}\<close>: nil, an \<^verbatim>\<open>int64\<close>, a \<^verbatim>\<open>uint64\<close>, a string, a byte slice, or a \<^verbatim>\<open>float64\<close>,
  which is represented by the text \<^verbatim>\<open>%v\<close> prints for it. A map that the code ranges over is an association list; a missing
  key reads as nil.
\<close>

section \<open>Values and tables\<close>

datatype go_value = VNil | VInt int | VUint nat | VString string | VBytes bytes | VFloat string

definition int_str :: "int \<Rightarrow> string" where
  "int_str i = (if i < 0 then CHR ''-'' # dec_str (nat (- i)) else dec_str (nat i))"

fun join :: "string \<Rightarrow> string list \<Rightarrow> string" where
  "join sep [] = []"
| "join sep [x] = x"
| "join sep (x # xs) = x @ sep @ join sep xs"

text \<open>\<^verbatim>\<open>fmt.Fprintf("%v", v)\<close>.\<close>

fun fmt_v :: "go_value \<Rightarrow> string" where
  "fmt_v VNil = ''<nil>''"
| "fmt_v (VInt i) = int_str i"
| "fmt_v (VUint n) = dec_str n"
| "fmt_v (VString s) = s"
| "fmt_v (VBytes bs) = ''['' @ join '' '' (map (\<lambda>b. dec_str (unat b)) bs) @ '']''"
| "fmt_v (VFloat s) = s"

text \<open>\<^verbatim>\<open>!=\<close> on interface values; byte slices are not comparable.\<close>

fun go_neq :: "go_value \<Rightarrow> go_value \<Rightarrow> go_error + bool" where
  "go_neq (VBytes _) (VBytes _) = Inl (Panic ''runtime error: comparing uncomparable type []uint8'')"
| "go_neq v w = Inr (v \<noteq> w)"

record indexInfo =
  ii_name :: string
  ii_columns :: "string list"

record tableInfo =
  columns :: "string list"
  primaryKey :: "indexInfo option"
  uniqueKeys :: "indexInfo list"

datatype DMLType = UnknownDMLType | InsertDMLType | UpdateDMLType | DeleteDMLType

type_synonym row = "(string \<times> go_value) list"

record DML =
  Database :: string
  dml_Table :: string
  dml_Tp :: DMLType
  OldValues :: row
  Values :: row
  dml_info :: tableInfo

record DDL =
  ddl_Database :: string
  ddl_Table :: string
  SQL :: string
  ShouldSkip :: bool

text \<open>The metadata of a transaction is what the caller wants back with it.\<close>

record 'meta Txn =
  DMLs :: "DML list"
  txn_DDL :: "DDL option"
  AppliedTS :: int
  Metadata :: 'meta

definition AppendDML :: "DML \<Rightarrow> 'meta Txn \<Rightarrow> 'meta Txn" where
  "AppendDML dml t = t\<lparr>DMLs := DMLs t @ [dml]\<rparr>"

definition NewDDLTxn :: "string \<Rightarrow> string \<Rightarrow> string \<Rightarrow> 'meta \<Rightarrow> 'meta Txn" where
  "NewDDLTxn db table sql meta =
     \<lparr>DMLs = [], txn_DDL = Some \<lparr>ddl_Database = db, ddl_Table = table, SQL = sql, ShouldSkip = False\<rparr>,
      AppliedTS = 0, Metadata = meta\<rparr>"

definition isDDL :: "'meta Txn \<Rightarrow> bool" where
  "isDDL t \<longleftrightarrow> txn_DDL t \<noteq> None"

definition get_value :: "row \<Rightarrow> string \<Rightarrow> go_value" where
  "get_value vals name = (case map_of vals name of Some v \<Rightarrow> v | None \<Rightarrow> VNil)"

definition primaryKeys :: "DML \<Rightarrow> string list" where
  "primaryKeys dml = (case primaryKey (dml_info dml) of None \<Rightarrow> [] | Some pk \<Rightarrow> ii_columns pk)"

definition primaryKeyValues :: "DML \<Rightarrow> go_value list" where
  "primaryKeyValues dml = map (get_value (Values dml)) (primaryKeys dml)"

definition oldPrimaryKeyValues :: "DML \<Rightarrow> go_value list" where
  "oldPrimaryKeyValues dml =
     (if OldValues dml = [] then primaryKeyValues dml else map (get_value (OldValues dml)) (primaryKeys dml))"

definition formatKey :: "go_value list \<Rightarrow> string" where
  "formatKey vals = join ''--'' (map fmt_v vals)"

definition dml_formatKey :: "DML \<Rightarrow> string" where
  "dml_formatKey dml = formatKey (primaryKeyValues dml)"

fun any_differs :: "go_value list \<Rightarrow> go_value list \<Rightarrow> go_error + bool" where
  "any_differs (v # vs) (w # ws) =
     (case go_neq v w of Inl e \<Rightarrow> Inl e | Inr True \<Rightarrow> Inr True | Inr False \<Rightarrow> any_differs vs ws)"
| "any_differs _ _ = Inr False"

definition updateKey :: "DML \<Rightarrow> go_error + bool" where
  "updateKey dml =
     (if OldValues dml = [] then Inr False else any_differs (primaryKeyValues dml) (oldPrimaryKeyValues dml))"

section \<open>Names and statements\<close>

definition escapeName :: "string \<Rightarrow> string" where
  "escapeName name = concat (map (\<lambda>c. if c = CHR ''`'' then ''``'' else [c]) name)"

definition quoteName :: "string \<Rightarrow> string" where
  "quoteName name = ''`'' @ escapeName name @ ''`''"

definition quoteSchema :: "string \<Rightarrow> string \<Rightarrow> string" where
  "quoteSchema schema table = ''`'' @ escapeName schema @ ''`.`'' @ escapeName table @ ''`''"

definition holderString :: "nat \<Rightarrow> string" where
  "holderString n = join '','' (replicate n ''?'')"

definition buildColumnList :: "string list \<Rightarrow> string" where
  "buildColumnList names = join '','' (map quoteName names)"

definition dml_TableName :: "DML \<Rightarrow> string" where
  "dml_TableName dml = quoteSchema (Database dml) (dml_Table dml)"

definition columnNames :: "DML \<Rightarrow> string list" where
  "columnNames dml = sort (map_keys (Values dml))"

definition whereValues :: "DML \<Rightarrow> string list \<Rightarrow> go_value list" where
  "whereValues dml names =
     (let valueMap = (if dml_Tp dml = UpdateDMLType then OldValues dml else Values dml)
      in map (get_value valueMap) names)"

fun first_usable :: "DML \<Rightarrow> indexInfo list \<Rightarrow> (string list \<times> go_value list) option" where
  "first_usable dml [] = None"
| "first_usable dml (index # rest) =
     (let vals = whereValues dml (ii_columns index) in
      if list_all (\<lambda>v. v \<noteq> VNil) vals then Some (ii_columns index, vals) else first_usable dml rest)"

definition whereSlice :: "DML \<Rightarrow> string list \<times> go_value list" where
  "whereSlice dml =
     (case first_usable dml (uniqueKeys (dml_info dml)) of
        Some r \<Rightarrow> r
      | None \<Rightarrow> let names = columnNames dml in (names, whereValues dml names))"

definition buildWhere :: "DML \<Rightarrow> string \<times> go_value list" where
  "buildWhere dml =
     (case whereSlice dml of (wnames, wargs) \<Rightarrow>
        (join '' AND '' (map (\<lambda>(n, v). if v = VNil then quoteName n @ '' IS NULL'' else quoteName n @ '' = ?'') (zip wnames wargs)),
         filter (\<lambda>v. v \<noteq> VNil) wargs))"

type_synonym statement = "string \<times> go_value list"

definition updateSQL :: "DML \<Rightarrow> statement" where
  "updateSQL dml =
     (case buildWhere dml of (wher, whereArgs) \<Rightarrow>
        (''UPDATE '' @ dml_TableName dml @ '' SET '' @
           join '','' (map (\<lambda>name. quoteName name @ '' = ?'') (columnNames dml)) @ '' WHERE '' @ wher @ '' LIMIT 1'',
         map (get_value (Values dml)) (columnNames dml) @ whereArgs))"

definition deleteSQL :: "DML \<Rightarrow> statement" where
  "deleteSQL dml =
     (case buildWhere dml of (wher, args) \<Rightarrow>
        (''DELETE FROM '' @ dml_TableName dml @ '' WHERE '' @ wher @ '' LIMIT 1'', args))"

definition replaceSQL :: "DML \<Rightarrow> statement" where
  "replaceSQL dml =
     (let names = columnNames dml in
      (''REPLACE INTO '' @ dml_TableName dml @ ''('' @ buildColumnList names @ '') VALUES('' @ holderString (length names) @ '')'',
       map (get_value (Values dml)) names))"

text \<open>\<^verbatim>\<open>strings.Replace(s, old, new, 1)\<close>.\<close>

fun replace_once :: "string \<Rightarrow> string \<Rightarrow> string \<Rightarrow> string" where
  "replace_once old new [] = (if old = [] then new else [])"
| "replace_once old new (c # s) =
     (if take (length old) (c # s) = old then new @ drop (length old) (c # s) else c # replace_once old new s)"

definition insertSQL :: "DML \<Rightarrow> statement" where
  "insertSQL dml = (case replaceSQL dml of (sql, args) \<Rightarrow> (replace_once ''REPLACE'' ''INSERT'' sql, args))"

definition dml_sql :: "DML \<Rightarrow> statement" where
  "dml_sql dml =
     (case dml_Tp dml of
        InsertDMLType \<Rightarrow> insertSQL dml
      | UpdateDMLType \<Rightarrow> updateSQL dml
      | DeleteDMLType \<Rightarrow> deleteSQL dml
      | UnknownDMLType \<Rightarrow> ([], []))"

section \<open>Keys\<close>

definition genHashKey :: "string \<Rightarrow> u32" where
  "genHashKey key = crc32_ieee (map (\<lambda>c. word_of_nat (of_char c)) key)"

definition getKey :: "string list \<Rightarrow> row \<Rightarrow> string" where
  "getKey names vals =
     concat (map (\<lambda>name. let v = get_value vals name in
       if v = VNil then [] else ''('' @ name @ '': '' @ fmt_v v @ '')'') names)"

definition index_keys :: "indexInfo list \<Rightarrow> row \<Rightarrow> string \<Rightarrow> string list" where
  "index_keys indexes vals tableName =
     map (\<lambda>key. key @ tableName) (filter (\<lambda>key. key \<noteq> []) (map (\<lambda>index. getKey (ii_columns index) vals) indexes))"

definition hash_key :: "string list \<Rightarrow> row \<Rightarrow> string \<Rightarrow> string" where
  "hash_key cols vals tableName = dec_str (unat (genHashKey (getKey cols vals @ tableName)))"

definition getKeys :: "DML \<Rightarrow> string list" where
  "getKeys dml =
     (let info = dml_info dml;
          tableName = dml_TableName dml;
          newKeys = index_keys (uniqueKeys info) (Values dml) tableName;
          oldKeys = (if dml_Tp dml = UpdateDMLType then index_keys (uniqueKeys info) (OldValues dml) tableName else [])
      in newKeys @ oldKeys @
         (if newKeys = [] then [hash_key (columns info) (Values dml) tableName] else []) @
         (if dml_Tp dml = UpdateDMLType \<and> oldKeys = [] then [hash_key (columns info) (OldValues dml) tableName] else []))"

section \<open>Causality\<close>

type_synonym Causality = "string \<rightharpoonup> string"

definition NewCausality :: Causality where
  "NewCausality = Map.empty"

fun detect_from :: "Causality \<Rightarrow> string \<Rightarrow> string list \<Rightarrow> bool" where
  "detect_from c existedRelation [] = False"
| "detect_from c existedRelation (key # keys) =
     (case c key of
        Some v \<Rightarrow> if existedRelation \<noteq> [] \<and> v \<noteq> existedRelation then True else detect_from c v keys
      | None \<Rightarrow> detect_from c existedRelation keys)"

definition DetectConflict :: "Causality \<Rightarrow> string list \<Rightarrow> bool" where
  "DetectConflict c keys = (if keys = [] then False else detect_from c [] keys)"

definition causality_Add :: "string list \<Rightarrow> Causality \<Rightarrow> go_error option \<times> Causality" where
  "causality_Add keys c =
     (if keys = [] then (None, c)
      else if DetectConflict c keys then (Some (ErrMsg ''some conflicts in causality, must be resolved''), c)
      else
        let selectedRelation = fold (\<lambda>key sel. case c key of Some v \<Rightarrow> v | None \<Rightarrow> sel) keys (hd keys);
            nonExistKeys = filter (\<lambda>key. c key = None) keys
        in (None, fold (\<lambda>key c. c(key \<mapsto> selectedRelation)) nonExistKeys c))"

definition causality_Get :: "Causality \<Rightarrow> string \<Rightarrow> string" where
  "causality_Get c key = (case c key of Some v \<Rightarrow> v | None \<Rightarrow> [])"

definition causality_Reset :: "Causality \<Rightarrow> Causality" where
  "causality_Reset c = Map.empty"

section \<open>Merging\<close>

text \<open>An update of the primary key becomes a deletion and an insertion.\<close>

fun split_updates :: "DML list \<Rightarrow> go_error + DML list" where
  "split_updates [] = Inr []"
| "split_updates (dml # dmls) =
     (case (if dml_Tp dml = UpdateDMLType then updateKey dml else Inr False) of
        Inl e \<Rightarrow> Inl e
      | Inr changed \<Rightarrow>
          (case split_updates dmls of
             Inl e \<Rightarrow> Inl e
           | Inr rest \<Rightarrow>
               Inr (if changed
                    then dml\<lparr>dml_Tp := DeleteDMLType, Values := OldValues dml, OldValues := []\<rparr> #
                         dml\<lparr>dml_Tp := InsertDMLType, OldValues := []\<rparr> # rest
                    else dml # rest)))"

fun merge_one :: "DML \<Rightarrow> (string \<times> DML) list \<Rightarrow> go_error + (string \<times> DML) list" where
  "merge_one dml res =
     (let key = dml_formatKey dml in
      case map_of res key of
        None \<Rightarrow> Inr (AList.update key dml res)
      | Some oldDML \<Rightarrow>
          (case dml_Tp dml of
             InsertDMLType \<Rightarrow> Inr (AList.update key dml res)
           | DeleteDMLType \<Rightarrow> Inr (AList.update key dml res)
           | UpdateDMLType \<Rightarrow>
               Inr (AList.update key
                 (if dml_Tp oldDML = InsertDMLType then dml\<lparr>dml_Tp := InsertDMLType, OldValues := []\<rparr>
                  else if dml_Tp oldDML = UpdateDMLType then dml\<lparr>OldValues := OldValues oldDML\<rparr>
                  else dml) res)
           | UnknownDMLType \<Rightarrow> Inl (ErrMsg ''unknown tp'')))"

fun merge_all :: "DML list \<Rightarrow> (string \<times> DML) list \<Rightarrow> go_error + (string \<times> DML) list" where
  "merge_all [] res = Inr res"
| "merge_all (dml # dmls) res = (case merge_one dml res of Inl e \<Rightarrow> Inl e | Inr res \<Rightarrow> merge_all dmls res)"

definition mergeByPrimaryKey :: "DML list \<Rightarrow> go_error + (DMLType \<Rightarrow> DML list)" where
  "mergeByPrimaryKey dmls =
     (if dmls = [] then Inr (\<lambda>_. [])
      else if primaryKeys (hd dmls) = [] then Inl (ErrMsg ''no pk'')
      else
        (case split_updates dmls of
           Inl e \<Rightarrow> Inl e
         | Inr dmls \<Rightarrow>
             (case merge_all dmls [] of
                Inl e \<Rightarrow> Inl e
              | Inr res \<Rightarrow> Inr (\<lambda>tp. filter (\<lambda>dml. dml_Tp dml = tp) (map snd res)))))"

section \<open>Splitting\<close>

text \<open>\<^verbatim>\<open>splitDMLs\<close>: with a size of zero the loop does not end, with a negative one it slices out of range.\<close>

partial_function (option) split_loop :: "'a list \<Rightarrow> int \<Rightarrow> int \<Rightarrow> (go_error + 'a list list) option" where
  "split_loop dmls n i =
     (if i < int (length dmls) then
        let e = (if wrap_int64 (i + n) > int (length dmls) then int (length dmls) else wrap_int64 (i + n)) in
        if i < 0 \<or> e < i then Some (Inl (Panic ''slice bounds out of range''))
        else
          Option.bind (split_loop dmls n (wrap_int64 (i + n)))
            (\<lambda>r. Some (case r of
               Inl err \<Rightarrow> Inl err
             | Inr rest \<Rightarrow> Inr (take (nat (e - i)) (drop (nat i) dmls) # rest)))
      else Some (Inr []))"

definition splitDMLs :: "'a list \<Rightarrow> int \<Rightarrow> (go_error + 'a list list) option" where
  "splitDMLs dmls n = split_loop dmls n 0"

declare split_loop.simps [code]

lemma split_loop_ok:
  assumes "0 < n" "int64_range (int (length dmls) + n)"
  shows "0 \<le> i \<Longrightarrow> int64_range i \<Longrightarrow>
    \<exists>parts. split_loop dmls n i = Some (Inr parts) \<and> concat parts = drop (nat i) dmls \<and> (\<forall>p\<in>set parts. p \<noteq> [] \<and> int (length p) \<le> n)"
proof (induction "nat (int (length dmls) - i)" arbitrary: i rule: less_induct)
  case less
  show ?case
  proof (cases "i < int (length dmls)")
    case True
    let ?e = "min (int (length dmls)) (i + n)"
    have r: "int64_range (i + n)" using True less.prems assms by (auto simp: int64_range_def)
    then have w: "wrap_int64 (i + n) = i + n" by simp
    obtain parts where parts: "split_loop dmls n (i + n) = Some (Inr parts)" "concat parts = drop (nat (i + n)) dmls"
      "\<forall>p\<in>set parts. p \<noteq> [] \<and> int (length p) \<le> n"
      using less.hyps [of "i + n"] True less.prems assms r by auto
    have "take (nat (?e - i)) (drop (nat i) dmls) @ drop (nat (i + n)) dmls = drop (nat i) dmls"
    proof (cases "i + n \<le> int (length dmls)")
      case True
      then have "nat (i + n) = nat (?e - i) + nat i" using less.prems assms by auto
      then show ?thesis by (metis append_take_drop_id drop_drop)
    qed (use less.prems in \<open>auto simp: min_def\<close>)
    with True w parts less.prems assms show ?thesis
      by (subst split_loop.simps) (auto simp: Let_def min_def split: if_splits)
  next
    case False
    then show ?thesis using less.prems by (subst split_loop.simps) auto
  qed
qed

text \<open>With a positive size the loop ends, and the parts are the statements in order, none empty and none longer than the size.\<close>

lemma splitDMLs_ok:
  assumes "0 < n" "int64_range (int (length dmls) + n)"
  shows "\<exists>parts. splitDMLs dmls n = Some (Inr parts) \<and> concat parts = dmls \<and> (\<forall>p\<in>set parts. p \<noteq> [] \<and> int (length p) \<le> n)"
  using split_loop_ok [OF assms, of 0] by (simp add: splitDMLs_def int64_range_def)

section \<open>The description of a table\<close>

text \<open>The rows of \<^verbatim>\<open>information_schema.columns\<close> and of \<^verbatim>\<open>information_schema.statistics\<close>, as the queries return them.\<close>

fun contains :: "string \<Rightarrow> string \<Rightarrow> bool" where
  "contains p [] = (p = [])"
| "contains p (c # s) = (take (length p) (c # s) = p \<or> contains p s)"

definition getColsOfTbl :: "go_error + (string \<times> string) list \<Rightarrow> go_error + string list" where
  "getColsOfTbl rows =
     (case rows of
        Inl err \<Rightarrow> Inl err
      | Inr rows \<Rightarrow>
          let cols = map fst (filter (\<lambda>(name, extra).
                \<not> (contains ''VIRTUAL GENERATED'' extra \<or> contains ''STORED GENERATED'' extra)) rows)
          in if cols = [] then Inl (ErrMsg ''table not exist'') else Inr cols)"

fun add_index_column :: "string \<Rightarrow> string \<Rightarrow> indexInfo list \<Rightarrow> indexInfo list" where
  "add_index_column keyName columnName [] = [\<lparr>ii_name = keyName, ii_columns = [columnName]\<rparr>]"
| "add_index_column keyName columnName (ii # iis) =
     (if ii_name ii = keyName then ii\<lparr>ii_columns := ii_columns ii @ [columnName]\<rparr> # iis
      else ii # add_index_column keyName columnName iis)"

definition getUniqKeys :: "go_error + (int \<times> string \<times> int \<times> string) list \<Rightarrow> go_error + indexInfo list" where
  "getUniqKeys rows =
     (case rows of
        Inl err \<Rightarrow> Inl err
      | Inr rows \<Rightarrow>
          Inr (fold (\<lambda>(nonUnique, keyName, _, columnName) keys.
                 if nonUnique = 1 then keys else add_index_column keyName columnName keys) rows []))"

fun index_of :: "string \<Rightarrow> indexInfo list \<Rightarrow> nat option" where
  "index_of n [] = None"
| "index_of n (ii # iis) = (if ii_name ii = n then Some 0 else map_option Suc (index_of n iis))"

definition getTableInfo ::
  "go_error + (string \<times> string) list \<Rightarrow> go_error + (int \<times> string \<times> int \<times> string) list \<Rightarrow> go_error + tableInfo" where
  "getTableInfo colRows keyRows =
     (case getColsOfTbl colRows of
        Inl err \<Rightarrow> Inl err
      | Inr cols \<Rightarrow>
          (case getUniqKeys keyRows of
             Inl err \<Rightarrow> Inl err
           | Inr keys \<Rightarrow>
               (case index_of ''PRIMARY'' keys of
                  None \<Rightarrow> Inr \<lparr>columns = cols, primaryKey = None, uniqueKeys = keys\<rparr>
                | Some i \<Rightarrow>
                    let keys = keys[i := keys ! 0, 0 := keys ! i]
                    in Inr \<lparr>columns = cols, primaryKey = Some (keys ! 0), uniqueKeys = keys\<rparr>)))"

end
