(* ===== verification/LoaderExec.thy ===== *)
theory LoaderExec
  imports LoaderDML
begin

text \<open>
  \<^verbatim>\<open>pkg/loader/executor.go\<close> and \<^verbatim>\<open>pkg/loader/load.go\<close>: how DML statements are grouped, split over workers and retried, how
  transactions are batched and acknowledged, and the manager that bounds what is cached.

  The downstream database answers each call with an outcome from the list \<open>db_io\<close> (success once the list is used up) and
  remembers the transactions it committed. Statements that goroutines run at the same time appear in one order among the possible ones;
  what holds for every order is proved about the queues of the workers.
\<close>

section \<open>The downstream database\<close>

type_synonym transaction = "statement list"

record database =
  db_io :: "go_error option list"
  committed :: "transaction list"
  mark_index :: int
  db_tables :: "string \<Rightarrow> string \<Rightarrow> go_error + tableInfo"
  ctx_cancels :: "bool list"

definition db_call :: "database \<Rightarrow> go_error option \<times> database" where
  "db_call db = (case db_io db of [] \<Rightarrow> (None, db) | r # rs \<Rightarrow> (r, db\<lparr>db_io := rs\<rparr>))"

definition ctx_done :: "database \<Rightarrow> bool \<times> database" where
  "ctx_done db = (case ctx_cancels db of [] \<Rightarrow> (False, db) | c # cs \<Rightarrow> (c, db\<lparr>ctx_cancels := cs\<rparr>))"

fun is_panic :: "go_error \<Rightarrow> bool" where
  "is_panic (Panic _) = True"
| "is_panic _ = False"

text \<open>\<^verbatim>\<open>util.RetryContext\<close>: at most \<open>n\<close> calls; between two calls the context may be found cancelled. A panic is not retried.\<close>

fun RetryContext :: "nat \<Rightarrow> ('s \<Rightarrow> bool \<times> 's) \<Rightarrow> ('s \<Rightarrow> go_error option \<times> 's) \<Rightarrow> go_error option \<Rightarrow> 's \<Rightarrow> go_error option \<times> 's" where
  "RetryContext 0 cancelled fn err s = (err, s)"
| "RetryContext (Suc n) cancelled fn err s =
     (case fn s of
        (None, s) \<Rightarrow> (None, s)
      | (Some e, s) \<Rightarrow>
          if is_panic e then (Some e, s) else
          (case cancelled s of
             (True, s) \<Rightarrow> (Some e, s)
           | (False, s) \<Rightarrow> RetryContext n cancelled fn (Some e) s))"

text \<open>\<^verbatim>\<open>drainer/loopbacksync\<close>: the mark written into every transaction so that a replica can tell where it came from.\<close>

record LoopBackSync =
  ChannelID :: int
  LoopbackControl :: bool
  SyncDDL :: bool

definition MarkTableName :: string where
  "MarkTableName = ''retl._drainer_repl_mark''"

definition UpdateMark :: "int \<Rightarrow> int \<Rightarrow> statement" where
  "UpdateMark i channelID =
     (''update '' @ MarkTableName @ '' set val=val+1 where id=? and channel_id=? limit 1;'', [VInt i, VInt channelID])"

definition InitMarkTableData :: "nat \<Rightarrow> int \<Rightarrow> statement" where
  "InitMarkTableData rowNum channelID =
     (''REPLACE INTO '' @ MarkTableName @ ''(id,channel_id,val,channel_info)  VALUES '' @ join '','' (replicate rowNum ''(?,?,?,?)''),
      concat (map (\<lambda>i. [VInt (int i), VInt channelID, VInt 1, VString []]) [0..<rowNum]))"

definition CleanMarkTableData :: "int \<Rightarrow> statement" where
  "CleanMarkTableData channelID = (''delete from '' @ MarkTableName @ '' where channel_id = ? '', [VInt channelID])"

definition CreateMarkDBDDL :: string where
  "CreateMarkDBDDL = ''create database IF NOT EXISTS retl;''"

definition CreateMarkTableDDL :: string where
  "CreateMarkTableDDL =
     ''CREATE TABLE If Not Exists '' @ MarkTableName @ '' (id bigint not null,channel_id bigint not null DEFAULT 0, '' @
     ''val bigint DEFAULT 0, channel_info varchar(64) ,PRIMARY KEY (id,channel_id));''"

text \<open>\<^verbatim>\<open>db.Exec\<close> runs one statement in a transaction of its own.\<close>

definition db_exec :: "statement \<Rightarrow> database \<Rightarrow> go_error option \<times> database" where
  "db_exec st db =
     (case db_call db of
        (Some err, db) \<Rightarrow> (Some err, db)
      | (None, db) \<Rightarrow> (None, db\<lparr>committed := committed db @ [[st]]\<rparr>))"

definition CreateMarkTable :: "database \<Rightarrow> go_error option \<times> database" where
  "CreateMarkTable db =
     (case db_exec (CreateMarkDBDDL, []) db of
        (Some err, db) \<Rightarrow> (Some err, db)
      | (None, db) \<Rightarrow> db_exec (CreateMarkTableDDL, []) db)"

section \<open>The executor\<close>

record executor =
  e_batchSize :: int
  e_workerCount :: int
  e_info :: "LoopBackSync option"

text \<open>\<^verbatim>\<open>%\<close> takes the sign of its first argument.\<close>

definition go_rem :: "int \<Rightarrow> int \<Rightarrow> int" where
  "go_rem a b = (if a < 0 then - ((- a) mod \<bar>b\<bar>) else a mod \<bar>b\<bar>)"

definition addIndex :: "executor \<Rightarrow> database \<Rightarrow> int \<times> database" where
  "addIndex e db =
     (let i = wrap_int64 (mark_index db + 1) in (go_rem i (e_workerCount e), db\<lparr>mark_index := i\<rparr>))"

text \<open>A transaction that has begun is the list of its statements; a failed statement rolls it back.\<close>

definition begin_tx :: "executor \<Rightarrow> database \<Rightarrow> (go_error + transaction) \<times> database" where
  "begin_tx e db =
     (case db_call db of
        (Some err, db) \<Rightarrow> (Inl err, db)
      | (None, db) \<Rightarrow>
          (case e_info e of
             None \<Rightarrow> (Inr [], db)
           | Some info \<Rightarrow>
               if \<not> LoopbackControl info then (Inr [], db)
               else if e_workerCount e = 0 then (Inl (Panic ''integer divide by zero''), db)
               else
                 (case addIndex e db of (i, db) \<Rightarrow>
                    (case db_call db of
                       (Some err, db) \<Rightarrow> (Inl err, snd (db_call db))
                     | (None, db) \<Rightarrow> (Inr [UpdateMark i (ChannelID info)], db)))))"

definition autoRollbackExec :: "statement \<Rightarrow> transaction \<Rightarrow> database \<Rightarrow> (go_error + transaction) \<times> database" where
  "autoRollbackExec st tx db =
     (case db_call db of
        (Some err, db) \<Rightarrow> (Inl err, snd (db_call db))
      | (None, db) \<Rightarrow> (Inr (tx @ [st]), db))"

definition commit_tx :: "transaction \<Rightarrow> database \<Rightarrow> go_error option \<times> database" where
  "commit_tx tx db =
     (case db_call db of
        (Some err, db) \<Rightarrow> (Some err, db)
      | (None, db) \<Rightarrow> (None, db\<lparr>committed := committed db @ [tx]\<rparr>))"

fun exec_statements :: "statement list \<Rightarrow> transaction \<Rightarrow> database \<Rightarrow> go_error option \<times> database" where
  "exec_statements [] tx db = commit_tx tx db"
| "exec_statements (st # sts) tx db =
     (case autoRollbackExec st tx db of
        (Inl err, db) \<Rightarrow> (Some err, db)
      | (Inr tx, db) \<Rightarrow> exec_statements sts tx db)"

definition run_tx :: "executor \<Rightarrow> statement list \<Rightarrow> database \<Rightarrow> go_error option \<times> database" where
  "run_tx e sts db =
     (case begin_tx e db of
        (Inl err, db) \<Rightarrow> (Some err, db)
      | (Inr tx, db) \<Rightarrow> exec_statements sts tx db)"

definition delete_statement :: "DML list \<Rightarrow> statement" where
  "delete_statement deletes =
     (concat (map (\<lambda>dml. fst (dml_sql dml) @ '';'') deletes), concat (map (\<lambda>dml. snd (dml_sql dml)) deletes))"

definition bulkDelete :: "executor \<Rightarrow> DML list \<Rightarrow> database \<Rightarrow> go_error option \<times> database" where
  "bulkDelete e deletes db = (if deletes = [] then (None, db) else run_tx e [delete_statement deletes] db)"

definition replace_statement :: "DML list \<Rightarrow> statement" where
  "replace_statement inserts =
     (let cols = columns (dml_info (hd inserts)) in
      (''REPLACE INTO '' @ dml_TableName (hd inserts) @ ''('' @ buildColumnList cols @ '')'' @ '' VALUES '' @
         join '','' (map (\<lambda>_. ''('' @ holderString (length cols) @ '')'') inserts),
       concat (map (\<lambda>dml. map (get_value (Values dml)) cols) inserts)))"

definition bulkReplace :: "executor \<Rightarrow> DML list \<Rightarrow> database \<Rightarrow> go_error option \<times> database" where
  "bulkReplace e inserts db = (if inserts = [] then (None, db) else run_tx e [replace_statement inserts] db)"

text \<open>The groups run at the same time and all of them run; the first error is returned. A size of zero never returns.\<close>

fun exec_splits :: "(DML list \<Rightarrow> database \<Rightarrow> go_error option \<times> database) \<Rightarrow> DML list list \<Rightarrow> database \<Rightarrow> go_error option \<times> database" where
  "exec_splits exec [] db = (None, db)"
| "exec_splits exec (split # splits) db =
     (case exec split db of (err, db) \<Rightarrow>
        (case exec_splits exec splits db of (err', db) \<Rightarrow> (case err of None \<Rightarrow> err' | Some e \<Rightarrow> Some e, db)))"

definition splitExecDML ::
  "executor \<Rightarrow> DML list \<Rightarrow> (DML list \<Rightarrow> database \<Rightarrow> go_error option \<times> database) \<Rightarrow> database \<Rightarrow> (go_error option \<times> database) option" where
  "splitExecDML e dmls exec db =
     Option.bind (splitDMLs dmls (e_batchSize e)) (\<lambda>r. Some (case r of
        Inl err \<Rightarrow> (Some err, db)
      | Inr splits \<Rightarrow> exec_splits exec splits db))"

definition exec_type ::
  "executor \<Rightarrow> DML list \<Rightarrow> (DML list \<Rightarrow> database \<Rightarrow> go_error option \<times> database) \<Rightarrow>
     (go_error option \<times> database) option \<Rightarrow> (go_error option \<times> database) option" where
  "exec_type e dmls exec r =
     Option.bind r (\<lambda>(err, db). case err of
        Some _ \<Rightarrow> Some (err, db)
      | None \<Rightarrow> if dmls = [] then Some (None, db) else splitExecDML e dmls exec db)"

definition execTableBatch :: "executor \<Rightarrow> DML list \<Rightarrow> database \<Rightarrow> (go_error option \<times> database) option" where
  "execTableBatch e dmls db =
     (if dmls = [] then Some (None, db)
      else
        (case mergeByPrimaryKey dmls of
           Inl err \<Rightarrow> Some (Some err, db)
         | Inr types \<Rightarrow>
             exec_type e (types UpdateDMLType) (bulkReplace e)
               (exec_type e (types InsertDMLType) (bulkReplace e)
                 (exec_type e (types DeleteDMLType) (bulkDelete e) (Some (None, db))))))"

definition single_statements :: "bool \<Rightarrow> DML \<Rightarrow> statement list" where
  "single_statements safeMode dml =
     (if safeMode \<and> dml_Tp dml = UpdateDMLType then [deleteSQL dml, replaceSQL dml]
      else if safeMode \<and> dml_Tp dml = InsertDMLType then [replaceSQL dml]
      else [dml_sql dml])"

definition executor_singleExec :: "executor \<Rightarrow> DML list \<Rightarrow> bool \<Rightarrow> database \<Rightarrow> go_error option \<times> database" where
  "executor_singleExec e dmls safeMode db = run_tx e (concat (map (single_statements safeMode) dmls)) db"

definition removeOrphanCols :: "tableInfo \<Rightarrow> DML \<Rightarrow> DML" where
  "removeOrphanCols info dml =
     (let orphan = (\<lambda>name. name \<notin> set (columns info)) in
      dml\<lparr>OldValues := filter (\<lambda>(name, _). \<not> (orphan name \<and> name \<in> set (map_keys (Values dml)))) (OldValues dml),
          Values := filter (\<lambda>(name, _). \<not> orphan name) (Values dml)\<rparr>)"

section \<open>The loader\<close>

datatype SyncMode = SyncFullColumn | SyncPartialColumn

record loaderImpl =
  l_db :: database
  tableInfos :: "string \<rightharpoonup> tableInfo"
  l_batchSize :: int
  l_workerCount :: int
  l_syncMode :: SyncMode
  l_loopBackSyncInfo :: "LoopBackSync option"
  l_merge :: bool
  l_enableDispatch :: bool
  l_enableCausality :: bool
  l_safeMode :: bool
  l_saveAppliedTS :: bool

record loader_options =
  o_workerCount :: int
  o_batchSize :: int
  o_loopBackSyncInfo :: "LoopBackSync option"
  o_saveAppliedTS :: bool
  o_syncMode :: SyncMode
  o_enableDispatch :: bool
  o_enableCausality :: bool
  o_merge :: bool

definition defaultLoaderOptions :: loader_options where
  "defaultLoaderOptions =
     \<lparr>o_workerCount = 16, o_batchSize = 20, o_loopBackSyncInfo = None, o_saveAppliedTS = False, o_syncMode = SyncFullColumn,
      o_enableDispatch = True, o_enableCausality = True, o_merge = False\<rparr>"

definition NewLoader :: "database \<Rightarrow> loader_options \<Rightarrow> loaderImpl" where
  "NewLoader db opts =
     (let opts = (if o_enableDispatch opts then opts else opts\<lparr>o_workerCount := 1, o_batchSize := max_int64\<rparr>) in
      \<lparr>l_db = db, tableInfos = Map.empty, l_batchSize = o_batchSize opts, l_workerCount = o_workerCount opts,
       l_syncMode = o_syncMode opts, l_loopBackSyncInfo = o_loopBackSyncInfo opts, l_merge = o_merge opts,
       l_enableDispatch = o_enableDispatch opts, l_enableCausality = o_enableCausality opts, l_safeMode = False,
       l_saveAppliedTS = o_saveAppliedTS opts\<rparr>)"

definition SetSafeMode :: "bool \<Rightarrow> loaderImpl \<Rightarrow> loaderImpl" where
  "SetSafeMode safe s = s\<lparr>l_safeMode := safe\<rparr>"

definition GetSafeMode :: "loaderImpl \<Rightarrow> bool" where
  "GetSafeMode s = l_safeMode s"

text \<open>The result None in \<open>Inr None\<close> is a nil description, for a DDL without a table.\<close>

definition refreshTableInfo :: "string \<Rightarrow> string \<Rightarrow> loaderImpl \<Rightarrow> (go_error + tableInfo option) \<times> loaderImpl" where
  "refreshTableInfo schema table s =
     (if schema = [] then (Inl (ErrMsg ''schema is empty''), s)
      else if table = [] then (Inr None, s)
      else
        (case db_tables (l_db s) schema table of
           Inl err \<Rightarrow> (Inl err, s)
         | Inr info \<Rightarrow> (Inr (Some info), s\<lparr>tableInfos := (tableInfos s)(quoteSchema schema table \<mapsto> info)\<rparr>)))"

definition evictTableInfo :: "string \<Rightarrow> string \<Rightarrow> loaderImpl \<Rightarrow> loaderImpl" where
  "evictTableInfo schema table s = s\<lparr>tableInfos := (tableInfos s)(quoteSchema schema table := None)\<rparr>"

definition loader_getTableInfo :: "string \<Rightarrow> string \<Rightarrow> loaderImpl \<Rightarrow> (go_error + tableInfo option) \<times> loaderImpl" where
  "loader_getTableInfo schema table s =
     (case tableInfos s (quoteSchema schema table) of
        Some info \<Rightarrow> (Inr (Some info), s)
      | None \<Rightarrow> refreshTableInfo schema table s)"

definition getExecutor :: "loaderImpl \<Rightarrow> executor" where
  "getExecutor s = \<lparr>e_batchSize = l_batchSize s, e_workerCount = l_workerCount s, e_info = l_loopBackSyncInfo s\<rparr>"

definition initMarkTable :: "LoopBackSync \<Rightarrow> loaderImpl \<Rightarrow> go_error option \<times> loaderImpl" where
  "initMarkTable info s =
     (case CreateMarkTable (l_db s) of
        (Some err, db) \<Rightarrow> (Some err, s\<lparr>l_db := db\<rparr>)
      | (None, db) \<Rightarrow>
          (case db_exec (InitMarkTableData (nat (l_workerCount s)) (ChannelID info)) db of
             (err, db) \<Rightarrow> (err, s\<lparr>l_db := db\<rparr>)))"

section \<open>The statements without a batch\<close>

text \<open>After an error that a column is missing, in partial-column mode, the descriptions are read again and the statements cut down to them.
  \<open>column_missing\<close> tells that error; \<open>name2info\<close> are the descriptions read so far.\<close>

fun refresh_dmls :: "(string \<rightharpoonup> tableInfo) \<Rightarrow> DML list \<Rightarrow> loaderImpl \<Rightarrow> (go_error + DML list) \<times> loaderImpl" where
  "refresh_dmls name2info [] s = (Inr [], s)"
| "refresh_dmls name2info (dml # dmls) s =
     (let name = dml_TableName dml in
      case (case name2info name of Some info \<Rightarrow> (Inr (Some info), s) | None \<Rightarrow> refreshTableInfo (Database dml) (dml_Table dml) s) of
        (Inl _, s) \<Rightarrow>
          (case refresh_dmls name2info dmls s of
             (Inl err, s) \<Rightarrow> (Inl err, s)
           | (Inr rest, s) \<Rightarrow> (Inr (dml # rest), s))
      | (Inr None, s) \<Rightarrow> (Inl (Panic ''nil pointer dereference''), s)
      | (Inr (Some info), s) \<Rightarrow>
          (let dml = (if length (columns (dml_info dml)) \<noteq> length (columns info) then removeOrphanCols info dml else dml);
               dml = dml\<lparr>dml_info := info\<rparr>
           in (case refresh_dmls (name2info(name \<mapsto> info)) dmls s of
                 (Inl err, s) \<Rightarrow> (Inl err, s)
               | (Inr rest, s) \<Rightarrow> (Inr (dml # rest), s))))"

definition single_attempt ::
  "(go_error \<Rightarrow> bool) \<Rightarrow> executor \<Rightarrow> bool \<Rightarrow> DML list \<times> loaderImpl \<Rightarrow> go_error option \<times> DML list \<times> loaderImpl" where
  "single_attempt column_missing e safeMode st =
     (case st of (dmls, s) \<Rightarrow>
        (case executor_singleExec e dmls safeMode (l_db s) of
           (None, db) \<Rightarrow> (None, dmls, s\<lparr>l_db := db\<rparr>)
         | (Some err, db) \<Rightarrow>
             (let s = s\<lparr>l_db := db\<rparr> in
              if column_missing err \<and> l_syncMode s = SyncPartialColumn
              then (case refresh_dmls Map.empty dmls s of
                      (Inl p, s) \<Rightarrow> (Some p, dmls, s)
                    | (Inr dmls, s) \<Rightarrow> (Some err, dmls, s))
              else (Some err, dmls, s))))"

definition loader_ctx_done :: "DML list \<times> loaderImpl \<Rightarrow> bool \<times> DML list \<times> loaderImpl" where
  "loader_ctx_done st = (case st of (dmls, s) \<Rightarrow> (case ctx_done (l_db s) of (c, db) \<Rightarrow> (c, dmls, s\<lparr>l_db := db\<rparr>)))"

definition maxDMLRetryCount :: nat where "maxDMLRetryCount = 100"

definition maxDDLRetryCount :: nat where "maxDDLRetryCount = 5"

definition execLimitMultiple :: int where "execLimitMultiple = 3"

fun retry_splits :: "(go_error \<Rightarrow> bool) \<Rightarrow> executor \<Rightarrow> bool \<Rightarrow> DML list list \<Rightarrow> loaderImpl \<Rightarrow> go_error option \<times> loaderImpl" where
  "retry_splits column_missing e safeMode [] s = (None, s)"
| "retry_splits column_missing e safeMode (dmls # splits) s =
     (case RetryContext maxDMLRetryCount loader_ctx_done (single_attempt column_missing e safeMode) None (dmls, s) of
        (Some err, _, s) \<Rightarrow> (Some err, s)
      | (None, _, s) \<Rightarrow> retry_splits column_missing e safeMode splits s)"

definition singleExecRetry ::
  "(go_error \<Rightarrow> bool) \<Rightarrow> executor \<Rightarrow> DML list \<Rightarrow> bool \<Rightarrow> loaderImpl \<Rightarrow> (go_error option \<times> loaderImpl) option" where
  "singleExecRetry column_missing e allDMLs safeMode s =
     Option.bind (splitDMLs allDMLs (e_batchSize e)) (\<lambda>r. Some (case r of
        Inl err \<Rightarrow> (Some err, s)
      | Inr splits \<Rightarrow> retry_splits column_missing e safeMode splits s))"

fun execByHash :: "(go_error \<Rightarrow> bool) \<Rightarrow> executor \<Rightarrow> DML list list \<Rightarrow> loaderImpl \<Rightarrow> (go_error option \<times> loaderImpl) option" where
  "execByHash column_missing e [] s = Some (None, s)"
| "execByHash column_missing e (dmls # byHash) s =
     (if dmls = [] then execByHash column_missing e byHash s
      else
        Option.bind (singleExecRetry column_missing e dmls (GetSafeMode s) s) (\<lambda>(err, s).
          Option.bind (execByHash column_missing e byHash s) (\<lambda>(err', s).
            Some (case err of None \<Rightarrow> err' | Some x \<Rightarrow> Some x, s))))"

text \<open>The loop of \<^verbatim>\<open>singleExec\<close> over an arbitrary way of executing the queues of the workers.\<close>

definition worker_of :: "nat \<Rightarrow> string \<Rightarrow> nat" where
  "worker_of n key = unat (genHashKey key) mod n"

fun single_loop ::
  "(DML list list \<Rightarrow> 's \<Rightarrow> (go_error option \<times> 's) option) \<Rightarrow> bool \<Rightarrow> Causality \<Rightarrow> DML list list \<Rightarrow> DML list \<Rightarrow> 's
     \<Rightarrow> (go_error option \<times> 's) option" where
  "single_loop exec enableCausality causality byHash [] s = exec byHash s"
| "single_loop exec enableCausality causality byHash (dml # dmls) s =
     (let keys = getKeys dml; key = hd keys in
      if enableCausality then
        Option.bind
          (if DetectConflict causality keys
           then map_option (\<lambda>(err, s). (err, causality_Reset causality, map (\<lambda>_. []) byHash, s)) (exec byHash s)
           else Some (None, causality, byHash, s))
          (\<lambda>(err, causality, byHash, s).
             case err of
               Some e \<Rightarrow> Some (Some e, s)
             | None \<Rightarrow>
                 let causality = snd (causality_Add keys causality);
                     key = causality_Get causality key
                 in if byHash = [] then Some (Some (Panic ''integer divide by zero''), s)
                    else
                      let idx = worker_of (length byHash) key
                      in single_loop exec enableCausality causality (byHash[idx := byHash ! idx @ [dml]]) dmls s)
      else if byHash = [] then Some (Some (Panic ''integer divide by zero''), s)
      else
        let idx = worker_of (length byHash) key
        in single_loop exec enableCausality causality (byHash[idx := byHash ! idx @ [dml]]) dmls s)"

definition loader_singleExec ::
  "(go_error \<Rightarrow> bool) \<Rightarrow> executor \<Rightarrow> DML list \<Rightarrow> loaderImpl \<Rightarrow> (go_error option \<times> loaderImpl) option" where
  "loader_singleExec column_missing e dmls s =
     single_loop (execByHash column_missing e) (l_enableCausality s) NewCausality (replicate (nat (l_workerCount s)) []) dmls s"

section \<open>A batch\<close>

definition filterGeneratedCols :: "DML \<Rightarrow> DML" where
  "filterGeneratedCols dml =
     (if length (columns (dml_info dml)) < length (Values dml)
      then dml\<lparr>Values := fold (\<lambda>col. AList.update col (get_value (Values dml) col)) (columns (dml_info dml)) []\<rparr> else dml)"

definition setDMLInfo :: "DML \<Rightarrow> loaderImpl \<Rightarrow> (go_error + DML) \<times> loaderImpl" where
  "setDMLInfo dml s =
     (case loader_getTableInfo (Database dml) (dml_Table dml) s of
        (Inl err, s) \<Rightarrow> (Inl err, s)
      | (Inr None, s) \<Rightarrow> (Inl (Panic ''nil pointer dereference''), s)
      | (Inr (Some info), s) \<Rightarrow> (Inr (dml\<lparr>dml_info := info\<rparr>), s))"

fun prepare_dmls :: "DML list \<Rightarrow> loaderImpl \<Rightarrow> (go_error + DML list) \<times> loaderImpl" where
  "prepare_dmls [] s = (Inr [], s)"
| "prepare_dmls (dml # dmls) s =
     (case setDMLInfo dml s of
        (Inl err, s) \<Rightarrow> (Inl err, s)
      | (Inr dml, s) \<Rightarrow>
          (let dml = filterGeneratedCols dml;
               dml = (if l_syncMode s = SyncPartialColumn then removeOrphanCols (dml_info dml) dml else dml)
           in (case prepare_dmls dmls s of
                 (Inl err, s) \<Rightarrow> (Inl err, s)
               | (Inr dmls, s) \<Rightarrow> (Inr (dml # dmls), s))))"

definition groupDMLs :: "bool \<Rightarrow> DML list \<Rightarrow> (string \<times> DML list) list \<times> DML list" where
  "groupDMLs merge dmls =
     (if \<not> merge then ([], dmls)
      else
        fold (\<lambda>dml (batchByTbls, singleDMLs).
          if primaryKey (dml_info dml) \<noteq> None
          then (AList.update (dml_TableName dml)
                  ((case map_of batchByTbls (dml_TableName dml) of None \<Rightarrow> [] | Some ds \<Rightarrow> ds) @ [dml]) batchByTbls, singleDMLs)
          else (batchByTbls, singleDMLs @ [dml])) dmls ([], []))"

text \<open>\<^verbatim>\<open>execTableBatchRetry\<close>; when the splitting does not return, neither does the attempt.\<close>

fun execTableBatchRetry :: "nat \<Rightarrow> executor \<Rightarrow> DML list \<Rightarrow> go_error option \<Rightarrow> database \<Rightarrow> (go_error option \<times> database) option" where
  "execTableBatchRetry 0 e dmls err db = Some (err, db)"
| "execTableBatchRetry (Suc n) e dmls err db =
     Option.bind (execTableBatch e dmls db) (\<lambda>(err, db).
       case err of
         None \<Rightarrow> Some (None, db)
       | Some x \<Rightarrow>
           if is_panic x then Some (err, db) else
           (case ctx_done db of
              (True, db) \<Rightarrow> Some (err, db)
            | (False, db) \<Rightarrow> execTableBatchRetry n e dmls err db))"

fun exec_tables :: "executor \<Rightarrow> (string \<times> DML list) list \<Rightarrow> loaderImpl \<Rightarrow> (go_error option \<times> loaderImpl) option" where
  "exec_tables e [] s = Some (None, s)"
| "exec_tables e ((_, dmls) # rest) s =
     Option.bind (execTableBatchRetry maxDMLRetryCount e dmls None (l_db s)) (\<lambda>(err, db).
       Option.bind (exec_tables e rest (s\<lparr>l_db := db\<rparr>)) (\<lambda>(err', s).
         Some (case err of None \<Rightarrow> err' | Some x \<Rightarrow> Some x, s)))"

definition execDMLs :: "(go_error \<Rightarrow> bool) \<Rightarrow> DML list \<Rightarrow> loaderImpl \<Rightarrow> (go_error option \<times> loaderImpl) option" where
  "execDMLs column_missing dmls s =
     (if dmls = [] then Some (None, s)
      else
        (case prepare_dmls dmls s of
           (Inl err, s) \<Rightarrow> Some (Some err, s)
         | (Inr dmls, s) \<Rightarrow>
             (case groupDMLs (l_merge s) dmls of (batchTables, singleDMLs) \<Rightarrow>
                let e = getExecutor s in
                Option.bind (exec_tables e batchTables s) (\<lambda>(err, s).
                  Option.bind (loader_singleExec column_missing e singleDMLs s) (\<lambda>(err', s).
                    Some (case err of None \<Rightarrow> err' | Some x \<Rightarrow> Some x, s))))))"

section \<open>DDL\<close>

text \<open>What the parser says of a statement, None when it does not parse; an alteration of a table lists whether each part sets a TiFlash replica.\<close>

datatype sql_stmt =
    DropTableStmt | DropDatabaseStmt | TruncateTableStmt | CreateDatabaseStmt | AlterTableStmt "bool list" | OtherStmt

type_synonym sql_parser = "string \<Rightarrow> sql_stmt option"

definition needRefreshTableInfo :: "sql_parser \<Rightarrow> string \<Rightarrow> bool" where
  "needRefreshTableInfo parse sql =
     (case parse sql of
        None \<Rightarrow> True
      | Some stmt \<Rightarrow> stmt \<notin> {DropTableStmt, DropDatabaseStmt, TruncateTableStmt, CreateDatabaseStmt})"

definition isCreateDatabaseDDL :: "sql_parser \<Rightarrow> string \<Rightarrow> bool" where
  "isCreateDatabaseDDL parse sql \<longleftrightarrow> parse sql = Some CreateDatabaseStmt"

definition isSetTiFlashReplica :: "sql_parser \<Rightarrow> string \<Rightarrow> bool" where
  "isSetTiFlashReplica parse sql =
     (case parse sql of
        Some (AlterTableStmt specs) \<Rightarrow> \<not> 1 < length specs \<and> True \<in> set specs
      | _ \<Rightarrow> False)"

definition ddl_attempt :: "sql_parser \<Rightarrow> DDL \<Rightarrow> database \<Rightarrow> go_error option \<times> database" where
  "ddl_attempt parse ddl db =
     (case db_call db of
        (Some err, db) \<Rightarrow> (Some err, db)
      | (None, db) \<Rightarrow>
          exec_statements
            ((if ddl_Database ddl \<noteq> [] \<and> \<not> isCreateDatabaseDDL parse (SQL ddl)
              then [(''use '' @ quoteName (ddl_Database ddl) @ '';'', [])] else []) @ [(SQL ddl, [])]) [] db)"

definition loader_execDDL :: "sql_parser \<Rightarrow> DDL \<Rightarrow> loaderImpl \<Rightarrow> go_error option \<times> loaderImpl" where
  "loader_execDDL parse ddl s =
     (if ShouldSkip ddl then (None, s)
      else
        (case RetryContext maxDDLRetryCount ctx_done (ddl_attempt parse ddl) None (l_db s) of
           (err, db) \<Rightarrow>
             (if err \<noteq> None \<and> isSetTiFlashReplica parse (SQL ddl) then None else err, s\<lparr>l_db := db\<rparr>)))"

end
