(* ===== verification/LoaderRun.thy ===== *)
theory LoaderRun
  imports LoaderExec
begin

text \<open>
  The rest of \<^verbatim>\<open>pkg/loader/load.go\<close>: the manager that collects transactions into batches and acknowledges them, the main loop \<^verbatim>\<open>Run\<close>,
  and the manager that bounds the statements waiting in the loader. The functions a batch manager calls are its parameters; the loader's own are
  given to it by \<open>loader_ops\<close>.
\<close>

section \<open>Batches\<close>

record ('meta, 's) batch_ops =
  fExecDMLs :: "DML list \<Rightarrow> 's \<Rightarrow> (go_error option \<times> 's) option"
  fDMLsSuccessCallback :: "'meta Txn list \<Rightarrow> 's \<Rightarrow> 's"
  fExecDDL :: "DDL \<Rightarrow> 's \<Rightarrow> go_error option \<times> 's"
  fDDLSuccessCallback :: "'meta Txn \<Rightarrow> 's \<Rightarrow> 's"
  ignoreDDLError :: "go_error \<Rightarrow> bool"

record 'meta batchManager =
  b_txns :: "'meta Txn list"
  b_dmls :: "DML list"
  b_enableDispatch :: bool
  b_limit :: int

definition execAccumulatedDMLs ::
  "('meta, 's) batch_ops \<Rightarrow> 'meta batchManager \<Rightarrow> 's \<Rightarrow> (go_error option \<times> 'meta batchManager \<times> 's) option" where
  "execAccumulatedDMLs ops b s =
     (if b_dmls b = [] then Some (None, b, s)
      else
        Option.bind (fExecDMLs ops (b_dmls b) s) (\<lambda>(err, s).
          case err of
            Some e \<Rightarrow> Some (Some e, b, s)
          | None \<Rightarrow>
              let s = fDMLsSuccessCallback ops (b_txns b) s
              in Some (None, b\<lparr>b_txns := [], b_dmls := []\<rparr>, s)))"

definition batch_execDDL :: "('meta, 's) batch_ops \<Rightarrow> DDL \<Rightarrow> 'meta Txn \<Rightarrow> 's \<Rightarrow> go_error option \<times> 's" where
  "batch_execDDL ops ddl txn s =
     (case fExecDDL ops ddl s of
        (Some err, s) \<Rightarrow> if ignoreDDLError ops err then (None, fDDLSuccessCallback ops txn s) else (Some err, s)
      | (None, s) \<Rightarrow> (None, fDDLSuccessCallback ops txn s))"

definition batch_put ::
  "('meta, 's) batch_ops \<Rightarrow> 'meta Txn \<Rightarrow> 'meta batchManager \<Rightarrow> 's \<Rightarrow> (go_error option \<times> 'meta batchManager \<times> 's) option" where
  "batch_put ops txn b s =
     (case txn_DDL txn of
        Some ddl \<Rightarrow>
          if ddl_Database ddl = [] then Some (Some (ErrMsg ''get DDL Txn with empty database''), b, s)
          else
            Option.bind (execAccumulatedDMLs ops b s) (\<lambda>(err, b, s).
              case err of
                Some e \<Rightarrow> Some (Some e, b, s)
              | None \<Rightarrow> (case batch_execDDL ops ddl txn s of (err, s) \<Rightarrow> Some (err, b, s)))
      | None \<Rightarrow>
          let b = b\<lparr>b_dmls := b_dmls b @ DMLs txn, b_txns := b_txns b @ [txn]\<rparr> in
          if int (length (b_dmls b)) \<ge> b_limit b \<or> \<not> b_enableDispatch b
          then execAccumulatedDMLs ops b s
          else Some (None, b, s))"

text \<open>The events of the loop \<^verbatim>\<open>Run\<close>: a transaction arrives, the input is found empty, the input is closed.\<close>

datatype 'meta load_event = Arrives "'meta Txn" | InputEmpty | InputClosed

definition load_step ::
  "('meta, 's) batch_ops \<Rightarrow> 'meta load_event \<Rightarrow> 'meta batchManager \<Rightarrow> 's \<Rightarrow> (go_error option \<times> 'meta batchManager \<times> 's) option" where
  "load_step ops ev b s =
     (case ev of
        Arrives txn \<Rightarrow> batch_put ops txn b s
      | InputEmpty \<Rightarrow> if 0 < length (b_dmls b) then execAccumulatedDMLs ops b s else Some (None, b, s)
      | InputClosed \<Rightarrow> execAccumulatedDMLs ops b s)"

fun load_run ::
  "('meta, 's) batch_ops \<Rightarrow> 'meta load_event list \<Rightarrow> 'meta batchManager \<Rightarrow> 's \<Rightarrow> (go_error option \<times> 'meta batchManager \<times> 's) option" where
  "load_run ops [] b s = Some (None, b, s)"
| "load_run ops (ev # evs) b s =
     Option.bind (load_step ops ev b s) (\<lambda>(err, b, s).
       case err of
         Some e \<Rightarrow> Some (Some e, b, s)
       | None \<Rightarrow> (case ev of InputClosed \<Rightarrow> Some (None, b, s) | _ \<Rightarrow> load_run ops evs b s))"

section \<open>The loader's operations\<close>

text \<open>The loader with the transactions it has acknowledged and what it will read of the clock and of the secondary cluster's position:
  None while the last update is recent, or the position.\<close>

record 'meta loader_state =
  ls_loader :: loaderImpl
  successTxn :: "'meta Txn list"
  applied_obs :: "int option list"

definition markSuccess :: "'meta Txn list \<Rightarrow> 'meta loader_state \<Rightarrow> 'meta loader_state" where
  "markSuccess txns s =
     (if l_saveAppliedTS (ls_loader s) \<and> txns \<noteq> []
      then
        (case applied_obs s of
           Some ts # obs \<Rightarrow>
             s\<lparr>successTxn := successTxn s @ butlast txns @ [(last txns)\<lparr>AppliedTS := ts\<rparr>], applied_obs := obs\<rparr>
         | obs \<Rightarrow> s\<lparr>successTxn := successTxn s @ txns, applied_obs := tl obs\<rparr>)
      else s\<lparr>successTxn := successTxn s @ txns\<rparr>)"

definition ddl_success :: "sql_parser \<Rightarrow> 'meta Txn \<Rightarrow> 'meta loader_state \<Rightarrow> 'meta loader_state" where
  "ddl_success parse txn s =
     (let s = markSuccess [txn] s in
      case txn_DDL txn of
        None \<Rightarrow> s
      | Some ddl \<Rightarrow>
          if ShouldSkip ddl \<or> needRefreshTableInfo parse (SQL ddl)
          then s\<lparr>ls_loader := evictTableInfo (ddl_Database ddl) (ddl_Table ddl) (ls_loader s)\<rparr> else s)"

definition loader_ops ::
  "sql_parser \<Rightarrow> (go_error \<Rightarrow> bool) \<Rightarrow> (go_error \<Rightarrow> bool) \<Rightarrow> ('meta, 'meta loader_state) batch_ops" where
  "loader_ops parse column_missing ignore =
     \<lparr>fExecDMLs = (\<lambda>dmls s. map_option (\<lambda>(err, l). (err, s\<lparr>ls_loader := l\<rparr>)) (execDMLs column_missing dmls (ls_loader s))),
      fDMLsSuccessCallback = markSuccess,
      fExecDDL = (\<lambda>ddl s. case loader_execDDL parse ddl (ls_loader s) of (err, l) \<Rightarrow> (err, s\<lparr>ls_loader := l\<rparr>)),
      fDDLSuccessCallback = ddl_success parse,
      ignoreDDLError = ignore\<rparr>"

definition newBatchManager :: "loaderImpl \<Rightarrow> 'meta batchManager" where
  "newBatchManager s =
     \<lparr>b_txns = [], b_dmls = [], b_enableDispatch = l_enableDispatch s,
      b_limit = wrap_int64 (wrap_int64 (l_batchSize s * l_workerCount s) * execLimitMultiple)\<rparr>"

text \<open>\<^verbatim>\<open>Run\<close>: the mark table is prepared before and cleaned after, when the loop-back control is on.\<close>

definition loader_Run ::
  "sql_parser \<Rightarrow> (go_error \<Rightarrow> bool) \<Rightarrow> (go_error \<Rightarrow> bool) \<Rightarrow> 'meta load_event list \<Rightarrow> 'meta loader_state
     \<Rightarrow> (go_error option \<times> 'meta loader_state) option" where
  "loader_Run parse column_missing ignore evs s =
     (let ops = loader_ops parse column_missing ignore;
          run = (\<lambda>s. map_option (\<lambda>(err, b, s). (err, s)) (load_run ops evs (newBatchManager (ls_loader s)) s))
      in case l_loopBackSyncInfo (ls_loader s) of
           None \<Rightarrow> run s
         | Some info \<Rightarrow>
             if \<not> LoopbackControl info then run s
             else
               (case initMarkTable info (ls_loader s) of
                  (Some err, l) \<Rightarrow> Some (Some err, s\<lparr>ls_loader := l\<rparr>)
                | (None, l) \<Rightarrow>
                    map_option (\<lambda>(err, s).
                      (err, s\<lparr>ls_loader := (ls_loader s)\<lparr>l_db := snd (db_exec (CleanMarkTableData (ChannelID info)) (l_db (ls_loader s)))\<rparr>\<rparr>))
                      (run (s\<lparr>ls_loader := l\<rparr>))))"

section \<open>The transactions waiting\<close>

text \<open>The goroutine of the transaction manager: it takes a transaction, waits for room, sends it to the channel of capacity 1024 and
  only then counts it, while the main loop receives and \<^verbatim>\<open>pop\<close>s. The input is closed once \<open>tm_input\<close> is used up. When a \<^verbatim>\<open>select\<close> finds
  the manager shut down as well as its channel ready, the flag of the step says which one it takes.\<close>

datatype 'meta tm_pc = LoopHead | Taking | Waiting "'meta Txn" | Sending "'meta Txn" | Counting "'meta Txn" | Quit

record 'meta txnManager =
  tm_input :: "'meta Txn list"
  cacheChan :: "'meta Txn list"
  received :: "'meta Txn list"
  cachedSize :: int
  maxCacheSize :: int
  tm_isClosed :: bool
  tm_pc :: "'meta tm_pc"

definition newTxnManager :: "int \<Rightarrow> 'meta Txn list \<Rightarrow> 'meta txnManager" where
  "newTxnManager maxSize input =
     \<lparr>tm_input = input, cacheChan = [], received = [], cachedSize = 0, maxCacheSize = maxSize, tm_isClosed = False, tm_pc = LoopHead\<rparr>"

abbreviation txn_size :: "'meta Txn \<Rightarrow> int" where
  "txn_size txn \<equiv> int (length (DMLs txn))"

definition has_room :: "'meta Txn \<Rightarrow> 'meta txnManager \<Rightarrow> bool" where
  "has_room txn t =
     (if txn_size txn < maxCacheSize t then txn_size txn + cachedSize t \<le> maxCacheSize t else cachedSize t = 0)"

definition tm_step :: "bool \<Rightarrow> 'meta txnManager \<Rightarrow> 'meta txnManager" where
  "tm_step shutdown t =
     (case tm_pc t of
        LoopHead \<Rightarrow> t\<lparr>tm_pc := (if tm_isClosed t then Quit else Taking)\<rparr>
      | Taking \<Rightarrow>
          if tm_isClosed t \<and> shutdown then t\<lparr>tm_pc := Quit\<rparr>
          else (case tm_input t of [] \<Rightarrow> t\<lparr>tm_pc := Quit\<rparr> | txn # rest \<Rightarrow> t\<lparr>tm_input := rest, tm_pc := Waiting txn\<rparr>)
      | Waiting txn \<Rightarrow> if tm_isClosed t \<or> has_room txn t then t\<lparr>tm_pc := Sending txn\<rparr> else t
      | Sending txn \<Rightarrow>
          if tm_isClosed t \<and> shutdown then t\<lparr>tm_pc := Quit\<rparr>
          else if length (cacheChan t) < 1024 then t\<lparr>cacheChan := cacheChan t @ [txn], tm_pc := Counting txn\<rparr>
          else t
      | Counting txn \<Rightarrow> t\<lparr>cachedSize := cachedSize t + txn_size txn, tm_pc := LoopHead\<rparr>
      | Quit \<Rightarrow> t)"

text \<open>The main loop receives a transaction and pops it.\<close>

definition tm_pop :: "'meta txnManager \<Rightarrow> 'meta txnManager" where
  "tm_pop t =
     (case cacheChan t of
        [] \<Rightarrow> t
      | txn # rest \<Rightarrow> t\<lparr>cacheChan := rest, received := received t @ [txn], cachedSize := cachedSize t - txn_size txn\<rparr>)"

definition tm_Close :: "'meta txnManager \<Rightarrow> 'meta txnManager" where
  "tm_Close t = t\<lparr>tm_isClosed := True\<rparr>"

datatype tm_event = TmStep bool | TmPop | TmClose

fun tm_event_step :: "tm_event \<Rightarrow> 'meta txnManager \<Rightarrow> 'meta txnManager" where
  "tm_event_step (TmStep shutdown) t = tm_step shutdown t"
| "tm_event_step TmPop t = tm_pop t"
| "tm_event_step TmClose t = tm_Close t"

definition tm_exec :: "tm_event list \<Rightarrow> 'meta txnManager \<Rightarrow> 'meta txnManager" where
  "tm_exec evs t = fold tm_event_step evs t"

end
