(* ===== verification/LoaderMerge.thy ===== *)
theory LoaderMerge
  imports LoaderDML "HOL-Library.Multiset"
begin

text \<open>
  Merging the statements on one table: executing the merged statements, the deletions first and then the replacements, each
  group in any order, leaves the table as the original statements do one after the other.
\<close>

section \<open>A table\<close>

text \<open>A table maps the values of the primary key to the row. The statements of a batch in the order they were made upstream:\<close>

type_synonym table = "go_value list \<rightharpoonup> row"

definition apply_dml :: "DML \<Rightarrow> table \<Rightarrow> table" where
  "apply_dml d t =
     (case dml_Tp d of
        InsertDMLType \<Rightarrow> t(primaryKeyValues d \<mapsto> Values d)
      | DeleteDMLType \<Rightarrow> t(primaryKeyValues d := None)
      | UpdateDMLType \<Rightarrow> t(oldPrimaryKeyValues d := None, primaryKeyValues d \<mapsto> Values d)
      | UnknownDMLType \<Rightarrow> t)"

text \<open>The statements of \<^verbatim>\<open>execTableBatch\<close>: \<^verbatim>\<open>DELETE\<close> by key and \<^verbatim>\<open>REPLACE\<close>.\<close>

definition delete_dml :: "DML \<Rightarrow> table \<Rightarrow> table" where
  "delete_dml d t = t(primaryKeyValues d := None)"

definition replace_dml :: "DML \<Rightarrow> table \<Rightarrow> table" where
  "replace_dml d t = t(primaryKeyValues d \<mapsto> Values d)"

definition upsert :: "DML \<Rightarrow> table \<Rightarrow> table" where
  "upsert d t =
     (case dml_Tp d of
        DeleteDMLType \<Rightarrow> delete_dml d t
      | UnknownDMLType \<Rightarrow> t
      | _ \<Rightarrow> replace_dml d t)"

definition key_values :: "DML list \<Rightarrow> go_value list set" where
  "key_values dmls = primaryKeyValues ` set dmls \<union> oldPrimaryKeyValues ` set dmls"

section \<open>Key updates\<close>

lemma go_neq_False: "go_neq v w = Inr False \<Longrightarrow> v = w"
  by (cases "(v, w)" rule: go_neq.cases) auto

lemma any_differs_False: "any_differs vs ws = Inr False \<Longrightarrow> length vs = length ws \<Longrightarrow> vs = ws"
  by (induction vs ws rule: any_differs.induct) (auto split: sum.splits bool.splits dest: go_neq_False)

lemma updateKey_False: "updateKey d = Inr False \<Longrightarrow> oldPrimaryKeyValues d = primaryKeyValues d"
  using any_differs_False [of "primaryKeyValues d" "oldPrimaryKeyValues d"]
  by (auto simp: updateKey_def oldPrimaryKeyValues_def primaryKeyValues_def split: if_splits)

lemma updateKey_True: "updateKey d = Inr True \<Longrightarrow> OldValues d \<noteq> []"
  by (auto simp: updateKey_def)

lemma split_keys [simp]:
  "primaryKeyValues (d\<lparr>dml_Tp := tp\<rparr>) = primaryKeyValues d" "primaryKeyValues (d\<lparr>OldValues := vs\<rparr>) = primaryKeyValues d"
  "OldValues d \<noteq> [] \<Longrightarrow> primaryKeyValues (d\<lparr>dml_Tp := tp, Values := OldValues d\<rparr>) = oldPrimaryKeyValues d"
  by (simp_all add: primaryKeyValues_def oldPrimaryKeyValues_def primaryKeys_def)

lemma split_updates_ok:
  "split_updates dmls = Inr dmls' \<Longrightarrow>
   fold upsert dmls' t = fold apply_dml dmls t \<and> primaryKeyValues ` set dmls' \<subseteq> key_values dmls"
proof (induction dmls arbitrary: dmls' t)
  case (Cons d dmls)
  obtain changed rest where c: "(if dml_Tp d = UpdateDMLType then updateKey d else Inr False) = Inr changed"
    and rest: "split_updates dmls = Inr rest"
    and eq: "dmls' = (if changed then d\<lparr>dml_Tp := DeleteDMLType, Values := OldValues d, OldValues := []\<rparr> #
        d\<lparr>dml_Tp := InsertDMLType, OldValues := []\<rparr> # rest else d # rest)"
    using Cons.prems by (auto split: sum.splits)
  note IH = Cons.IH [OF rest]
  show ?case
  proof (cases changed)
    case True
    then have "dml_Tp d = UpdateDMLType" "OldValues d \<noteq> []" using c by (auto split: if_splits dest: updateKey_True)
    then have "upsert (d\<lparr>dml_Tp := InsertDMLType, OldValues := []\<rparr>)
        (upsert (d\<lparr>dml_Tp := DeleteDMLType, Values := OldValues d, OldValues := []\<rparr>) t) = apply_dml d t"
      by (auto simp: upsert_def apply_dml_def delete_dml_def replace_dml_def)
    with True eq IH \<open>OldValues d \<noteq> []\<close> show ?thesis by (auto simp: key_values_def)
  next
    case False
    then have "dml_Tp d = UpdateDMLType \<Longrightarrow> oldPrimaryKeyValues d = primaryKeyValues d"
      using c by (auto split: if_splits dest: updateKey_False)
    then have "upsert d t = apply_dml d t" for t
      by (auto simp: upsert_def apply_dml_def delete_dml_def replace_dml_def split: DMLType.split)
    with False eq IH show ?thesis by (auto simp: key_values_def)
  qed
qed (simp add: key_values_def)

section \<open>The merged statements\<close>

text \<open>What the map of merged statements does to a table.\<close>

definition merged_effect :: "(string \<times> DML) list \<Rightarrow> table \<Rightarrow> table" where
  "merged_effect res t k =
     (case map_of res (formatKey k) of
        None \<Rightarrow> t k
      | Some d \<Rightarrow> if primaryKeyValues d = k then upsert d t k else t k)"

definition keyed :: "(string \<times> DML) list \<Rightarrow> bool" where
  "keyed res \<longleftrightarrow> distinct (map_keys res) \<and> (\<forall>(key, d)\<in>set res. key = dml_formatKey d)"

lemma merge_one_cases:
  assumes "merge_one d res = Inr res'"
  shows "\<exists>d'. res' = AList.update (dml_formatKey d) d' res \<and> primaryKeyValues d' = primaryKeyValues d \<and>
    (\<forall>t. upsert d' t = upsert d t) \<and> (dml_Tp d = UnknownDMLType \<longrightarrow> map_of res (dml_formatKey d) = None)"
proof -
  have "res' = AList.update (dml_formatKey d) d res \<and> (dml_Tp d = UnknownDMLType \<longrightarrow> map_of res (dml_formatKey d) = None) \<or>
    dml_Tp d = UpdateDMLType \<and> (res' = AList.update (dml_formatKey d) (d\<lparr>dml_Tp := InsertDMLType, OldValues := []\<rparr>) res \<or>
      (\<exists>vs. res' = AList.update (dml_formatKey d) (d\<lparr>OldValues := vs\<rparr>) res))"
    using assms by (cases "dml_Tp d") (auto simp: Let_def split: option.splits if_splits)
  moreover have same: "upsert (d\<lparr>OldValues := vs\<rparr>) t = upsert d t"
    "dml_Tp d = UpdateDMLType \<Longrightarrow> upsert (d\<lparr>dml_Tp := InsertDMLType, OldValues := []\<rparr>) t = upsert d t" for vs t
    by (auto simp: upsert_def replace_dml_def delete_dml_def split: DMLType.split)
  ultimately show ?thesis
  proof (elim disjE conjE exE)
    assume "res' = AList.update (dml_formatKey d) d res" "dml_Tp d = UnknownDMLType \<longrightarrow> map_of res (dml_formatKey d) = None"
    then show ?thesis by (intro exI [of _ d]) simp
  next
    assume "dml_Tp d = UpdateDMLType" "res' = AList.update (dml_formatKey d) (d\<lparr>dml_Tp := InsertDMLType, OldValues := []\<rparr>) res"
    then show ?thesis using same by (intro exI [of _ "d\<lparr>dml_Tp := InsertDMLType, OldValues := []\<rparr>"]) simp
  next
    fix vs assume "dml_Tp d = UpdateDMLType" "res' = AList.update (dml_formatKey d) (d\<lparr>OldValues := vs\<rparr>) res"
    then show ?thesis using same by (intro exI [of _ "d\<lparr>OldValues := vs\<rparr>"]) simp
  qed
qed

lemma set_AList_update: "set (AList.update k v m) \<subseteq> insert (k, v) (set m)"
  by (induction m) auto

lemma keyed_update:
  assumes "keyed res" "primaryKeyValues d' = primaryKeyValues d"
  shows "keyed (AList.update (dml_formatKey d) d' res)"
  using assms set_AList_update [of "dml_formatKey d" d' res]
  by (fastforce simp: keyed_def dml_formatKey_def distinct_update)

lemma merge_one_effect:
  assumes inj: "inj_on formatKey K" and k: "primaryKeyValues d \<in> K" "primaryKeyValues ` snd ` set res \<subseteq> K"
    and m: "merge_one d res = Inr res'" and eff: "merged_effect res t = t'"
  shows "merged_effect res' t = upsert d t'"
proof (rule ext)
  fix x
  obtain d' where d': "res' = AList.update (dml_formatKey d) d' res" "primaryKeyValues d' = primaryKeyValues d"
    "upsert d' t = upsert d t" "dml_Tp d = UnknownDMLType \<longrightarrow> map_of res (dml_formatKey d) = None"
    using merge_one_cases [OF m] by blast
  show "merged_effect res' t x = upsert d t' x"
  proof (cases "x = primaryKeyValues d")
    case True
    then have "merged_effect res' t x = upsert d t x" using d' by (simp add: merged_effect_def dml_formatKey_def map_of_update)
    also have "\<dots> = upsert d t' x"
    proof (cases "dml_Tp d = UnknownDMLType")
      case un: True
      with d'(4) True eff show ?thesis by (auto simp: upsert_def merged_effect_def dml_formatKey_def)
    next
      case False
      with True show ?thesis by (cases "dml_Tp d") (auto simp: upsert_def delete_dml_def replace_dml_def)
    qed
    finally show ?thesis .
  next
    case False
    then have same: "upsert d t' x = t' x" by (auto simp: upsert_def delete_dml_def replace_dml_def split: DMLType.split)
    have "merged_effect res' t x = merged_effect res t x"
    proof (cases "formatKey x = dml_formatKey d")
      case collide: True
      have "primaryKeyValues old \<noteq> x" if "map_of res (formatKey x) = Some old" for old
      proof
        assume x: "primaryKeyValues old = x"
        have "x \<in> K" using map_of_SomeD [OF that] k(2) x by force
        with inj k(1) collide False show False by (auto simp: dml_formatKey_def dest: inj_onD)
      qed
      with collide False d' show ?thesis by (auto simp: merged_effect_def map_of_update split: option.split)
    next
      case no: False
      then show ?thesis by (simp add: merged_effect_def d'(1) map_of_update)
    qed
    with same eff show ?thesis by simp
  qed
qed

lemma merge_all_effect:
  assumes "inj_on formatKey K"
  shows "merge_all dmls res = Inr res' \<Longrightarrow> primaryKeyValues ` set dmls \<subseteq> K \<Longrightarrow> primaryKeyValues ` snd ` set res \<subseteq> K \<Longrightarrow>
    keyed res \<Longrightarrow> keyed res' \<and> merged_effect res' t = fold upsert dmls (merged_effect res t)"
proof (induction dmls arbitrary: res)
  case (Cons d dmls)
  then obtain res1 where m: "merge_one d res = Inr res1" "merge_all dmls res1 = Inr res'" by (auto simp del: merge_one.simps split: sum.splits)
  obtain d' where d': "res1 = AList.update (dml_formatKey d) d' res" "primaryKeyValues d' = primaryKeyValues d"
    using merge_one_cases [OF m(1)] by blast
  have d: "primaryKeyValues d \<in> K" using Cons.prems(2) by simp
  have key1: "keyed res1" using keyed_update [OF Cons.prems(4) d'(2)] d'(1) by simp
  have "snd ` set res1 \<subseteq> insert d' (snd ` set res)"
    using image_mono [OF set_AList_update, of snd "dml_formatKey d" d' res] d'(1) by simp
  then have "primaryKeyValues ` snd ` set res1 \<subseteq> insert (primaryKeyValues d') (primaryKeyValues ` snd ` set res)" by auto
  then have k1: "primaryKeyValues ` snd ` set res1 \<subseteq> K" 
    by (rule subset_trans) (use Cons.prems(3) d d'(2) in simp)
  have eff: "merged_effect res1 t = upsert d (merged_effect res t)"
    by (rule merge_one_effect [OF assms d Cons.prems(3) m(1) refl])
  show ?case using Cons.IH [OF m(2) _ k1 key1] Cons.prems(2) eff by simp
qed simp

section \<open>Executing the merged statements\<close>

lemma fold_delete: "fold delete_dml ds t k = (if k \<in> primaryKeyValues ` set ds then None else t k)"
  by (induction ds arbitrary: t) (auto simp: delete_dml_def)

lemma fold_replace_unique:
  "\<forall>d\<in>set ds. primaryKeyValues d = k \<longrightarrow> d = e \<Longrightarrow>
   fold replace_dml ds t k = (if e \<in> set ds \<and> primaryKeyValues e = k then Some (Values e) else t k)"
proof (induction ds arbitrary: t)
  case (Cons d ds)
  then have IH: "fold replace_dml ds (replace_dml d t) k =
      (if e \<in> set ds \<and> primaryKeyValues e = k then Some (Values e) else replace_dml d t k)" by simp
  show ?case
  proof (cases "primaryKeyValues d = k")
    case True
    with Cons.prems have "d = e" by simp
    moreover have "replace_dml d t k = Some (Values d)" using True by (simp add: replace_dml_def)
    ultimately show ?thesis using IH True by simp
  next
    case False
    then have "replace_dml d t k = t k" by (auto simp: replace_dml_def)
    moreover have "e \<in> set (d # ds) \<and> primaryKeyValues e = k \<longleftrightarrow> e \<in> set ds \<and> primaryKeyValues e = k" using False by auto
    ultimately show ?thesis using IH by (simp only: fold_simps o_apply list.simps)
  qed
qed simp

lemma fold_replace_other: "\<forall>d\<in>set ds. primaryKeyValues d \<noteq> k \<Longrightarrow> fold replace_dml ds t k = t k"
  by (induction ds arbitrary: t) (auto simp: replace_dml_def)

lemma merged_effect_Nil [simp]: "merged_effect [] t = t"
  by (simp add: merged_effect_def fun_eq_iff)

lemma keyed_unique:
  assumes "keyed res" "d \<in> set (map snd res)" "e \<in> set (map snd res)" "primaryKeyValues d = primaryKeyValues e"
  shows "d = e"
proof -
  have "(dml_formatKey d, d) \<in> set res" "(dml_formatKey e, e) \<in> set res" using assms by (auto simp: keyed_def)
  with assms show ?thesis by (auto simp: keyed_def dml_formatKey_def dest: eq_key_imp_eq_value)
qed

lemma exec_merged:
  assumes res: "keyed res"
    and ds: "set ds = {d \<in> set (map snd res). dml_Tp d = DeleteDMLType}"
    and ins: "set ins = {d \<in> set (map snd res). dml_Tp d = InsertDMLType}"
    and us: "set us = {d \<in> set (map snd res). dml_Tp d = UpdateDMLType}"
  shows "fold replace_dml us (fold replace_dml ins (fold delete_dml ds t)) = merged_effect res t"
proof (rule ext)
  fix k
  show "fold replace_dml us (fold replace_dml ins (fold delete_dml ds t)) k = merged_effect res t k"
  proof (cases "\<exists>d\<in>set (map snd res). primaryKeyValues d = k")
    case False
    then have "k \<notin> primaryKeyValues ` set ds" "\<forall>d\<in>set ins. primaryKeyValues d \<noteq> k" "\<forall>d\<in>set us. primaryKeyValues d \<noteq> k"
      using ds ins us by auto
    moreover have "merged_effect res t k = t k"
      using False by (auto simp: merged_effect_def split: option.split dest!: map_of_SomeD)
    ultimately show ?thesis by (simp add: fold_replace_other fold_delete)
  next
    case True
    then obtain e where e: "e \<in> set (map snd res)" "primaryKeyValues e = k" by blast
    have only: "\<forall>d\<in>set (map snd res). primaryKeyValues d = k \<longrightarrow> d = e" using keyed_unique [OF res _ e(1)] e(2) by simp
    have "(dml_formatKey e, e) \<in> set res" using e(1) res by (auto simp: keyed_def)
    then have "map_of res (formatKey k) = Some e"
      using res e(2) by (intro map_of_is_SomeI) (auto simp: keyed_def dml_formatKey_def)
    then have eff: "merged_effect res t k = upsert e t k" using e(2) by (simp add: merged_effect_def)
    have "\<forall>d\<in>set ins. primaryKeyValues d = k \<longrightarrow> d = e" "\<forall>d\<in>set us. primaryKeyValues d = k \<longrightarrow> d = e"
      using only unfolding ins us by blast+
    note r = fold_replace_unique [OF this(1)] fold_replace_unique [OF this(2)]
    have del: "k \<in> primaryKeyValues ` set ds \<longleftrightarrow> dml_Tp e = DeleteDMLType"
    proof
      assume "k \<in> primaryKeyValues ` set ds"
      then obtain d where "d \<in> set (map snd res)" "dml_Tp d = DeleteDMLType" "primaryKeyValues d = k" unfolding ds by blast
      with only show "dml_Tp e = DeleteDMLType" by blast
    next
      assume "dml_Tp e = DeleteDMLType"
      with e show "k \<in> primaryKeyValues ` set ds" unfolding ds by blast
    qed
    have mem: "e \<in> set ins \<longleftrightarrow> dml_Tp e = InsertDMLType" "e \<in> set us \<longleftrightarrow> dml_Tp e = UpdateDMLType" using ins us e(1) by simp_all
    show ?thesis unfolding r fold_delete eff del mem using e(2)
      by (cases "dml_Tp e") (simp_all add: upsert_def delete_dml_def replace_dml_def)
  qed
qed


definition example_info :: tableInfo where
  "example_info = \<lparr>columns = [''id'', ''n''], primaryKey = Some \<lparr>ii_name = ''PRIMARY'', ii_columns = [''id'']\<rparr>,
     uniqueKeys = [\<lparr>ii_name = ''PRIMARY'', ii_columns = [''id'']\<rparr>]\<rparr>"

definition example_dml :: "DMLType \<Rightarrow> row \<Rightarrow> row \<Rightarrow> DML" where
  "example_dml tp old new =
     \<lparr>Database = ''test'', dml_Table = ''t'', dml_Tp = tp, OldValues = old, Values = new, dml_info = example_info\<rparr>"

definition example_row :: "int \<Rightarrow> int \<Rightarrow> row" where
  "example_row i n = [(''id'', VInt i), (''n'', VInt n)]"

definition example_batch :: "DML list" where
  "example_batch =
     [example_dml InsertDMLType [] (example_row 1 10), example_dml UpdateDMLType (example_row 1 10) (example_row 2 11),
      example_dml InsertDMLType [] (example_row 1 12), example_dml DeleteDMLType [] (example_row 2 11)]"


text \<open>The keys of two different rows can be formatted alike; one of the two rows is then lost in the merge.\<close>

lemma formatKey_collides:
  "formatKey [VString ''a--b'', VString ''c''] = formatKey [VString ''a'', VString ''b--c'']"
  by code_simp

end
