(* ===== verification/LoaderProps.thy ===== *)
theory LoaderProps
  imports LoaderRun LoaderMerge
begin

text \<open>
  The workers of the loader: statements that conflict run in the order they came, whatever the schedule of the workers, because the causality
  table gives statements with a common key the same worker or separates them by a round.
\<close>

section \<open>Interleavings\<close>

text \<open>The orders in which workers can run their queues.\<close>

inductive interleaving :: "'a list list \<Rightarrow> 'a list \<Rightarrow> bool" where
  none: "\<forall>q\<in>set qs. q = [] \<Longrightarrow> interleaving qs []"
| pick: "i < length qs \<Longrightarrow> qs ! i = x # q \<Longrightarrow> interleaving (qs[i := q]) xs \<Longrightarrow> interleaving qs (x # xs)"

lemma concat_eq_Cons:
  "concat qs = x # xs \<Longrightarrow> \<exists>i q. i < length qs \<and> qs ! i = x # q \<and> concat (qs[i := q]) = xs"
proof (induction qs)
  case (Cons p qs)
  show ?case
  proof (cases p)
    case Nil
    with Cons obtain i q where "i < length qs" "qs ! i = x # q" "concat (qs[i := q]) = xs" by auto
    with Nil show ?thesis by (intro exI [of _ "Suc i"] exI [of _ q]) simp
  next
    case (Cons y q)
    with \<open>concat (p # qs) = x # xs\<close> show ?thesis by (intro exI [of _ 0] exI [of _ q]) simp
  qed
qed simp

text \<open>One of them: a worker after the other.\<close>

lemma interleaving_concat: "interleaving qs (concat qs)"
proof -
  have "concat qs = xs \<Longrightarrow> interleaving qs xs" for xs
  proof (induction xs arbitrary: qs)
    case (Cons x xs)
    from concat_eq_Cons [OF Cons.prems] obtain i q where "i < length qs" "qs ! i = x # q" "concat (qs[i := q]) = xs" by blast
    with Cons.IH show ?case by (intro pick)
  qed (simp add: none)
  then show ?thesis by simp
qed

definition commutes :: "('a \<Rightarrow> 's \<Rightarrow> 's) \<Rightarrow> 'a \<Rightarrow> 'a \<Rightarrow> bool" where
  "commutes f a b \<longleftrightarrow> (\<forall>s. f a (f b s) = f b (f a s))"

lemma fold_commute_front:
  "\<forall>y\<in>set pre. commutes f x y \<Longrightarrow> fold f (pre @ x # post) s = fold f (pre @ post) (f x s)"
proof (induction pre arbitrary: s)
  case (Cons y pre)
  then have "f x (f y s) = f y (f x s)" by (simp add: commutes_def)
  with Cons show ?case by simp
qed simp

definition queues :: "nat \<Rightarrow> ('a \<Rightarrow> nat) \<Rightarrow> 'a list \<Rightarrow> 'a list list" where
  "queues n idx ds = map (\<lambda>i. filter (\<lambda>d. idx d = i) ds) [0..<n]"

lemma interleaving_fold:
  assumes "interleaving qs xs" "qs = queues n idx ds" "\<forall>d\<in>set ds. idx d < n"
    "\<forall>a\<in>set ds. \<forall>b\<in>set ds. idx a \<noteq> idx b \<longrightarrow> commutes f a b"
  shows "fold f xs s = fold f ds s"
  using assms
proof (induction arbitrary: ds s rule: interleaving.induct)
  case (none qs)
  have "ds = []"
  proof (rule ccontr)
    assume "ds \<noteq> []"
    then obtain d where d: "d \<in> set ds" by (cases ds) auto
    then have "idx d < n" using none.prems by auto
    then have "filter (\<lambda>e. idx e = idx d) ds \<in> set qs" using none.prems by (auto simp: queues_def)
    then have "filter (\<lambda>e. idx e = idx d) ds = []" using none.hyps by blast
    with d show False by (auto simp: filter_empty_conv)
  qed
  then show ?case by simp
next
  case (pick i qs x q xs)
  have i: "i < n" "filter (\<lambda>d. idx d = i) ds = x # q" using pick.hyps(1,2) pick.prems(1) by (auto simp: queues_def)
  obtain pre post where ds: "ds = pre @ x # post" "\<forall>y\<in>set pre. idx y \<noteq> i" "idx x = i" "q = filter (\<lambda>d. idx d = i) post"
    using filter_eq_ConsD [OF i(2)] by auto
  have "qs[i := q] = queues n idx (pre @ post)"
  proof (rule nth_equalityI)
    show "length (qs[i := q]) = length (queues n idx (pre @ post))" using pick.prems(1) by (simp add: queues_def)
    fix j assume "j < length (qs[i := q])"
    then show "qs[i := q] ! j = queues n idx (pre @ post) ! j"
      using pick.prems(1) ds by (cases "j = i") (auto simp: queues_def filter_empty_conv)
  qed
  then have "fold f xs (f x s) = fold f (pre @ post) (f x s)" using pick.IH pick.prems(2,3) ds(1) by auto
  moreover have "\<forall>y\<in>set pre. commutes f x y" using pick.prems(3) ds by auto
  ultimately show ?case using fold_commute_front [of pre f x post s] ds(1) by simp
qed

section \<open>Rounds of the workers\<close>

text \<open>The queues \<^verbatim>\<open>singleExec\<close> hands to the workers, one list of queues for each time it runs them.\<close>

fun single_rounds :: "bool \<Rightarrow> Causality \<Rightarrow> DML list list \<Rightarrow> DML list \<Rightarrow> DML list list list" where
  "single_rounds en c byHash [] = [byHash]"
| "single_rounds en c byHash (d # ds) =
     (let keys = getKeys d in
      if en \<and> DetectConflict c keys
      then byHash # (let c = snd (causality_Add keys Map.empty);
                         idx = worker_of (length byHash) (causality_Get c (hd keys));
                         qs = map (\<lambda>_. []) byHash
                     in single_rounds en c (qs[idx := qs ! idx @ [d]]) ds)
      else
        let c = (if en then snd (causality_Add keys c) else c);
            idx = worker_of (length byHash) (if en then causality_Get c (hd keys) else hd keys)
        in single_rounds en c (byHash[idx := byHash ! idx @ [d]]) ds)"

fun exec_rounds :: "('q \<Rightarrow> 's \<Rightarrow> (go_error option \<times> 's) option) \<Rightarrow> 'q list \<Rightarrow> 's \<Rightarrow> (go_error option \<times> 's) option" where
  "exec_rounds exec [] s = Some (None, s)"
| "exec_rounds exec (q # qs) s =
     Option.bind (exec q s) (\<lambda>(err, s). case err of Some e \<Rightarrow> Some (Some e, s) | None \<Rightarrow> exec_rounds exec qs s)"

lemma exec_rounds_one: "exec_rounds exec [q] s = exec q s"
  by (cases "exec q s") (auto split: option.split)

lemma single_loop_rounds:
  "byHash \<noteq> [] \<Longrightarrow> single_loop exec en c byHash ds s = exec_rounds exec (single_rounds en c byHash ds) s"
proof (induction ds arbitrary: c byHash s)
  case Nil
  show ?case by (simp add: exec_rounds_one del: exec_rounds.simps)
next
  case (Cons d ds)
  then show ?case
    by (cases "exec byHash s") (auto simp: Let_def causality_Reset_def split: option.split)
qed

section \<open>Causality\<close>

definition wf_causality :: "Causality \<Rightarrow> bool" where
  "wf_causality c \<longleftrightarrow> (\<forall>k v. c k = Some v \<longrightarrow> v \<noteq> [])"

text \<open>Without a conflict, the keys already related are all related to one token.\<close>

lemma detect_from_False:
  assumes "wf_causality c"
  shows "\<not> detect_from c ex keys \<Longrightarrow> ex \<noteq> [] \<Longrightarrow> \<forall>k\<in>set keys. c k = None \<or> c k = Some ex"
proof (induction keys arbitrary: ex)
  case (Cons k keys)
  then show ?case by (cases "c k") (auto split: if_splits)
qed simp

lemma detect_None:
  assumes "wf_causality c"
  shows "\<not> detect_from c [] keys \<Longrightarrow> \<exists>r. \<forall>k\<in>set keys. c k = None \<or> c k = Some r"
proof (induction keys)
  case (Cons k keys)
  show ?case
  proof (cases "c k")
    case None
    with Cons show ?thesis by auto
  next
    case (Some v)
    then have "v \<noteq> []" "\<not> detect_from c v keys" using assms Cons.prems by (auto simp: wf_causality_def)
    with detect_from_False [OF assms, of v keys] Some show ?thesis by auto
  qed
qed simp

lemma fold_relate: "fold (\<lambda>key c. c(key \<mapsto> r)) ks c = (\<lambda>k. if k \<in> set ks then Some r else c k)"
  by (induction ks arbitrary: c) (auto simp: fun_eq_iff)

lemma fold_selected:
  "\<forall>k\<in>set keys. c k = None \<or> c k = Some r \<Longrightarrow>
   fold (\<lambda>key sel. case c key of Some v \<Rightarrow> v | None \<Rightarrow> sel) keys sel = (if \<exists>k\<in>set keys. c k \<noteq> None then r else sel)"
  by (induction keys arbitrary: sel) (auto split: option.split)

lemma causality_Add_ok:
  assumes "wf_causality c" "keys \<noteq> []" "hd keys \<noteq> []" "\<not> DetectConflict c keys"
  shows "\<exists>r. r \<noteq> [] \<and> snd (causality_Add keys c) = (\<lambda>k. if k \<in> set keys then Some r else c k)"
    "c k = Some v \<Longrightarrow> snd (causality_Add keys c) k = Some v"
proof -
  obtain r where r: "\<forall>k\<in>set keys. c k = None \<or> c k = Some r"
    using detect_None [OF assms(1), of keys] assms(2,4) by (auto simp: DetectConflict_def)
  define sel where "sel = (if \<exists>k\<in>set keys. c k \<noteq> None then r else hd keys)"
  have "fold (\<lambda>key sel. case c key of Some v \<Rightarrow> v | None \<Rightarrow> sel) keys (hd keys) = sel"
    unfolding sel_def by (rule fold_selected [OF r])
  then have add: "snd (causality_Add keys c) = (\<lambda>k. if k \<in> set (filter (\<lambda>key. c key = None) keys) then Some sel else c k)"
    using assms(2,4) by (simp add: causality_Add_def Let_def fold_relate)
  show "c k = Some v \<Longrightarrow> snd (causality_Add keys c) k = Some v" using add by simp
  have "snd (causality_Add keys c) = (\<lambda>k. if k \<in> set (filter (\<lambda>key. c key = None) keys) then Some sel else c k)" by (rule add)
  also have "\<dots> = (\<lambda>k. if k \<in> set keys then Some sel else c k)"
    using r by (auto simp: fun_eq_iff sel_def)
  finally have "snd (causality_Add keys c) = (\<lambda>k. if k \<in> set keys then Some sel else c k)" .
  moreover have "sel \<noteq> []"
  proof (cases "\<exists>k\<in>set keys. c k \<noteq> None")
    case True
    then obtain k where "k \<in> set keys" "c k = Some r" using r by auto
    with True assms(1) show ?thesis by (auto simp: sel_def wf_causality_def)
  next
    case False
    with assms(3) show ?thesis by (simp add: sel_def)
  qed
  ultimately show "\<exists>r. r \<noteq> [] \<and> snd (causality_Add keys c) = (\<lambda>k. if k \<in> set keys then Some r else c k)" by blast
qed

lemma getKeys_not_Nil: "getKeys d \<noteq> []"
  by (auto simp: getKeys_def Let_def)

lemma getKeys_keys: "k \<in> set (getKeys d) \<Longrightarrow> k \<noteq> []"
proof -
  have "[] \<noteq> hash_key cols vals tn" for cols vals tn by (metis hash_key_def dec_str_not_Nil)
  moreover have "k \<noteq> []" if "k \<in> set (index_keys iis vals tn)" for iis vals tn using that by (auto simp: index_keys_def)
  ultimately show "k \<in> set (getKeys d) \<Longrightarrow> k \<noteq> []" by (auto simp: getKeys_def Let_def split: if_splits)
qed

text \<open>The round under way: \<open>ps\<close> are its statements, every one related to one token, which chooses its queue.\<close>

definition worker_idx :: "nat \<Rightarrow> Causality \<Rightarrow> DML \<Rightarrow> nat" where
  "worker_idx n c d = worker_of n (causality_Get c (hd (getKeys d)))"

definition round_inv :: "nat \<Rightarrow> Causality \<Rightarrow> DML list \<Rightarrow> DML list list \<Rightarrow> bool" where
  "round_inv n c ps byHash \<longleftrightarrow> wf_causality c \<and> byHash = queues n (worker_idx n c) ps \<and>
     (\<forall>d\<in>set ps. \<exists>r. \<forall>k\<in>set (getKeys d). c k = Some r)"

definition disjoint_keys :: "DML \<Rightarrow> DML \<Rightarrow> bool" where
  "disjoint_keys a b \<longleftrightarrow> set (getKeys a) \<inter> set (getKeys b) = {}"

definition good_round :: "nat \<Rightarrow> DML list list \<Rightarrow> DML list \<Rightarrow> bool" where
  "good_round n qs ps \<longleftrightarrow> (\<exists>idx. qs = queues n idx ps \<and> (\<forall>d\<in>set ps. idx d < n) \<and>
     (\<forall>a\<in>set ps. \<forall>b\<in>set ps. idx a \<noteq> idx b \<longrightarrow> disjoint_keys a b))"

lemma worker_idx_less: "0 < n \<Longrightarrow> worker_idx n c d < n"
  by (simp add: worker_idx_def worker_of_def)

lemma round_inv_good: "0 < n \<Longrightarrow> round_inv n c ps byHash \<Longrightarrow> good_round n byHash ps"
proof -
  assume n: "0 < n" and inv: "round_inv n c ps byHash"
  have "disjoint_keys a b" if ab: "a \<in> set ps" "b \<in> set ps" "worker_idx n c a \<noteq> worker_idx n c b" for a b
  proof (rule ccontr)
    assume "\<not> disjoint_keys a b"
    then obtain k where k: "k \<in> set (getKeys a)" "k \<in> set (getKeys b)" by (auto simp: disjoint_keys_def)
    obtain r r' where "\<forall>k\<in>set (getKeys a). c k = Some r" "\<forall>k\<in>set (getKeys b). c k = Some r'"
      using inv ab(1,2) unfolding round_inv_def by blast
    then have "c (hd (getKeys a)) = c (hd (getKeys b))" using k getKeys_not_Nil by (metis list.set_sel(1))
    with ab(3) show False by (simp add: worker_idx_def causality_Get_def)
  qed
  with n inv worker_idx_less show ?thesis
    unfolding good_round_def round_inv_def by (intro exI [of _ "worker_idx n c"]) auto
qed

lemma queues_snoc:
  assumes "idx d < n" "\<forall>p\<in>set ps. idx' p = idx p" "idx' d = idx d"
  shows "(queues n idx ps)[idx d := queues n idx ps ! idx d @ [d]] = queues n idx' (ps @ [d])"
proof (rule nth_equalityI)
  fix i assume i: "i < length ((queues n idx ps)[idx d := queues n idx ps ! idx d @ [d]])"
  have "filter (\<lambda>p. idx' p = i) ps = filter (\<lambda>p. idx p = i) ps" by (rule filter_cong) (use assms(2) in auto)
  then show "(queues n idx ps)[idx d := queues n idx ps ! idx d @ [d]] ! i = queues n idx' (ps @ [d]) ! i"
    using i assms by (cases "i = idx d") (auto simp: queues_def)
qed (simp add: queues_def)

lemma round_inv_add:
  assumes n: "0 < n" and inv: "round_inv n c ps byHash" and no: "\<not> DetectConflict c (getKeys d)"
  defines "c' \<equiv> snd (causality_Add (getKeys d) c)"
  defines "i \<equiv> worker_of n (causality_Get c' (hd (getKeys d)))"
  shows "round_inv n c' (ps @ [d]) (byHash[i := byHash ! i @ [d]])"
proof -
  have wf: "wf_causality c" and bh: "byHash = queues n (worker_idx n c) ps"
    and rel: "\<forall>d\<in>set ps. \<exists>r. \<forall>k\<in>set (getKeys d). c k = Some r" using inv by (auto simp: round_inv_def)
  have hd: "hd (getKeys e) \<in> set (getKeys e)" for e using getKeys_not_Nil [of e] by simp
  obtain r where r: "r \<noteq> []" "c' = (\<lambda>k. if k \<in> set (getKeys d) then Some r else c k)"
    using causality_Add_ok [OF wf getKeys_not_Nil getKeys_keys [OF hd] no] unfolding c'_def by blast
  have keep: "c' k = Some v" if "c k = Some v" for k v
    using causality_Add_ok(2) [OF wf getKeys_not_Nil getKeys_keys [OF hd] no that] unfolding c'_def .
  have wf': "wf_causality c'" using wf r by (simp add: wf_causality_def)
  have old: "\<exists>r. \<forall>k\<in>set (getKeys p). c' k = Some r" "worker_idx n c' p = worker_idx n c p" if p: "p \<in> set ps" for p
  proof -
    obtain r where r: "\<forall>k\<in>set (getKeys p). c k = Some r" using rel p by blast
    then have "\<forall>k\<in>set (getKeys p). c' k = Some r" using keep by blast
    then show "\<exists>r. \<forall>k\<in>set (getKeys p). c' k = Some r" by blast
    have "c (hd (getKeys p)) = Some r" using r hd by blast
    with keep [OF this] show "worker_idx n c' p = worker_idx n c p" by (simp add: worker_idx_def causality_Get_def)
  qed
  have new: "\<exists>r. \<forall>k\<in>set (getKeys d). c' k = Some r" using r(2) by auto
  let ?idx = "\<lambda>p. if p = d then i else worker_idx n c p"
  have i: "i = worker_idx n c' d" "i < n" using n by (simp_all add: i_def worker_idx_def worker_of_def)
  have same: "worker_idx n c p = ?idx p" if "p \<in> set ps" for p using old(2) [OF that] i(1) by auto
  have "byHash = queues n ?idx ps"
    unfolding bh queues_def by (intro map_cong filter_cong refl) (use same in auto)
  moreover have "(queues n ?idx ps)[?idx d := queues n ?idx ps ! ?idx d @ [d]] = queues n (worker_idx n c') (ps @ [d])"
    by (rule queues_snoc) (use i old(2) in auto)
  ultimately have "byHash[i := byHash ! i @ [d]] = queues n (worker_idx n c') (ps @ [d])" by simp
  with wf' old(1) new show ?thesis unfolding round_inv_def by auto
qed

lemma round_inv_empty: "round_inv n Map.empty [] (replicate n [])"
  by (simp add: round_inv_def wf_causality_def queues_def map_replicate_const)

lemma map_empty_queues: "map (\<lambda>_. []) (queues n idx ps) = replicate n []"
  by (simp add: queues_def map_replicate_const)

lemma single_rounds_good:
  assumes "0 < n"
  shows "round_inv n c ps byHash \<Longrightarrow>
    \<exists>pss. concat pss = ps @ ds \<and> list_all2 (good_round n) (single_rounds True c byHash ds) pss"
proof (induction ds arbitrary: c ps byHash)
  case Nil
  with round_inv_good [OF assms Nil] show ?case by (intro exI [of _ "[ps]"]) simp
next
  case (Cons d ds)
  have len: "length byHash = n" using Cons.prems by (simp add: round_inv_def queues_def)
  show ?case
  proof (cases "DetectConflict c (getKeys d)")
    case False
    from Cons.IH [OF round_inv_add [OF assms Cons.prems False]] False len show ?thesis by (simp add: Let_def)
  next
    case True
    have no: "\<not> DetectConflict Map.empty (getKeys d)"
    proof -
      have "\<not> detect_from Map.empty ex ks" for ex ks by (induction ks) auto
      then show ?thesis by (simp add: DetectConflict_def)
    qed
    have qs: "map (\<lambda>_. []) byHash = replicate n []" using Cons.prems map_empty_queues by (auto simp: round_inv_def)
    from Cons.IH [OF round_inv_add [OF assms round_inv_empty no]] obtain pss where
      "concat pss = [d] @ ds" "list_all2 (good_round n) (tl (single_rounds True c byHash (d # ds))) pss"
      by (auto simp: Let_def True qs len NewCausality_def causality_Reset_def)
    with round_inv_good [OF assms Cons.prems] True show ?thesis by (intro exI [of _ "ps # pss"]) (simp add: Let_def)
  qed
qed

lemma good_rounds_fold:
  assumes "list_all2 (good_round n) rounds pss" "list_all2 interleaving rounds xss"
    "\<forall>a\<in>set (concat pss). \<forall>b\<in>set (concat pss). disjoint_keys a b \<longrightarrow> commutes f a b"
  shows "fold f (concat xss) s = fold f (concat pss) s"
  using assms
proof (induction rounds pss arbitrary: xss s rule: list_all2_induct)
  case Nil
  then show ?case by simp
next
  case (Cons q qs ps pss)
  then obtain x xs where xss: "xss = x # xs" "interleaving q x" "list_all2 interleaving qs xs"
    by (auto simp: list_all2_Cons1)
  obtain idx where "q = queues n idx ps" "\<forall>d\<in>set ps. idx d < n" "\<forall>a\<in>set ps. \<forall>b\<in>set ps. idx a \<noteq> idx b \<longrightarrow> disjoint_keys a b"
    using Cons.hyps(1) by (auto simp: good_round_def)
  then have "fold f x t = fold f ps t" for t
    using interleaving_fold [OF xss(2), of n idx ps f] Cons.prems(2) by auto
  moreover have "fold f (concat xs) t = fold f (concat pss) t" for t using Cons.IH [OF xss(3)] Cons.prems(2) by auto
  ultimately show ?case using xss(1) by simp
qed

text \<open>C13. \<^verbatim>\<open>singleExec\<close> hands its statements to the workers in rounds of queues such that, when statements without a common key commute,
  every schedule of the workers in every round has the effect of running the statements one after the other.\<close>

theorem single_exec_serial:
  assumes "0 < l_workerCount s" "l_enableCausality s"
    "\<forall>a\<in>set dmls. \<forall>b\<in>set dmls. disjoint_keys a b \<longrightarrow> commutes f a b"
  shows "let rounds = single_rounds True NewCausality (replicate (nat (l_workerCount s)) []) dmls in
    loader_singleExec column_missing e dmls s = exec_rounds (execByHash column_missing e) rounds s \<and>
    (\<forall>xss. list_all2 interleaving rounds xss \<longrightarrow> fold f (concat xss) db = fold f dmls db)"
proof -
  let ?n = "nat (l_workerCount s)"
  have n: "0 < ?n" using assms(1) by simp
  obtain pss where pss: "concat pss = [] @ dmls" "list_all2 (good_round ?n) (single_rounds True Map.empty (replicate ?n []) dmls) pss"
    using single_rounds_good [OF n round_inv_empty, of dmls] by blast
  have "loader_singleExec column_missing e dmls s =
      exec_rounds (execByHash column_missing e) (single_rounds True NewCausality (replicate ?n []) dmls) s"
    unfolding loader_singleExec_def using single_loop_rounds [of "replicate ?n []"] n assms(2) by simp
  moreover have "fold f (concat xss) db = fold f dmls db"
    if "list_all2 interleaving (single_rounds True NewCausality (replicate ?n []) dmls) xss" for xss
    using good_rounds_fold [OF pss(2), of xss f db] that pss(1) assms(3) by (simp add: NewCausality_def)
  ultimately show ?thesis by (simp add: Let_def)
qed

text \<open>A database in which a statement is appended to the history of each of its keys.\<close>

definition key_log :: "DML \<Rightarrow> (string \<Rightarrow> DML list) \<Rightarrow> string \<Rightarrow> DML list" where
  "key_log d db = (\<lambda>k. if k \<in> set (getKeys d) then db k @ [d] else db k)"

lemma key_log_commutes: "disjoint_keys a b \<Longrightarrow> commutes key_log a b"
  by (auto simp: commutes_def key_log_def disjoint_keys_def fun_eq_iff)

definition example_db :: database where
  "example_db = \<lparr>db_io = [], committed = [], mark_index = 0, db_tables = (\<lambda>_ _. Inr example_info), ctx_cancels = []\<rparr>"

theorem single_exec_serial_witness:
  "let s = NewLoader example_db defaultLoaderOptions;
       rounds = single_rounds True NewCausality (replicate 16 []) example_batch
   in loader_singleExec (\<lambda>_. False) (getExecutor s) example_batch s = exec_rounds (execByHash (\<lambda>_. False) (getExecutor s)) rounds s \<and>
      fold key_log (concat (map concat rounds)) (\<lambda>_. []) = fold key_log example_batch (\<lambda>_. [])"
proof -
  let ?s = "NewLoader example_db defaultLoaderOptions"
  let ?rounds = "single_rounds True NewCausality (replicate 16 []) example_batch"
  have s: "l_workerCount ?s = 16" "l_enableCausality ?s" by (simp_all add: NewLoader_def defaultLoaderOptions_def)
  have "\<forall>a\<in>set example_batch. \<forall>b\<in>set example_batch. disjoint_keys a b \<longrightarrow> commutes key_log a b"
    by (simp add: key_log_commutes)
  then have ok: "loader_singleExec (\<lambda>_. False) (getExecutor ?s) example_batch ?s = exec_rounds (execByHash (\<lambda>_. False) (getExecutor ?s)) ?rounds ?s"
    "\<And>xss. list_all2 interleaving ?rounds xss \<Longrightarrow> fold key_log (concat xss) (\<lambda>_. []) = fold key_log example_batch (\<lambda>_. [])"
    using single_exec_serial [of ?s example_batch key_log "\<lambda>_. False" "getExecutor ?s" "\<lambda>_. []"] s by (simp_all add: Let_def)
  have "list_all2 interleaving ?rounds (map concat ?rounds)" by (simp add: list_all2_conv_all_nth interleaving_concat)
  with ok show ?thesis by (simp add: Let_def)
qed

end
