(* ===== verification/LoaderFlow.thy ===== *)
theory LoaderFlow
  imports LoaderProps "HOL-Library.Sublist"
begin

text \<open>
  What the loader promises to the caller that feeds it transactions: the batch manager acknowledges them in the order they arrived and only
  after running their statements, and the transaction manager hands them over in order within its bound. What the batch manager relies on is the
  interface \<open>acking\<close>, which the loader's operations implement, alone and with a log of what they ran.
\<close>

section \<open>Acknowledgements\<close>

fun arrivals :: "'meta load_event list \<Rightarrow> 'meta Txn list" where
  "arrivals [] = []"
| "arrivals (Arrives txn # evs) = txn # arrivals evs"
| "arrivals (InputEmpty # evs) = arrivals evs"
| "arrivals (InputClosed # evs) = []"

definition proper_txn :: "'meta Txn \<Rightarrow> bool" where
  "proper_txn txn \<longleftrightarrow> txn_DDL txn \<noteq> None \<or> DMLs txn \<noteq> []"

definition batch_ok :: "'meta batchManager \<Rightarrow> bool" where
  "batch_ok b \<longleftrightarrow> b_dmls b = concat (map DMLs (b_txns b)) \<and> (\<forall>txn\<in>set (b_txns b). txn_DDL txn = None \<and> DMLs txn \<noteq> [])"

lemma batch_ok_dmls: "batch_ok b \<Longrightarrow> b_dmls b = [] \<longleftrightarrow> b_txns b = []"
  by (cases "b_txns b") (auto simp: batch_ok_def)

lemma batch_ok_new: "batch_ok (newBatchManager l)" "b_txns (newBatchManager l) = []"
  by (simp_all add: batch_ok_def newBatchManager_def)

lemma batch_ok_add:
  "batch_ok b \<Longrightarrow> txn_DDL txn = None \<Longrightarrow> proper_txn txn \<Longrightarrow> batch_ok (b\<lparr>b_dmls := b_dmls b @ DMLs txn, b_txns := b_txns b @ [txn]\<rparr>)"
  by (auto simp: batch_ok_def proper_txn_def)

locale acking =
  fixes ops :: "('meta, 's) batch_ops" and tag :: "'meta Txn \<Rightarrow> 'a" and acked :: "'s \<Rightarrow> 'a list"
  assumes dmls_keep: "fExecDMLs ops dmls s = Some (err, s') \<Longrightarrow> acked s' = acked s"
    and dmls_ack: "acked (fDMLsSuccessCallback ops txns s) = acked s @ map tag txns"
    and ddl_keep: "acked (snd (fExecDDL ops ddl s)) = acked s"
    and ddl_ack: "acked (fDDLSuccessCallback ops txn s) = acked s @ [tag txn]"
begin

lemma accumulated:
  assumes "execAccumulatedDMLs ops b s = Some (err, b', s')" "batch_ok b"
  shows "batch_ok b' \<and> acked s' @ map tag (b_txns b') = acked s @ map tag (b_txns b) \<and> (err = None \<longrightarrow> b_txns b' = [])"
proof (cases "b_dmls b = []")
  case True
  then show ?thesis using assms batch_ok_dmls [OF assms(2)] by (simp add: execAccumulatedDMLs_def)
next
  case False
  with assms(1) obtain e t where e: "fExecDMLs ops (b_dmls b) s = Some (e, t)"
    by (cases "fExecDMLs ops (b_dmls b) s") (auto simp: execAccumulatedDMLs_def)
  then show ?thesis using False assms dmls_keep [OF e] dmls_ack
    by (cases e) (auto simp: execAccumulatedDMLs_def Let_def batch_ok_def)
qed

lemma ddl:
  assumes "batch_execDDL ops d txn s = (err, s')"
  shows "if err = None then acked s' = acked s @ [tag txn] else acked s' = acked s"
proof -
  obtain e t where e: "fExecDDL ops d s = (e, t)" by (cases "fExecDDL ops d s")
  then show ?thesis using assms ddl_keep [of d s] ddl_ack
    by (cases e) (auto simp: batch_execDDL_def split: if_splits)
qed

lemma put:
  assumes "batch_put ops txn b s = Some (err, b', s')" "batch_ok b" "proper_txn txn"
  shows "batch_ok b' \<and> prefix (acked s' @ map tag (b_txns b')) (acked s @ map tag (b_txns b @ [txn])) \<and>
    (err = None \<longrightarrow> acked s' @ map tag (b_txns b') = acked s @ map tag (b_txns b @ [txn]))"
proof (cases "txn_DDL txn")
  case None
  let ?b = "b\<lparr>b_dmls := b_dmls b @ DMLs txn, b_txns := b_txns b @ [txn]\<rparr>"
  have ok: "batch_ok ?b" by (rule batch_ok_add [OF assms(2) None assms(3)])
  show ?thesis
  proof (cases "execAccumulatedDMLs ops ?b s = Some (err, b', s')")
    case True
    from accumulated [OF this ok] show ?thesis by auto
  next
    case False
    with assms(1) None have "b' = ?b" "s' = s" "err = None" by (auto simp: batch_put_def Let_def split: if_splits)
    with ok show ?thesis by simp
  qed
next
  case (Some d)
  show ?thesis
  proof (cases "ddl_Database d = []")
    case True
    with assms Some show ?thesis by (auto simp: batch_put_def)
  next
    case False
    with assms(1) Some obtain e1 b1 s1 where acc: "execAccumulatedDMLs ops b s = Some (e1, b1, s1)"
      by (cases "execAccumulatedDMLs ops b s") (auto simp: batch_put_def)
    note a = accumulated [OF this assms(2)]
    obtain e2 s2 where d: "batch_execDDL ops d txn s1 = (e2, s2)" by (cases "batch_execDDL ops d txn s1")
    show ?thesis
    proof (cases e1)
      case None
      with a ddl [OF d] assms(1) Some False acc d show ?thesis by (auto simp: batch_put_def split: if_splits)
    next
      case (Some e)
      with a assms(1) \<open>txn_DDL txn = Some d\<close> False acc have "err = Some e" "b' = b1" "s' = s1" by (auto simp: batch_put_def)
      with a show ?thesis by simp
    qed
  qed
qed

lemma run:
  assumes "load_run ops evs b s = Some (err, b', s')" "batch_ok b" "\<forall>txn\<in>set (arrivals evs). proper_txn txn"
  shows "prefix (acked s') (acked s @ map tag (b_txns b @ arrivals evs))"
    "err = None \<Longrightarrow> InputClosed \<in> set evs \<Longrightarrow> acked s' = acked s @ map tag (b_txns b @ arrivals evs)"
proof -
  have "prefix (acked s') (acked s @ map tag (b_txns b @ arrivals evs)) \<and>
    (err = None \<longrightarrow> InputClosed \<in> set evs \<longrightarrow> acked s' = acked s @ map tag (b_txns b @ arrivals evs))"
    using assms
  proof (induction evs arbitrary: b s)
    case (Cons ev evs)
    obtain e1 b1 s1 where st: "load_step ops ev b s = Some (e1, b1, s1)"
      using Cons.prems(1) by (cases "load_step ops ev b s") auto
    have pre: "prefix (acked s1) y" if "prefix (acked s1 @ map tag (b_txns b1)) y" for y
      using that by (auto simp: prefix_def)
    show ?case
    proof (cases ev)
      case (Arrives txn)
      have "batch_put ops txn b s = Some (e1, b1, s1)" using st Arrives by (simp add: load_step_def)
      note p = put [OF this Cons.prems(2)]
      show ?thesis
      proof (cases e1)
        case None
        have eq: "acked s1 @ map tag (b_txns b1 @ arrivals evs) = acked s @ map tag (b_txns b @ arrivals (ev # evs))"
          using p Cons.prems(3) None Arrives by simp
        from Cons.IH [of b1 s1] p Cons.prems st None Arrives show ?thesis unfolding eq by simp
      next
        case (Some e)
        with Cons.prems st p Arrives pre have "prefix (acked s1) (acked s @ map tag (b_txns b @ [txn]))" by simp
        then have "prefix (acked s1) ((acked s @ map tag (b_txns b @ [txn])) @ map tag (arrivals evs))" by (rule prefix_prefix)
        then have "prefix (acked s1) (acked s @ map tag (b_txns b @ arrivals (ev # evs)))" using Arrives by simp
        with Some Cons.prems(1) st show ?thesis by auto
      qed
    next
      case InputEmpty
      have a: "batch_ok b1 \<and> acked s1 @ map tag (b_txns b1) = acked s @ map tag (b_txns b)"
        using st InputEmpty accumulated [of b s e1 b1 s1] Cons.prems(2) by (auto simp: load_step_def split: if_splits)
      show ?thesis
      proof (cases e1)
        case None
        have eq: "acked s1 @ map tag (b_txns b1 @ arrivals evs) = acked s @ map tag (b_txns b @ arrivals (ev # evs))"
          using a InputEmpty by simp
        from Cons.IH [of b1 s1] a Cons.prems st None InputEmpty show ?thesis unfolding eq by simp
      next
        case (Some e)
        have "prefix (acked s1) ((acked s @ map tag (b_txns b)) @ map tag (arrivals evs))"
          by (rule prefix_prefix) (use a pre in auto)
        with Cons.prems(1) st Some InputEmpty show ?thesis by auto
      qed
    next
      case InputClosed
      then have "execAccumulatedDMLs ops b s = Some (e1, b1, s1)" using st by (simp add: load_step_def)
      note a = accumulated [OF this Cons.prems(2)]
      then have "prefix (acked s1) (acked s @ map tag (b_txns b))" using pre by simp
      with a Cons.prems st InputClosed show ?thesis by (cases e1) auto
    qed
  qed (simp add: prefix_def)
  then show "prefix (acked s') (acked s @ map tag (b_txns b @ arrivals evs))"
    "err = None \<Longrightarrow> InputClosed \<in> set evs \<Longrightarrow> acked s' = acked s @ map tag (b_txns b @ arrivals evs)" by simp_all
qed

end

text \<open>The loader's own operations, up to the position that \<^verbatim>\<open>markSuccess\<close> writes into a transaction.\<close>

definition untimed :: "'meta Txn \<Rightarrow> 'meta Txn" where
  "untimed txn = txn\<lparr>AppliedTS := 0\<rparr>"

lemma untimed_AppliedTS [simp]: "untimed (txn\<lparr>AppliedTS := ts\<rparr>) = untimed txn"
  by (simp add: untimed_def)

lemma markSuccess_successTxn: "map untimed (successTxn (markSuccess txns s)) = map untimed (successTxn s) @ map untimed txns"
proof (cases "txns = []")
  case False
  then have "map untimed txns = map untimed (butlast txns) @ [untimed (last txns)]"
    by (metis append_butlast_last_id list.simps(8,9) map_append)
  then show ?thesis by (auto simp: markSuccess_def split: list.split option.split)
qed (simp add: markSuccess_def)

interpretation lo: acking "loader_ops parse column_missing ignore" untimed "\<lambda>s. map untimed (successTxn s)"
  for parse column_missing ignore
proof
  fix dmls s err s'
  assume "fExecDMLs (loader_ops parse column_missing ignore) dmls s = Some (err, s')"
  then show "map untimed (successTxn s') = map untimed (successTxn s)" by (auto simp: loader_ops_def)
qed (auto simp: loader_ops_def markSuccess_successTxn ddl_success_def Let_def split: prod.split option.split)

lemma loader_Run_load_run:
  assumes "loader_Run parse column_missing ignore evs s = Some (err, s')"
  shows "(successTxn s' = successTxn s \<and> err \<noteq> None) \<or>
    (\<exists>t t' b. load_run (loader_ops parse column_missing ignore) evs (newBatchManager (ls_loader t)) t = Some (err, b, t') \<and>
       successTxn t = successTxn s \<and> successTxn s' = successTxn t')"
proof -
  let ?ops = "loader_ops parse column_missing ignore"
  let ?run = "\<lambda>t. map_option (\<lambda>(err, b, t). (err, t)) (load_run ?ops evs (newBatchManager (ls_loader t)) t)"
  have direct: ?thesis if "?run t = Some (err, t')" "successTxn t = successTxn s" "successTxn s' = successTxn t'" for t t'
    using that by (intro disjI2 exI [of _ t] exI [of _ t']) auto
  consider "loader_Run parse column_missing ignore evs s = ?run s"
    | info where "l_loopBackSyncInfo (ls_loader s) = Some info" "LoopbackControl info"
    by (cases "l_loopBackSyncInfo (ls_loader s)"; cases "LoopbackControl (the (l_loopBackSyncInfo (ls_loader s)))") (auto simp: loader_Run_def)
  then show ?thesis
  proof cases
    case 1
    with assms direct [of s s'] show ?thesis by simp
  next
    case 2
    obtain e l where init: "initMarkTable info (ls_loader s) = (e, l)" by (cases "initMarkTable info (ls_loader s)")
    show ?thesis
    proof (cases e)
      case None
      with assms 2 init obtain t' where "?run (s\<lparr>ls_loader := l\<rparr>) = Some (err, t')" "successTxn s' = successTxn t'"
        by (auto simp: loader_Run_def Let_def)
      from direct [OF this(1) _ this(2)] show ?thesis by simp
    next
      case (Some e)
      with assms 2 init show ?thesis by (auto simp: loader_Run_def Let_def)
    qed
  qed
qed


definition example_txns :: "nat Txn list" where
  "example_txns =
     [\<lparr>DMLs = [example_dml InsertDMLType [] (example_row 1 10)], txn_DDL = None, AppliedTS = 0, Metadata = 1\<rparr>,
      \<lparr>DMLs = [], txn_DDL = Some \<lparr>ddl_Database = ''test'', ddl_Table = ''t'', SQL = ''truncate table t'', ShouldSkip = False\<rparr>,
       AppliedTS = 0, Metadata = 2\<rparr>]"

definition example_state :: "nat loader_state" where
  "example_state =
     \<lparr>ls_loader = NewLoader example_db (defaultLoaderOptions\<lparr>o_merge := True\<rparr>), successTxn = [], applied_obs = []\<rparr>"

definition example_events :: "nat load_event list" where
  "example_events = map Arrives example_txns @ [InputEmpty, InputClosed]"

abbreviation example_parse :: sql_parser where
  "example_parse \<equiv> \<lambda>_. Some TruncateTableStmt"

abbreviation no_error :: "go_error \<Rightarrow> bool" where
  "no_error \<equiv> \<lambda>_. False"

lemma example_events_ok:
  "arrivals example_events = example_txns" "\<forall>txn\<in>set (arrivals example_events). proper_txn txn" "InputClosed \<in> set example_events"
  by (simp_all add: example_events_def example_txns_def proper_txn_def)


section \<open>Execution before acknowledgement\<close>

datatype executed = RunDML DML | RunDDL DDL

datatype 'meta log_entry = Ran "executed list" | Acked "'meta Txn list"

definition statements :: "'meta Txn \<Rightarrow> executed list" where
  "statements txn = (case txn_DDL txn of Some ddl \<Rightarrow> [RunDDL ddl] | None \<Rightarrow> map RunDML (DMLs txn))"

fun ran_in :: "'meta log_entry list \<Rightarrow> executed list" where
  "ran_in [] = []"
| "ran_in (Ran ss # log) = ss @ ran_in log"
| "ran_in (Acked txns # log) = ran_in log"

fun acked_in :: "'meta log_entry list \<Rightarrow> 'meta Txn list" where
  "acked_in [] = []"
| "acked_in (Ran ss # log) = acked_in log"
| "acked_in (Acked txns # log) = txns @ acked_in log"

lemma ran_in_append [simp]: "ran_in (l1 @ l2) = ran_in l1 @ ran_in l2"
  by (induction l1 rule: ran_in.induct) auto

lemma acked_in_append [simp]: "acked_in (l1 @ l2) = acked_in l1 @ acked_in l2"
  by (induction l1 rule: acked_in.induct) auto

text \<open>The operations with a log of the statements they were given and of the transactions acknowledged.\<close>

definition logged :: "('meta, 's) batch_ops \<Rightarrow> ('meta, 's \<times> 'meta log_entry list) batch_ops" where
  "logged ops =
     \<lparr>fExecDMLs = (\<lambda>dmls (s, log). map_option (\<lambda>(err, s). (err, s, log @ [Ran (map RunDML dmls)])) (fExecDMLs ops dmls s)),
      fDMLsSuccessCallback = (\<lambda>txns (s, log). (fDMLsSuccessCallback ops txns s, log @ [Acked txns])),
      fExecDDL = (\<lambda>ddl (s, log). case fExecDDL ops ddl s of (err, s) \<Rightarrow> (err, s, log @ [Ran [RunDDL ddl]])),
      fDDLSuccessCallback = (\<lambda>txn (s, log). (fDDLSuccessCallback ops txn s, log @ [Acked [txn]])),
      ignoreDDLError = ignoreDDLError ops\<rparr>"

definition forget :: "(go_error option \<times> 'b \<times> 's \<times> 'l) option \<Rightarrow> (go_error option \<times> 'b \<times> 's) option" where
  "forget r = map_option (\<lambda>(err, b, s, log). (err, b, s)) r"

lemma forget_accumulated: "forget (execAccumulatedDMLs (logged ops) b (s, log)) = execAccumulatedDMLs ops b s"
  by (cases "fExecDMLs ops (b_dmls b) s") (auto simp: forget_def execAccumulatedDMLs_def logged_def Let_def split: option.split)

lemma forget_ddl:
  "batch_execDDL (logged ops) d txn (s, log) = (err, s', log') \<Longrightarrow> batch_execDDL ops d txn s = (err, s')"
  by (auto simp: batch_execDDL_def logged_def split: prod.splits option.splits if_splits)

lemma forget_put: "forget (batch_put (logged ops) txn b (s, log)) = batch_put ops txn b s"
proof (cases "txn_DDL txn")
  case None
  then show ?thesis using forget_accumulated [of ops _ s log] by (simp add: batch_put_def Let_def) (simp add: forget_def)
next
  case (Some d)
  have "execAccumulatedDMLs ops b s = forget (execAccumulatedDMLs (logged ops) b (s, log))" by (simp add: forget_accumulated)
  then show ?thesis using Some
    by (cases "execAccumulatedDMLs (logged ops) b (s, log)") (auto simp: batch_put_def forget_def dest: forget_ddl split: option.split prod.split)
qed

lemma forget_run: "forget (load_run (logged ops) evs b (s, log)) = load_run ops evs b s"
proof (induction evs arbitrary: b s log)
  case (Cons ev evs)
  have "forget (load_step (logged ops) ev b (s, log)) = load_step ops ev b s"
    by (cases ev) (simp_all add: load_step_def forget_put forget_accumulated, simp add: forget_def)
  then have st: "load_step ops ev b s = forget (load_step (logged ops) ev b (s, log))" by simp
  show ?case
  proof (cases "load_step (logged ops) ev b (s, log)")
    case (Some r)
    obtain e b' s' log' where r: "r = (e, b', s', log')" by (cases r)
    with st Some Cons.IH show ?thesis by (cases e; cases ev) (simp_all, simp_all add: forget_def)
  qed (simp add: st, simp add: forget_def)
qed (simp add: forget_def)

definition ordered_log :: "'meta log_entry list \<Rightarrow> bool" where
  "ordered_log log \<longleftrightarrow> (\<forall>pre. prefix pre log \<longrightarrow> prefix (concat (map statements (acked_in pre))) (ran_in pre))"

lemma ordered_log_snoc:
  "ordered_log (log @ [e]) \<longleftrightarrow> ordered_log log \<and> prefix (concat (map statements (acked_in (log @ [e])))) (ran_in (log @ [e]))"
  by (auto simp: ordered_log_def prefix_snoc)

definition settled_log :: "'meta log_entry list \<Rightarrow> bool" where
  "settled_log log \<longleftrightarrow> ordered_log log \<and> ran_in log = concat (map statements (acked_in log))"

lemma settled_log_ordered: "settled_log log \<Longrightarrow> ordered_log log"
  by (simp add: settled_log_def)

lemma settled_log_run:
  assumes "settled_log log"
  shows "ordered_log (log @ [Ran ss])" "ss = concat (map statements txns) \<Longrightarrow> settled_log (log @ [Ran ss, Acked txns])"
proof -
  show "ordered_log (log @ [Ran ss])" using assms by (simp add: settled_log_def ordered_log_snoc)
  then show "settled_log (log @ [Ran ss, Acked txns])" if "ss = concat (map statements txns)"
    using that assms ordered_log_snoc [of "log @ [Ran ss]" "Acked txns"] by (simp add: settled_log_def)
qed

lemma batch_ok_statements: "batch_ok b \<Longrightarrow> concat (map statements (b_txns b)) = map RunDML (b_dmls b)"
  by (auto simp: batch_ok_def statements_def map_concat o_def intro!: arg_cong [of _ _ concat])

interpretation lg: acking "logged ops" "\<lambda>txn. txn" "\<lambda>(s, log). acked_in log" for ops
  by unfold_locales (auto simp: logged_def split: prod.splits)

lemma log_accumulated:
  assumes "execAccumulatedDMLs (logged ops) b (s, log) = Some (err, b', s', log')" "batch_ok b" "settled_log log"
  shows "ordered_log log' \<and> (err = None \<longrightarrow> settled_log log')"
proof (cases "b_dmls b = []")
  case False
  with assms(1) obtain e t where "fExecDMLs ops (b_dmls b) s = Some (e, t)"
    by (cases "fExecDMLs ops (b_dmls b) s") (auto simp: execAccumulatedDMLs_def logged_def)
  then show ?thesis
    using False assms settled_log_run(1) [OF assms(3), of "map RunDML (b_dmls b)"]
      settled_log_run(2) [OF assms(3), of "map RunDML (b_dmls b)" "b_txns b"] batch_ok_statements [OF assms(2)]
    by (cases e) (auto simp: execAccumulatedDMLs_def logged_def Let_def dest: settled_log_ordered)
qed (use assms in \<open>auto simp: execAccumulatedDMLs_def dest: settled_log_ordered\<close>)

lemma log_ddl:
  assumes "batch_execDDL (logged ops) d txn (s, log) = (err, s', log')" "txn_DDL txn = Some d" "settled_log log"
  shows "ordered_log log' \<and> (err = None \<longrightarrow> settled_log log')"
  using assms settled_log_run(1) [OF assms(3), of "[RunDDL d]"] settled_log_run(2) [OF assms(3), of "[RunDDL d]" "[txn]"]
  by (auto simp: batch_execDDL_def logged_def statements_def split: prod.splits option.splits if_splits dest: settled_log_ordered)

lemma log_put:
  assumes "batch_put (logged ops) txn b (s, log) = Some (err, b', s', log')" "batch_ok b" "proper_txn txn" "settled_log log"
  shows "ordered_log log' \<and> (err = None \<longrightarrow> settled_log log')"
proof (cases "txn_DDL txn")
  case None
  with assms(1) log_accumulated [OF _ batch_ok_add [OF assms(2) None assms(3)] assms(4), of ops s err b' s' log'] show ?thesis
    using assms(4) by (auto simp: batch_put_def Let_def dest: settled_log_ordered split: if_splits)
next
  case (Some d)
  show ?thesis
  proof (cases "ddl_Database d = []")
    case False
    with assms(1) Some obtain e1 b1 s1 l1 where acc: "execAccumulatedDMLs (logged ops) b (s, log) = Some (e1, b1, s1, l1)"
      by (cases "execAccumulatedDMLs (logged ops) b (s, log)") (auto simp: batch_put_def)
    note a = log_accumulated [OF this assms(2,4)]
    obtain e2 s2 l2 where d: "batch_execDDL (logged ops) d txn (s1, l1) = (e2, s2, l2)"
      by (cases "batch_execDDL (logged ops) d txn (s1, l1)") auto
    from a log_ddl [OF this Some] assms(1) Some False acc d show ?thesis by (cases e1) (auto simp: batch_put_def)
  qed (use assms Some in \<open>auto simp: batch_put_def dest: settled_log_ordered\<close>)
qed

lemma log_step:
  assumes "load_step (logged ops) ev b (s, log) = Some (err, b', s', log')" "batch_ok b" "settled_log log"
    "\<forall>txn\<in>set (arrivals [ev]). proper_txn txn"
  shows "ordered_log log' \<and> (err = None \<longrightarrow> settled_log log' \<and> batch_ok b')"
proof (cases ev)
  case (Arrives txn)
  with assms have put: "batch_put (logged ops) txn b (s, log) = Some (err, b', s', log')" "proper_txn txn"
    by (simp_all add: load_step_def)
  from log_put [OF put(1) assms(2) put(2) assms(3)] lg.put [OF put(1) assms(2) put(2)] show ?thesis by simp
next
  case InputEmpty
  with assms(1) consider "execAccumulatedDMLs (logged ops) b (s, log) = Some (err, b', s', log')" | "b' = b" "log' = log"
    by (auto simp: load_step_def split: if_splits)
  then show ?thesis
  proof cases
    case 1
    from log_accumulated [OF this assms(2,3)] lg.accumulated [OF this assms(2)] show ?thesis by simp
  qed (use assms settled_log_ordered in auto)
next
  case InputClosed
  with assms(1) have acc: "execAccumulatedDMLs (logged ops) b (s, log) = Some (err, b', s', log')" by (simp add: load_step_def)
  from log_accumulated [OF acc assms(2,3)] lg.accumulated [OF acc assms(2)] show ?thesis by simp
qed

lemma log_run:
  assumes "load_run (logged ops) evs b (s, log) = Some (err, b', s', log')" "batch_ok b" "settled_log log"
    "\<forall>txn\<in>set (arrivals evs). proper_txn txn"
  shows "ordered_log log' \<and> (err = None \<longrightarrow> settled_log log')"
  using assms
proof (induction evs arbitrary: b s log)
  case (Cons ev evs)
  obtain e1 b1 s1 l1 where st: "load_step (logged ops) ev b (s, log) = Some (e1, b1, s1, l1)"
    using Cons.prems(1) by (cases "load_step (logged ops) ev b (s, log)") auto
  have "\<forall>txn\<in>set (arrivals [ev]). proper_txn txn" using Cons.prems(4) by (cases ev) auto
  note step = log_step [OF st Cons.prems(2,3) this]
  show ?case
  proof (cases "e1 = None \<and> ev \<noteq> InputClosed")
    case True
    then have "load_run (logged ops) evs b1 (s1, l1) = Some (err, b', s', log')" "\<forall>txn\<in>set (arrivals evs). proper_txn txn"
      using Cons.prems st by (cases ev; auto)+
    from Cons.IH [OF this(1) _ _ this(2)] step True show ?thesis by simp
  next
    case False
    with Cons.prems(1) st step show ?thesis by (cases e1; cases ev) auto
  qed
qed (auto dest: settled_log_ordered)



section \<open>The transactions waiting\<close>

definition txn_sizes :: "'meta Txn list \<Rightarrow> int" where
  "txn_sizes txns = sum_list (map txn_size txns)"

lemma txn_sizes_simps [simp]:
  "txn_sizes [] = 0" "txn_sizes (txn # txns) = txn_size txn + txn_sizes txns" "txn_sizes (xs @ ys) = txn_sizes xs + txn_sizes ys"
  by (simp_all add: txn_sizes_def)

lemma txn_sizes_nonneg: "0 \<le> txn_sizes txns"
  by (induction txns) auto

lemma txn_size_member: "txn \<in> set txns \<Longrightarrow> txn_size txn \<le> txn_sizes txns"
proof (induction txns)
  case (Cons a txns)
  then show ?case using txn_sizes_nonneg [of txns] by auto
qed simp

definition pending :: "'meta tm_pc \<Rightarrow> 'meta Txn list" where
  "pending pc = (case pc of Waiting txn \<Rightarrow> [txn] | Sending txn \<Rightarrow> [txn] | _ \<Rightarrow> [])"

definition uncounted :: "'meta tm_pc \<Rightarrow> int" where
  "uncounted pc = (case pc of Counting txn \<Rightarrow> txn_size txn | _ \<Rightarrow> 0)"

definition within_cache :: "int \<Rightarrow> 'meta Txn list \<Rightarrow> bool" where
  "within_cache maxSize txns \<longleftrightarrow> txn_sizes txns \<le> maxSize \<or> (\<exists>txn\<in>set txns. maxSize \<le> txn_size txn \<and> txn_sizes txns = txn_size txn)"

lemma within_cache_tl: "0 \<le> maxSize \<Longrightarrow> within_cache maxSize (txn # txns) \<Longrightarrow> within_cache maxSize txns"
  using txn_sizes_nonneg [of txns] txn_size_member [of _ txns] by (fastforce simp: within_cache_def)

definition admitted :: "int \<Rightarrow> 'meta Txn \<Rightarrow> int \<Rightarrow> bool" where
  "admitted maxSize txn n \<longleftrightarrow> txn_size txn + n \<le> maxSize \<or> (maxSize \<le> txn_size txn \<and> n = 0)"

definition tm_inv :: "'meta txnManager \<Rightarrow> bool" where
  "tm_inv t \<longleftrightarrow> \<not> tm_isClosed t \<and> 0 \<le> maxCacheSize t \<and>
     cachedSize t = txn_sizes (cacheChan t) - uncounted (tm_pc t) \<and> within_cache (maxCacheSize t) (cacheChan t) \<and>
     (\<forall>txn. tm_pc t = Sending txn \<longrightarrow> admitted (maxCacheSize t) txn (txn_sizes (cacheChan t)))"

definition tm_txns :: "'meta txnManager \<Rightarrow> 'meta Txn list" where
  "tm_txns t = received t @ cacheChan t @ pending (tm_pc t) @ tm_input t"

lemma admitted_within: "admitted maxSize txn (txn_sizes txns) \<Longrightarrow> within_cache maxSize (txns @ [txn])"
  by (auto simp: admitted_def within_cache_def)

lemma tm_step_inv: "tm_inv t \<Longrightarrow> tm_inv (tm_step shutdown t) \<and> tm_txns (tm_step shutdown t) = tm_txns t"
  by (auto simp: tm_step_def tm_inv_def tm_txns_def pending_def uncounted_def has_room_def admitted_within
    split: tm_pc.split list.split, auto simp: admitted_def split: if_splits)

lemma tm_pop_inv: "tm_inv t \<Longrightarrow> tm_inv (tm_pop t) \<and> tm_txns (tm_pop t) = tm_txns t"
proof (cases "cacheChan t")
  case (Cons txn rest)
  assume inv: "tm_inv t"
  then have "within_cache (maxCacheSize t) rest" using Cons within_cache_tl by (auto simp: tm_inv_def)
  moreover have "admitted (maxCacheSize t) x (txn_sizes rest)" if "tm_pc t = Sending x" for x
    using inv that Cons txn_sizes_nonneg [of rest] by (auto simp: tm_inv_def admitted_def)
  ultimately show ?thesis using inv Cons by (auto simp: tm_pop_def tm_inv_def tm_txns_def)
qed (simp add: tm_pop_def)

lemma tm_exec_inv: "tm_inv t \<Longrightarrow> TmClose \<notin> set evs \<Longrightarrow> tm_inv (tm_exec evs t) \<and> tm_txns (tm_exec evs t) = tm_txns t"
proof (induction evs arbitrary: t)
  case (Cons ev evs)
  from Cons.prems have "tm_inv (tm_event_step ev t) \<and> tm_txns (tm_event_step ev t) = tm_txns t"
    by (cases ev) (auto dest: tm_step_inv tm_pop_inv)
  with Cons show ?case by (simp add: tm_exec_def)
qed (simp add: tm_exec_def)

text \<open>C34. However the goroutine of the transaction manager and the main loop interleave, the transactions are handed over in the order of the
  input and none is lost, and the statements in the channel never exceed the bound, unless a single transaction of at least that size has the
  channel to itself; the counter is exact whenever no send is in progress.\<close>

theorem txn_manager_bounded:
  assumes "0 \<le> maxSize" "TmClose \<notin> set evs"
  shows "let t = tm_exec evs (newTxnManager maxSize input) in
    received t @ cacheChan t @ pending (tm_pc t) @ tm_input t = input \<and>
    cachedSize t = txn_sizes (cacheChan t) - uncounted (tm_pc t) \<and> within_cache maxSize (cacheChan t)"
proof -
  have new: "tm_inv (newTxnManager maxSize input)" "tm_txns (newTxnManager maxSize input) = input"
    using assms(1) by (simp_all add: tm_inv_def tm_txns_def newTxnManager_def pending_def uncounted_def within_cache_def)
  have "maxCacheSize (tm_exec evs t) = maxCacheSize t" for t :: "'a txnManager"
  proof (induction evs arbitrary: t)
    case (Cons ev evs)
    have "maxCacheSize (tm_event_step ev t) = maxCacheSize t"
      by (cases ev) (auto simp: tm_step_def tm_pop_def tm_Close_def split: tm_pc.split list.split)
    with Cons show ?case by (simp add: tm_exec_def)
  qed (simp add: tm_exec_def)
  with tm_exec_inv [OF new(1) assms(2)] new(2) show ?thesis
    by (simp add: Let_def tm_inv_def tm_txns_def newTxnManager_def)
qed

theorem txn_manager_bounded_witness:
  "let t = tm_exec (replicate 8 (TmStep False) @ [TmPop]) (newTxnManager 1 (example_txns @ example_txns)) in
    received t @ cacheChan t @ pending (tm_pc t) @ tm_input t = example_txns @ example_txns \<and> length (received t) = 1 \<and>
    cachedSize t = txn_sizes (cacheChan t) - uncounted (tm_pc t) \<and> within_cache 1 (cacheChan t)"
proof -
  have "length (received (tm_exec (replicate 8 (TmStep False) @ [TmPop]) (newTxnManager 1 (example_txns @ example_txns)))) = 1" by code_simp
  then show ?thesis
    using txn_manager_bounded [of 1 "replicate 8 (TmStep False) @ [TmPop]" "example_txns @ example_txns"] by (simp add: Let_def)
qed

text \<open>A transaction without statements waits in the batch, and a DDL that follows it is acknowledged first: \<^verbatim>\<open>execAccumulatedDMLs\<close> returns early
  when no statement is waiting, without the success callback.\<close>

lemma empty_txn_not_acked:
  "batch_put ops \<lparr>DMLs = [], txn_DDL = None, AppliedTS = a, Metadata = m\<rparr> (newBatchManager l) s =
     Some (None, (newBatchManager l)\<lparr>b_txns := [\<lparr>DMLs = [], txn_DDL = None, AppliedTS = a, Metadata = m\<rparr>]\<rparr>, s)"
  by (simp add: batch_put_def Let_def execAccumulatedDMLs_def newBatchManager_def)

end
