(* ===== verification/BinlogFile.thy ===== *)
theory BinlogFile
  imports Framing "HOL-Library.List_Lexorder" "HOL-Library.Char_ord"
begin

text \<open>
  \<^verbatim>\<open>pkg/binlogfile\<close>: the binlog files a drainer writes, for its file and relay outputs and for reparo to read. A directory holds files
  with consecutive numbers in their names; \<^verbatim>\<open>WriteTail\<close> appends a record to the last and starts a new one when it is full, \<^verbatim>\<open>Walk\<close> reads the
  records from a position on. The directory is a list of names and contents; the outcome of each system call is consumed from a list.
\<close>

section \<open>Records\<close>

definition binlogger_magic :: u32 where "binlogger_magic = 471532804"

abbreviation ErrMagicMismatch :: go_error where
  "ErrMagicMismatch \<equiv> ErrMsg ''binlogger: magic mismatch''"

definition CheckMagic :: "u32 \<Rightarrow> go_error option" where
  "CheckMagic magicNum = (if magicNum \<noteq> binlogger_magic then Some ErrMagicMismatch else None)"

definition Encode :: "bytes \<Rightarrow> bytes" where
  "Encode payload =
     put_le 4 binlogger_magic @ put_le 8 (of_nat (length payload) :: u64) @ payload @ put_le 4 (crc32_castagnoli payload)"

definition unexpected :: "go_error \<Rightarrow> go_error" where
  "unexpected err = (if err = EOF then ErrUnexpectedEOF else err)"

text \<open>\<^verbatim>\<open>Decode\<close> on the bytes left in its reader: the payload, the length of the record and the bytes left after it. Lengths that cannot be
  allocated or sliced panic.\<close>

definition Decode :: "bytes \<Rightarrow> go_error + bytes \<times> int \<times> bytes" where
  "Decode r =
     (case read_full 4 r of
        Inl err \<Rightarrow> Inl err
      | Inr (m, r) \<Rightarrow>
          (case CheckMagic (get_le m) of
             Some err \<Rightarrow> Inl err
           | None \<Rightarrow>
               (case read_full 8 r of
                  Inl err \<Rightarrow> Inl (unexpected err)
                | Inr (n, r) \<Rightarrow>
                    let sz = int64_of_u64 (get_le n); len = wrap_int64 (sz + 4) in
                    if len < 0 \<or> len > 2 ^ 48 then Inl (Panic ''makeslice: len out of range'')
                    else
                      (case read_full (nat len) r of
                         Inl err \<Rightarrow> Inl (unexpected err)
                       | Inr (data, r) \<Rightarrow>
                           if sz < 0 then Inl (Panic ''slice bounds out of range'')
                           else
                             let payload = take (nat sz) data in
                             if crc32_castagnoli payload \<noteq> get_le (drop (nat sz) data)
                             then Inl (ErrMsg ''expected crc32 but got'')
                             else Inr (payload, 4 + 8 + sz + 4, r)))))"

section \<open>Names\<close>

fun split_on :: "char \<Rightarrow> string \<Rightarrow> string list" where
  "split_on sep [] = [[]]"
| "split_on sep (c # s) =
     (if c = sep then [] # split_on sep s else (c # hd (split_on sep s)) # tl (split_on sep s))"

definition is_digit :: "char \<Rightarrow> bool" where
  "is_digit c \<longleftrightarrow> 48 \<le> (of_char c :: nat) \<and> (of_char c :: nat) \<le> 57"

text \<open>\<^verbatim>\<open>fmt.Sscanf(s, "%016d", &n)\<close>: white space is skipped, and at most 16 digits are read.\<close>

definition sscanf_016d :: "string \<Rightarrow> go_error + nat" where
  "sscanf_016d s =
     (let digits = takeWhile is_digit (take 16 (dropWhile (\<lambda>c. c \<in> {CHR '' '', CHR 0x09, CHR 0x0b, CHR 0x0c, CHR 0x0d}) s)) in
      case (if digits = [] then None else parse_digits 0 digits) of
        None \<Rightarrow> Inl (ErrMsg ''expected integer'')
      | Some n \<Rightarrow> Inr n)"

text \<open>\<^verbatim>\<open>strconv.ParseInt(s, 10, 64)\<close>.\<close>

definition parse_int64 :: "string \<Rightarrow> go_error + int" where
  "parse_int64 s =
     (let neg = (s \<noteq> [] \<and> hd s = CHR ''-'');
          digits = (if s \<noteq> [] \<and> hd s \<in> {CHR ''-'', CHR ''+''} then tl s else s) in
      case (if digits = [] then None else parse_digits 0 digits) of
        None \<Rightarrow> Inl (ErrMsg ''invalid syntax'')
      | Some n \<Rightarrow>
          let v = (if neg then - int n else int n) in
          if int64_range v then Inr v else Inl (ErrMsg ''value out of range''))"

abbreviation ErrBadBinlogName :: go_error where
  "ErrBadBinlogName \<equiv> ErrMsg ''bad file name''"

abbreviation ErrFileNotFound :: go_error where
  "ErrFileNotFound \<equiv> ErrMsg ''binlogger: file not found''"

abbreviation ErrFileContentCorruption :: go_error where
  "ErrFileContentCorruption \<equiv> ErrMsg ''binlogger: content is corruption''"

text \<open>A number read from a name has at most 16 digits, so that \<^verbatim>\<open>uint64\<close> arithmetic on it does not wrap.\<close>

definition ParseBinlogName :: "string \<Rightarrow> go_error + nat \<times> int" where
  "ParseBinlogName str =
     (if \<not> has_prefix str ''binlog-'' then Inl ErrBadBinlogName
      else
        let items = split_on (CHR ''-'') str in
        if length items = 2 \<or> length items = 3
        then (case sscanf_016d (items ! 1) of Inl err \<Rightarrow> Inl err | Inr index \<Rightarrow> Inr (index, 0))
        else if length items = 4
        then
          (case sscanf_016d (items ! 1) of
             Inl err \<Rightarrow> Inl err
           | Inr index \<Rightarrow>
               (case parse_int64 (hd (split_on (CHR ''.'') (items ! 3))) of Inl err \<Rightarrow> Inl err | Inr t \<Rightarrow> Inr (index, t)))
        else Inl ErrBadBinlogName)"

text \<open>The date and time are those of the clock, in the format \<^verbatim>\<open>20060102150405\<close>.\<close>

definition BinlogName :: "nat \<Rightarrow> string \<Rightarrow> string" where
  "BinlogName index datetime = ''binlog-'' @ pad_dec 16 index @ ''-'' @ datetime"

definition FilterBinlogNames :: "string list \<Rightarrow> string list" where
  "FilterBinlogNames names =
     filter (\<lambda>name. \<not> has_suffix name ''checkpoint'' \<and> \<not> has_suffix name ''.lock'' \<and> \<not> isl (ParseBinlogName name)) names"

type_synonym directory = "(string \<times> bytes) list"

definition ReadBinlogNames :: "directory \<Rightarrow> go_error + string list" where
  "ReadBinlogNames dir =
     (let fnames = FilterBinlogNames (sort (map_keys dir)) in if fnames = [] then Inl ErrFileNotFound else Inr fnames)"

definition name_index :: "string \<Rightarrow> nat" where
  "name_index name = (case ParseBinlogName name of Inl err \<Rightarrow> 0 | Inr (index, t) \<Rightarrow> index)"

text \<open>\<^verbatim>\<open>SearchIndex\<close> looks from the end; a name that does not parse counts as 0.\<close>

fun search_down :: "string list \<Rightarrow> nat \<Rightarrow> nat \<Rightarrow> nat option" where
  "search_down names index 0 = None"
| "search_down names index (Suc i) = (if index = name_index (names ! i) then Some i else search_down names index i)"

definition SearchIndex :: "string list \<Rightarrow> nat \<Rightarrow> nat option" where
  "SearchIndex names index = search_down names index (length names)"

fun valid_from :: "nat \<Rightarrow> string list \<Rightarrow> go_error + bool" where
  "valid_from lastSuffix [] = Inr True"
| "valid_from lastSuffix (name # names) =
     (case ParseBinlogName name of
        Inl err \<Rightarrow> Inl (Panic ''binlogger: parse corrent name should never fail'')
      | Inr (curSuffix, _) \<Rightarrow>
          if lastSuffix \<noteq> 0 \<and> (curSuffix = 0 \<or> lastSuffix \<noteq> curSuffix - 1) then Inr False
          else valid_from curSuffix names)"

definition IsValidBinlog :: "string list \<Rightarrow> go_error + bool" where
  "IsValidBinlog names = valid_from 0 names"

section \<open>Writing\<close>

record Pos =
  Suffix :: nat
  pos_Offset :: int

text \<open>An open binlogger: the directory, the file it appends to with the position of its descriptor, and the encoder's count of bytes. The times
  the clock will show and the outcomes of the system calls to come are part of the state.\<close>

record binlogger =
  bl_dir :: directory
  maxFileSize :: int
  encoder_offset :: int
  lastSuffix :: nat
  lastOffset :: int
  bl_file :: string
  file_pos :: nat
  bl_io :: "io_outcome list"
  bl_clock :: "string list"

definition next_time :: "string list \<Rightarrow> string" where
  "next_time clock = (case clock of [] \<Rightarrow> ''20060102150405'' | t # _ \<Rightarrow> t)"

text \<open>Opening creates a missing file and leaves the content of an existing one.\<close>

definition open_create :: "string \<Rightarrow> directory \<Rightarrow> directory" where
  "open_create name dir = (if map_of dir name = None then dir @ [(name, [])] else dir)"

definition write_at :: "nat \<Rightarrow> bytes \<Rightarrow> bytes \<Rightarrow> bytes" where
  "write_at pos data content = take pos content @ replicate (pos - length content) 0 @ data @ drop (pos + length data) content"

definition OpenBinlogger :: "directory \<Rightarrow> int \<Rightarrow> io_outcome list \<Rightarrow> string list \<Rightarrow> go_error + binlogger" where
  "OpenBinlogger dir maxSize io clock =
     (case io_next io of
        (IoErr _, io) \<Rightarrow> Inl ErrIO
      | (IoOk, io) \<Rightarrow>
     (case io_next io of
        (IoErr _, io) \<Rightarrow> Inl ErrIO
      | (IoOk, io) \<Rightarrow>
          let names = (case ReadBinlogNames dir of Inl err \<Rightarrow> [] | Inr names \<Rightarrow> names);
              target =
                (if names = [] then Inr (BinlogName 0 (next_time clock), 0, tl clock)
                 else
                   (case IsValidBinlog names of
                      Inl err \<Rightarrow> Inl err
                    | Inr ok \<Rightarrow>
                        if \<not> ok then Inl ErrFileContentCorruption
                        else
                          (case ParseBinlogName (last names) of
                             Inl err \<Rightarrow> Inl err
                           | Inr (suffix, _) \<Rightarrow> Inr (last names, suffix, clock))))
          in case target of
               Inl err \<Rightarrow> Inl err
             | Inr (lastFileName, lastFileSuffix, clock) \<Rightarrow>
                 (case io_next io of
                    (IoErr _, io) \<Rightarrow> Inl ErrIO
                  | (IoOk, io) \<Rightarrow>
                      let dir = open_create lastFileName dir;
                          offset = length (the (map_of dir lastFileName))
                      in case io_next io of
                           (IoErr _, io) \<Rightarrow> Inl ErrIO
                         | (IoOk, io) \<Rightarrow>
                             Inr \<lparr>bl_dir = dir, maxFileSize = maxSize, encoder_offset = int offset, lastSuffix = lastFileSuffix,
                                  lastOffset = int offset, bl_file = lastFileName, file_pos = offset, bl_io = io, bl_clock = clock\<rparr>)))"

definition binlogger_seq :: "binlogger \<Rightarrow> go_error + nat" where
  "binlogger_seq b =
     (case ParseBinlogName (bl_file b) of Inl err \<Rightarrow> Inl (Panic ''bad binlog name'') | Inr (seq, _) \<Rightarrow> Inr seq)"

definition bl_rotate :: "binlogger \<Rightarrow> go_error option \<times> binlogger" where
  "bl_rotate b =
     (case binlogger_seq b of
        Inl err \<Rightarrow> (Some err, b)
      | Inr seq \<Rightarrow>
          let filename = BinlogName (seq + 1) (next_time (bl_clock b));
              b = b\<lparr>lastSuffix := seq + 1, lastOffset := 0, bl_clock := tl (bl_clock b)\<rparr>
          in case io_next (bl_io b) of
               (IoErr _, io) \<Rightarrow> (Some ErrIO, b\<lparr>bl_io := io\<rparr>)
             | (IoOk, io) \<Rightarrow>
                 (case io_next io of (_, io) \<Rightarrow>
                    (None, b\<lparr>bl_dir := open_create filename (bl_dir b), bl_file := filename, file_pos := 0, encoder_offset := 0, bl_io := io\<rparr>)))"

text \<open>A failed write leaves the bytes that were transferred, and the position of the descriptor after them.\<close>

definition encoder_Encode :: "bytes \<Rightarrow> binlogger \<Rightarrow> (go_error + int) \<times> binlogger" where
  "encoder_Encode payload b =
     (let data = Encode payload;
          put = (\<lambda>written. b\<lparr>bl_dir := AList.update (bl_file b)
                     (write_at (file_pos b) written (case map_of (bl_dir b) (bl_file b) of Some c \<Rightarrow> c | None \<Rightarrow> [])) (bl_dir b),
                   file_pos := file_pos b + length written\<rparr>)
      in case io_next (bl_io b) of
           (IoErr n, io) \<Rightarrow> (Inl ErrIO, (put (take n data))\<lparr>bl_io := io\<rparr>)
         | (IoOk, io) \<Rightarrow>
             let offset = wrap_int64 (encoder_offset b + int (length data))
             in (Inr offset, (put data)\<lparr>encoder_offset := offset, bl_io := io\<rparr>))"

abbreviation zero_pos :: Pos where
  "zero_pos \<equiv> \<lparr>Suffix = 0, pos_Offset = 0\<rparr>"

definition WriteTail :: "bytes \<Rightarrow> binlogger \<Rightarrow> (Pos \<times> go_error option) \<times> binlogger" where
  "WriteTail payload b =
     (if payload = [] then ((zero_pos, None), b)
      else
        (case encoder_Encode payload b of
           (Inl err, b) \<Rightarrow> ((zero_pos, Some err), b)
         | (Inr curOffset, b) \<Rightarrow>
             let b = b\<lparr>lastOffset := curOffset\<rparr>;
                 pos = \<lparr>Suffix = lastSuffix b, pos_Offset = curOffset\<rparr>
             in if curOffset < maxFileSize b then ((pos, None), b)
                else (case bl_rotate b of (err, b) \<Rightarrow> ((pos, err), b))))"

section \<open>Collecting old files\<close>

text \<open>The names but the last that satisfy a condition are removed; a removal that fails leaves its file.\<close>

fun remove_files :: "(string \<Rightarrow> bool) \<Rightarrow> string list \<Rightarrow> directory \<Rightarrow> io_outcome list \<Rightarrow> directory \<times> io_outcome list" where
  "remove_files old [] dir io = (dir, io)"
| "remove_files old (name # names) dir io =
     (if old name
      then
        (case io_next io of
           (IoErr _, io) \<Rightarrow> remove_files old names dir io
         | (IoOk, io) \<Rightarrow> remove_files old names (AList.delete name dir) io)
      else remove_files old names dir io)"

definition gc_files :: "(string \<Rightarrow> bool) \<Rightarrow> binlogger \<Rightarrow> binlogger" where
  "gc_files old b =
     (case ReadBinlogNames (bl_dir b) of
        Inl err \<Rightarrow> b
      | Inr names \<Rightarrow>
          (case remove_files old (butlast names) (bl_dir b) (bl_io b) of (dir, io) \<Rightarrow> b\<lparr>bl_dir := dir, bl_io := io\<rparr>))"

definition GCByPos :: "Pos \<Rightarrow> binlogger \<Rightarrow> binlogger" where
  "GCByPos pos b = gc_files (\<lambda>name. name_index name < Suffix pos) b"

text \<open>The time since the last modification of a file, None when its status cannot be read.\<close>

definition GCByTime :: "int \<Rightarrow> (string \<Rightarrow> int option) \<Rightarrow> binlogger \<Rightarrow> binlogger" where
  "GCByTime retentionTime age b =
     gc_files (\<lambda>name. case age name of None \<Rightarrow> False | Some d \<Rightarrow> d > retentionTime) b"

section \<open>Reading\<close>

record binlog_entity =
  Payload :: bytes
  ent_Pos :: Pos

text \<open>\<^verbatim>\<open>seekBinlog\<close> looks at the file through a window of 1024 bytes that moves by 1021.\<close>

definition window_magic :: "bytes \<Rightarrow> nat \<Rightarrow> nat option" where
  "window_magic buff n = List.find (\<lambda>i. CheckMagic (get_le (take 4 (drop i buff))) = None) [0..<n]"

function seek_loop :: "bytes \<Rightarrow> bytes \<Rightarrow> int \<Rightarrow> go_error + int" where
  "seek_loop header r offset =
     (let tail = take 1021 r; n = length tail in
      case window_magic (header @ tail) n of
        Some i \<Rightarrow> Inr (offset + int i)
      | None \<Rightarrow>
          if n = 0 then Inl EOF
          else if n < 1021 then Inl ErrUnexpectedEOF
          else seek_loop (drop (1021 - 3) tail) (drop 1021 r) (offset + 1021))"
  by pat_completeness auto
termination
  by (relation "measure (\<lambda>(header, r, offset). length r)") auto

definition seekBinlog :: "bytes \<Rightarrow> int \<Rightarrow> go_error + int" where
  "seekBinlog content offset =
     (if offset < 0 then Inl ErrIO
      else
        (case read_full 3 (drop (nat offset) content) of
           Inl err \<Rightarrow> Inl err
         | Inr (header, r) \<Rightarrow> seek_loop header r offset))"

text \<open>The caller of \<^verbatim>\<open>Walk\<close>: whether its context is done, and what it does with a binlog.\<close>

record 's walker =
  ctx_Done :: "'s \<Rightarrow> bool \<times> 's"
  sendBinlog :: "binlog_entity \<Rightarrow> 's \<Rightarrow> go_error option \<times> 's"

datatype walked = WalkDone | WalkErr go_error | WalkEOF

declare seek_loop.simps [simp del]

lemma seek_loop_ge: "seek_loop header r offset = Inr offset' \<Longrightarrow> offset \<le> offset'"
proof (induction header r offset rule: seek_loop.induct)
  case (1 header r offset)
  show ?case
  proof (cases "window_magic (header @ take 1021 r) (length (take 1021 r))")
    case None
    then show ?thesis using "1.IH" [OF refl refl None] "1.prems"
      by (subst (asm) (2) seek_loop.simps) (auto simp: Let_def split: if_splits)
  next
    case (Some i)
    with "1.prems" show ?thesis by (subst (asm) seek_loop.simps) (simp add: Let_def)
  qed
qed

lemma seekBinlog_ge: "seekBinlog content offset = Inr offset' \<Longrightarrow> offset \<le> offset' \<and> 0 \<le> offset"
  by (auto simp: seekBinlog_def dest: seek_loop_ge split: if_splits sum.splits)

lemma wrap_plus4:
  fixes w :: u64
  assumes "0 \<le> sint w" "0 \<le> wrap_int64 (sint w + 4)"
  shows "wrap_int64 (sint w + 4) = sint w + 4"
proof (cases "sint w + 4 < 2 ^ 63")
  case True
  then show ?thesis using assms by (simp add: int64_range_def)
next
  case False
  have "sint w < 2 ^ 63" using sint_less [of w] by simp
  have "(sint w + 4 + 2 ^ 63) mod 2 ^ 64 = (sint w + 4 + 2 ^ 63 - 2 ^ 64 + 2 ^ 64) mod 2 ^ 64" by simp
  also have "\<dots> = (sint w + 4 + 2 ^ 63 - 2 ^ 64) mod 2 ^ 64" by (rule mod_add_self2)
  also have "\<dots> = sint w + 4 + 2 ^ 63 - 2 ^ 64"
    using False \<open>sint w < 2 ^ 63\<close> by (intro mod_pos_pos_trivial) auto
  finally have "(sint w + 4 + 2 ^ 63) mod 2 ^ 64 = sint w + 4 + 2 ^ 63 - 2 ^ 64" .
  with \<open>sint w < 2 ^ 63\<close> assms(2) show ?thesis
    by (simp add: wrap_int64_def signed_take_bit_eq_take_bit_shift take_bit_eq_mod)
qed

lemma Decode_InrE:
  assumes "Decode r = Inr (payload, len, rest)"
  obtains m n c where "r = m @ n @ payload @ c @ rest" "length m = 4" "length n = 8" "length c = 4" "len = int (length payload) + 16"
    "get_le m = binlogger_magic" "get_le c = crc32_castagnoli payload"
proof -
  from assms obtain m n data where r: "r = m @ n @ data @ rest" "length m = 4" "length n = 8" "CheckMagic (get_le m) = None"
    and sz: "0 \<le> wrap_int64 (sint (get_le n :: u64) + 4)" "length data = nat (wrap_int64 (sint (get_le n :: u64) + 4))"
      "0 \<le> sint (get_le n :: u64)"
    and p: "payload = take (nat (sint (get_le n :: u64))) data" "crc32_castagnoli payload = get_le (drop (nat (sint (get_le n :: u64))) data)"
      "len = 16 + sint (get_le n :: u64)"
    by (auto simp: Decode_def read_full_Inr_iff Let_def not_less split: sum.splits option.splits if_splits)
  have "length data = nat (sint (get_le n :: u64)) + 4" using sz wrap_plus4 [of "get_le n"] by auto
  with r sz p show ?thesis
    by (intro that [of m n "drop (nat (sint (get_le n :: u64))) data"]) (auto simp: CheckMagic_def split: if_splits)
qed

lemma Decode_length: "Decode r = Inr (payload, len, rest) \<Longrightarrow> len = int (length payload) + 16 \<and> length r = length payload + 16 + length rest"
  by (erule Decode_InrE) simp

lemma Decode_magic_mismatch: "Decode r = Inl ErrMagicMismatch \<Longrightarrow> r \<noteq> []"
  by (auto simp: Decode_def read_full_def)

abbreviation ErrCRCMismatch :: go_error where
  "ErrCRCMismatch \<equiv> ErrMsg ''binlogger: crc mismatch''"

lemma Decode_no_crc_mismatch: "Decode r \<noteq> Inl ErrCRCMismatch"
  by (auto simp: Decode_def CheckMagic_def read_full_def unexpected_def Let_def split: sum.splits option.splits if_splits)

lemma walk_seek_less:
  assumes "Decode (drop offset content) = Inl err" "err = ErrCRCMismatch \<or> err = ErrMagicMismatch" "seekBinlog content (int offset + 1) = Inr nxt"
  shows "Suc (length content) - nat nxt < Suc (length content) - offset"
proof -
  have "offset < length content" using assms(1,2) Decode_magic_mismatch [of "drop offset content"] Decode_no_crc_mismatch by auto
  with seekBinlog_ge [OF assms(3)] show ?thesis by auto
qed

function walk_file :: "'s walker \<Rightarrow> bool \<Rightarrow> nat \<Rightarrow> bytes \<Rightarrow> nat \<Rightarrow> 's \<Rightarrow> walked \<times> 's" where
  "walk_file w isLastFile suffix content offset s =
     (case ctx_Done w s of
        (True, s) \<Rightarrow> (WalkDone, s)
      | (False, s) \<Rightarrow>
          (case Decode (drop offset content) of
             Inl err \<Rightarrow>
               if err = ErrUnexpectedEOF \<and> isLastFile then (WalkEOF, s)
               else if err = ErrCRCMismatch \<or> err = ErrMagicMismatch
               then
                 (case seekBinlog content (int offset + 1) of
                    Inr next \<Rightarrow> walk_file w isLastFile suffix content (nat next) s
                  | Inl err1 \<Rightarrow> if err1 = EOF \<or> err1 = ErrUnexpectedEOF then (WalkEOF, s) else (WalkErr err1, s))
               else if err = EOF then (WalkEOF, s)
               else (WalkErr err, s)
           | Inr (payload, len, _) \<Rightarrow>
               let offset = offset + nat len in
               (case sendBinlog w \<lparr>Payload = payload, ent_Pos = \<lparr>Suffix = suffix, pos_Offset = int offset\<rparr>\<rparr> s of
                  (Some err, s) \<Rightarrow> (WalkErr err, s)
                | (None, s) \<Rightarrow> walk_file w isLastFile suffix content offset s)))"
  by pat_completeness auto
termination
  by (relation "measure (\<lambda>(w, isLastFile, suffix, content, offset, s). Suc (length content) - offset)")
    (auto dest: Decode_length walk_seek_less)

declare walk_file.simps [simp del]

fun walk_files :: "'s walker \<Rightarrow> directory \<Rightarrow> string list \<Rightarrow> nat \<Rightarrow> nat \<Rightarrow> 's \<Rightarrow> go_error option \<times> 's" where
  "walk_files w dir [] suffix offset s = (None, s)"
| "walk_files w dir (name # names) suffix offset s =
     (case ctx_Done w s of
        (True, s) \<Rightarrow> (None, s)
      | (False, s) \<Rightarrow>
          (case map_of dir name of
             None \<Rightarrow> (Some ErrIO, s)
           | Some content \<Rightarrow>
               (case walk_file w (names = []) suffix content offset s of
                  (WalkDone, s) \<Rightarrow> (None, s)
                | (WalkErr err, s) \<Rightarrow> (Some err, s)
                | (WalkEOF, s) \<Rightarrow> walk_files w dir names (Suc suffix) 0 s)))"

text \<open>A negative offset fails when the first file is positioned.\<close>

definition Walk :: "'s walker \<Rightarrow> directory \<Rightarrow> Pos \<Rightarrow> 's \<Rightarrow> go_error option \<times> 's" where
  "Walk w dir from_pos s =
     (case ReadBinlogNames dir of
        Inl err \<Rightarrow> (Some err, s)
      | Inr names \<Rightarrow>
          (case SearchIndex names (Suffix from_pos) of
             None \<Rightarrow> (Some ErrFileNotFound, s)
           | Some nameIndex \<Rightarrow>
               if pos_Offset from_pos < 0
               then (case ctx_Done w s of (True, s) \<Rightarrow> (None, s) | (False, s) \<Rightarrow> (Some ErrIO, s))
               else walk_files w dir (drop nameIndex names) (Suffix from_pos) (nat (pos_Offset from_pos)) s))"

text \<open>\<^verbatim>\<open>ReadFrom\<close> cancels its context when it has enough binlogs.\<close>

definition collect :: "int \<Rightarrow> (binlog_entity list \<times> bool) walker" where
  "collect nums =
     \<lparr>ctx_Done = (\<lambda>(ents, cancelled). (cancelled, ents, cancelled)),
      sendBinlog = (\<lambda>entity (ents, cancelled).
        let ents = (if int (length ents) < nums then ents @ [entity] else ents)
        in (None, ents, cancelled \<or> int (length ents) = nums))\<rparr>"

definition ReadFrom :: "Pos \<Rightarrow> int \<Rightarrow> directory \<Rightarrow> binlog_entity list \<times> go_error option" where
  "ReadFrom from_pos nums dir =
     (if nums < 0 then ([], Some (ErrMsg ''read number must be positive''))
      else (case Walk (collect nums) dir from_pos ([], False) of (err, ents, _) \<Rightarrow> (ents, err)))"

text \<open>\<^verbatim>\<open>ReadAll\<close>: the binlogs sent and the error, given at each look at the context whether it is done.\<close>

definition stream_walker :: "(binlog_entity list \<times> bool list) walker" where
  "stream_walker =
     \<lparr>ctx_Done = (\<lambda>(out, plan). (plan \<noteq> [] \<and> hd plan, out, tl plan)),
      sendBinlog = (\<lambda>entity (out, plan).
        if plan \<noteq> [] \<and> hd plan then (Some (ErrMsg ''context canceled''), out, tl plan) else (None, out @ [entity], tl plan))\<rparr>"

definition ReadAll :: "bool list \<Rightarrow> directory \<Rightarrow> binlog_entity list \<times> go_error option" where
  "ReadAll plan dir =
     (case ReadBinlogNames dir of
        Inl err \<Rightarrow> ([], Some err)
      | Inr names \<Rightarrow>
          (case ParseBinlogName (hd names) of
             Inl err \<Rightarrow> ([], Some err)
           | Inr (minFileIndex, _) \<Rightarrow>
               (case Walk stream_walker dir \<lparr>Suffix = minFileIndex, pos_Offset = 0\<rparr> ([], plan) of (err, out, _) \<Rightarrow> (out, err))))"

end
