(* ===== verification/BinlogFileProps.thy ===== *)
theory BinlogFileProps
  imports BinlogFile
begin

text \<open>
  What is written to binlog files is read back: the record format is self-delimiting and tells a torn record from the end of the file, the
  names of the files sort by their numbers, and reading from the position of any binlog gives the binlogs written after it.
\<close>

section \<open>The record format\<close>

definition encodable :: "bytes \<Rightarrow> bool" where
  "encodable payload \<longleftrightarrow> length payload + 4 \<le> 2 ^ 48"

lemma length_field_u64: "encodable payload \<Longrightarrow> sint (of_nat (length payload) :: u64) = int (length payload)"
  by (simp add: encodable_def sint_uint unat_of_nat uint_nat signed_take_bit_int_eq_self)

lemma length_Encode [simp]: "length (Encode payload) = length payload + 16"
  by (simp add: Encode_def)

lemma Encode_not_Nil: "Encode payload \<noteq> []"
  using length_Encode [of payload] by force

lemma Decode_Encode: "encodable payload \<Longrightarrow> Decode (Encode payload @ rest) = Inr (payload, int (length payload) + 16, rest)"
proof -
  assume "encodable payload"
  note len = length_field_u64 [OF this]
  have "int64_range (int (length payload) + 4)" using \<open>encodable payload\<close> by (simp add: encodable_def int64_range_def)
  moreover have "read_full (length payload + 4) (payload @ put_le 4 (crc32_castagnoli payload) @ rest)
      = Inr (payload @ put_le 4 (crc32_castagnoli payload), rest)"
    using read_full_append [of "payload @ put_le 4 (crc32_castagnoli payload)" "length payload + 4" rest] by simp
  ultimately show ?thesis using \<open>encodable payload\<close> len
    by (simp add: Decode_def Encode_def CheckMagic_def Let_def encodable_def nat_add_distrib)
qed

interpretation bl_codec: framed_codec Encode "\<lambda>bs. map_sum id (\<lambda>(payload, len, rest). (payload, rest)) (Decode bs)" encodable
proof unfold_locales
  fix bs rest x
  assume "map_sum id (\<lambda>(payload, len, rest). (payload, rest)) (Decode bs) = Inr (x, rest)"
  then show "length rest < length bs" by (cases "Decode bs") (auto dest!: Decode_length)
qed (simp add: Decode_Encode)

lemma read_full_short: "length bs < n \<Longrightarrow> read_full n bs = Inl (if bs = [] then EOF else ErrUnexpectedEOF)"
  by (simp add: read_full_def)

text \<open>A record that is not yet written completely.\<close>

lemma Decode_torn:
  assumes "encodable payload" "k < length (Encode payload)"
  shows "Decode (take k (Encode payload)) = Inl (if k = 0 then EOF else ErrUnexpectedEOF)"
proof -
  let ?m = "put_le 4 binlogger_magic" and ?n = "put_le 8 (of_nat (length payload) :: u64)"
  let ?d = "payload @ put_le 4 (crc32_castagnoli payload)"
  note len = length_field_u64 [OF assms(1)]
  have wrap: "wrap_int64 (int (length payload) + 4) = int (length payload + 4)"
    using assms(1) by (subst wrap_int64_id) (auto simp: encodable_def int64_range_def)
  consider "k < 4" | "4 \<le> k" "k < 12" | "12 \<le> k" by linarith
  then show ?thesis
  proof cases
    case 1
    then have "length (take k (Encode payload)) < 4" by simp
    then show ?thesis by (simp add: Decode_def read_full_short) (simp add: Encode_def flip: length_0_conv)
  next
    case 2
    then have "take k (Encode payload) = ?m @ take (k - 4) ?n" by (simp add: Encode_def)
    moreover have "length (take (k - 4) ?n) < 8" using 2 by simp
    ultimately show ?thesis using 2 by (simp add: Decode_def CheckMagic_def read_full_short unexpected_def)
  next
    case 3
    then have "take k (Encode payload) = ?m @ ?n @ take (k - 12) ?d" using assms(2) by (simp add: Encode_def)
    moreover have "length (take (k - 12) ?d) < length payload + 4" using 3 assms(2) by simp
    ultimately show ?thesis using 3 assms(1) len wrap
      by (simp add: Decode_def CheckMagic_def read_full_short unexpected_def Let_def encodable_def del: take_append)
  qed
qed

section \<open>The names of files\<close>

lemma split_on_no_sep: "sep \<notin> set s \<Longrightarrow> split_on sep s = [s]"
  by (induction s) auto

lemma split_on_append: "sep \<notin> set s \<Longrightarrow> split_on sep (s @ sep # rest) = s # split_on sep rest"
  by (induction s) auto

lemma is_digit_digit_char [simp]: "d < 10 \<Longrightarrow> is_digit (digit_char d)"
  by (simp add: is_digit_def of_char_digit_char)

lemma dec_str_digits: "c \<in> set (dec_str n) \<Longrightarrow> is_digit c"
proof (induction n rule: less_induct)
  case (less n)
  show ?case
  proof (cases "n < 10")
    case True
    with less.prems show ?thesis by (simp add: dec_str.simps [of n])
  next
    case False
    with less.prems less.IH [of "n div 10"] show ?thesis by (auto simp: dec_str.simps [of n])
  qed
qed

lemma length_dec_str: "0 < k \<Longrightarrow> n < 10 ^ k \<Longrightarrow> length (dec_str n) \<le> k"
proof (induction k arbitrary: n)
  case (Suc k)
  show ?case
  proof (cases "n < 10")
    case False
    then have "k \<noteq> 0" using Suc.prems by (cases k) auto
    moreover have "n div 10 < 10 ^ k" using Suc.prems by (auto simp: less_mult_imp_div_less mult.commute)
    ultimately show ?thesis using Suc.IH [of "n div 10"] False by (simp add: dec_str.simps [of n])
  qed (simp add: dec_str.simps [of n])
qed simp

lemma pad_dec_digits: "c \<in> set (pad_dec k n) \<Longrightarrow> is_digit c"
  by (auto simp: pad_dec_def dec_str_digits)

lemma length_pad_dec: "0 < k \<Longrightarrow> n < 10 ^ k \<Longrightarrow> length (pad_dec k n) = k"
  using length_dec_str by (simp add: pad_dec_def)

lemma parse_digits_pad_dec: "parse_digits 0 (pad_dec k n) = Some n"
  by (simp add: pad_dec_def parse_digits_dec_str)

lemma sscanf_pad_dec: "n < 10 ^ 16 \<Longrightarrow> sscanf_016d (pad_dec 16 n) = Inr n"
proof -
  assume n: "n < 10 ^ 16"
  have len: "length (pad_dec 16 n) = 16" using length_pad_dec [of 16 n] n by simp
  have ds: "\<forall>c\<in>set (pad_dec 16 n). is_digit c" using pad_dec_digits by blast
  obtain c cs where cs: "pad_dec 16 n = c # cs" using len by (cases "pad_dec 16 n") auto
  have "is_digit c" using ds cs by simp
  then have "c \<notin> {CHR '' '', CHR 0x09, CHR 0x0b, CHR 0x0c, CHR 0x0d}" by (auto simp: is_digit_def)
  then have "dropWhile (\<lambda>c. c \<in> {CHR '' '', CHR 0x09, CHR 0x0b, CHR 0x0c, CHR 0x0d}) (pad_dec 16 n) = pad_dec 16 n"
    unfolding cs by simp
  moreover have "takeWhile is_digit (take 16 (pad_dec 16 n)) = pad_dec 16 n" using len ds by (simp add: takeWhile_eq_all_conv)
  ultimately show ?thesis using cs parse_digits_pad_dec [of 16 n] by (auto simp: sscanf_016d_def Let_def)
qed

definition good_time :: "string \<Rightarrow> bool" where
  "good_time t \<longleftrightarrow> t \<noteq> [] \<and> list_all is_digit t"

lemma not_digit: "\<not> is_digit (CHR ''-'')" "\<not> is_digit (CHR ''t'')" "\<not> is_digit (CHR ''k'')"
  by (simp_all add: is_digit_def)

lemma ParseBinlogName_BinlogName:
  assumes "i < 10 ^ 16" "good_time t"
  shows "ParseBinlogName (BinlogName i t) = Inr (i, 0)"
proof -
  have d: "CHR ''-'' \<notin> set (pad_dec 16 i)" "CHR ''-'' \<notin> set t"
    using pad_dec_digits not_digit(1) assms(2) by (auto simp: good_time_def list_all_iff)
  have "split_on (CHR ''-'') (BinlogName i t) = [''binlog'', pad_dec 16 i, t]"
    using split_on_append [of "CHR ''-''" "''binlog''" "pad_dec 16 i @ CHR ''-'' # t"]
      split_on_append [OF d(1), of t] split_on_no_sep [OF d(2)]
    by (simp add: BinlogName_def)
  then show ?thesis using sscanf_pad_dec [OF assms(1)] by (simp add: ParseBinlogName_def has_prefix_def BinlogName_def)
qed

lemma digit_char_less: "a < b \<Longrightarrow> b < 10 \<Longrightarrow> digit_char a < digit_char b"
  by (simp add: less_char_def of_char_digit_char)

lemma pad_dec_Suc:
  assumes "0 < k" "n < 10 ^ Suc k"
  shows "pad_dec (Suc k) n = pad_dec k (n div 10) @ [digit_char (n mod 10)]"
proof (cases "n < 10")
  case True
  then show ?thesis using assms(1)
    by (cases k) (auto simp: pad_dec_def dec_str.simps [of n] dec_str.simps [of 0] replicate_append_same)
next
  case False
  then show ?thesis by (simp add: pad_dec_def dec_str.simps [of n])
qed

lemma less_append_same_length:
  fixes u v :: "'a::order list"
  shows "u < v \<Longrightarrow> length v \<le> length u \<Longrightarrow> u @ x < v @ y"
  by (simp add: list_less_def lexord_sufI)

lemma pad_dec_less: "0 < k \<Longrightarrow> i < j \<Longrightarrow> j < 10 ^ k \<Longrightarrow> pad_dec k i < pad_dec k j"
proof (induction k arbitrary: i j)
  case (Suc k)
  show ?case
  proof (cases k)
    case 0
    then show ?thesis using Suc.prems by (simp add: pad_dec_def dec_str.simps [of i] dec_str.simps [of j] digit_char_less)
  next
    case (Suc k')
    have lt: "i div 10 < 10 ^ k" "j div 10 < 10 ^ k" using Suc.prems by (auto simp: less_mult_imp_div_less mult.commute)
    have pads: "pad_dec (Suc k) i = pad_dec k (i div 10) @ [digit_char (i mod 10)]"
      "pad_dec (Suc k) j = pad_dec k (j div 10) @ [digit_char (j mod 10)]"
      using Suc Suc.prems pad_dec_Suc [of k i] pad_dec_Suc [of k j] by auto
    show ?thesis
    proof (cases "i div 10 < j div 10")
      case True
      then have "pad_dec k (i div 10) < pad_dec k (j div 10)" using Suc Suc.IH lt by simp
      with pads lt Suc show ?thesis by (simp add: less_append_same_length length_pad_dec)
    next
      case False
      then have "i div 10 = j div 10" "i mod 10 < j mod 10" using Suc.prems(2)
        by (auto intro: antisym div_le_mono simp: not_less) (metis div_mult_mod_eq nat_add_left_cancel_less div_le_mono le_antisym less_imp_le not_less)
      moreover from this have "digit_char (i mod 10) < digit_char (j mod 10)" by (simp add: digit_char_less)
      ultimately show ?thesis using pads by (simp add: list_less_def lexord_append_leftI)
    qed
  qed
qed simp

lemma BinlogName_less:
  assumes "i < j" "j < 10 ^ 16"
  shows "BinlogName i t < BinlogName j u"
proof -
  have "pad_dec 16 i < pad_dec 16 j" using pad_dec_less [of 16 i j] assms by simp
  then have "pad_dec 16 i @ ''-'' @ t < pad_dec 16 j @ ''-'' @ u"
    using assms by (intro less_append_same_length) (auto simp: length_pad_dec)
  then show ?thesis by (simp add: BinlogName_def)
qed

lemma good_names:
  assumes "i < 10 ^ 16" "good_time t"
  shows "FilterBinlogNames (BinlogName i t # names) = BinlogName i t # FilterBinlogNames names"
proof -
  have "is_digit (last (BinlogName i t))" using assms(2) by (auto simp: BinlogName_def good_time_def list_all_iff)
  moreover have "last (q @ ''checkpoint'') = CHR ''t''" "last (q @ ''.lock'') = CHR ''k''" for q by simp_all
  ultimately have "\<not> has_suffix (BinlogName i t) ''checkpoint''" "\<not> has_suffix (BinlogName i t) ''.lock''"
    using not_digit by (auto simp: has_suffix_iff simp del: last_append)
  then show ?thesis using ParseBinlogName_BinlogName [OF assms] by (simp add: FilterBinlogNames_def)
qed

section \<open>Directories of complete records\<close>

text \<open>A directory as the writer leaves it: files with consecutive numbers, each with its time and the payloads in it.\<close>

type_synonym segment = "nat \<times> string \<times> bytes list"

definition seg_name :: "segment \<Rightarrow> string" where
  "seg_name = (\<lambda>(i, t, ps). BinlogName i t)"

definition seg_content :: "segment \<Rightarrow> bytes" where
  "seg_content = (\<lambda>(i, t, ps). concat (map Encode ps))"

fun good_segs :: "nat \<Rightarrow> segment list \<Rightarrow> bool" where
  "good_segs n [] = True"
| "good_segs n ((i, t, ps) # segs) \<longleftrightarrow> i = n \<and> n < 10 ^ 16 \<and> good_time t \<and> list_all encodable ps \<and> good_segs (Suc n) segs"

text \<open>The last file may end with a part of a record.\<close>

fun seg_dir :: "segment list \<Rightarrow> bytes \<Rightarrow> directory" where
  "seg_dir [] torn = []"
| "seg_dir (seg # segs) torn = (seg_name seg, seg_content seg @ (if segs = [] then torn else [])) # seg_dir segs torn"

lemma map_fst_seg_dir [simp]: "map fst (seg_dir segs torn) = map seg_name segs"
  by (induction segs) auto

lemma good_segs_append: "good_segs n (xs @ ys) \<longleftrightarrow> good_segs n xs \<and> good_segs (n + length xs) ys"
  by (induction n xs rule: good_segs.induct) auto

lemma good_segs_name:
  assumes "good_segs n segs" "k < length segs"
  shows "name_index (seg_name (segs ! k)) = n + k" "n + k < 10 ^ 16" "\<exists>t. seg_name (segs ! k) = BinlogName (n + k) t \<and> good_time t"
proof -
  obtain i t ps where seg: "segs ! k = (i, t, ps)" by (cases "segs ! k")
  have "segs = take k segs @ (i, t, ps) # drop (Suc k) segs" using id_take_nth_drop [OF assms(2)] seg by simp
  then have "good_segs n (take k segs @ (i, t, ps) # drop (Suc k) segs)" using assms(1) by simp
  then have "i = n + k" "n + k < 10 ^ 16" "good_time t" using assms(2) by (simp_all add: good_segs_append)
  then show "name_index (seg_name (segs ! k)) = n + k" "n + k < 10 ^ 16" "\<exists>t. seg_name (segs ! k) = BinlogName (n + k) t \<and> good_time t"
    using seg by (auto simp: name_index_def seg_name_def ParseBinlogName_BinlogName)
qed

lemma seg_names_less:
  assumes "good_segs n segs" "j < k" "k < length segs"
  shows "seg_name (segs ! j) < seg_name (segs ! k)"
  using good_segs_name(2,3) [OF assms(1), of j] good_segs_name(2,3) [OF assms(1), of k] assms(2,3) BinlogName_less by auto

lemma seg_names_sorted: "good_segs n segs \<Longrightarrow> sorted_wrt (<) (map seg_name segs)"
  by (simp add: sorted_wrt_iff_nth_less seg_names_less)

lemma Filter_seg_names: "good_segs n segs \<Longrightarrow> FilterBinlogNames (map seg_name segs) = map seg_name segs"
proof (induction n segs rule: good_segs.induct)
  case (2 n i t ps segs)
  then show ?case using good_names [of i t] by (simp add: seg_name_def)
qed (simp add: FilterBinlogNames_def)

lemma ReadBinlogNames_seg_dir:
  assumes "good_segs n segs" "segs \<noteq> []"
  shows "ReadBinlogNames (seg_dir segs torn) = Inr (map seg_name segs)"
proof -
  have "sorted (map seg_name segs)" using seg_names_sorted [OF assms(1)] by (metis strict_sorted_imp_sorted)
  then have "sort (map seg_name segs) = map seg_name segs" by (rule sorted_sort_id)
  with assms show ?thesis by (simp add: ReadBinlogNames_def Let_def Filter_seg_names)
qed

lemma search_down_names:
  assumes "good_segs n segs" "k < m" "m \<le> length segs"
  shows "search_down (map seg_name segs) (n + k) m = Some k"
  using assms(2,3)
proof (induction m)
  case (Suc m)
  then show ?case using good_segs_name(1) [OF assms(1), of m] by (cases "m = k") auto
qed simp

lemma SearchIndex_seg_dir: "good_segs n segs \<Longrightarrow> k < length segs \<Longrightarrow> SearchIndex (map seg_name segs) (n + k) = Some k"
  by (simp add: SearchIndex_def search_down_names)

lemma map_of_seg_dir:
  assumes "good_segs n segs" "k < length segs"
  shows "map_of (seg_dir segs torn) (seg_name (segs ! k)) = Some (seg_content (segs ! k) @ (if Suc k = length segs then torn else []))"
proof -
  have "distinct (map fst (seg_dir segs torn))"
    using seg_names_sorted [OF assms(1)] strict_sorted_iff by auto
  moreover have "seg_dir segs torn ! k = (seg_name (segs ! k), seg_content (segs ! k) @ (if Suc k = length segs then torn else []))"
    using assms(2) by (induction segs arbitrary: k) (auto simp: nth_Cons split: nat.split)
  moreover have "k < length (seg_dir segs torn)" using assms(2) by (metis length_map map_fst_seg_dir)
  ultimately show ?thesis by (metis map_of_is_SomeI nth_mem)
qed

section \<open>Reading\<close>

fun seg_entities :: "nat \<Rightarrow> nat \<Rightarrow> bytes list \<Rightarrow> binlog_entity list" where
  "seg_entities i offset [] = []"
| "seg_entities i offset (p # ps) =
     \<lparr>Payload = p, ent_Pos = \<lparr>Suffix = i, pos_Offset = int (offset + length (Encode p))\<rparr>\<rparr> # seg_entities i (offset + length (Encode p)) ps"

fun deliver :: "'s walker \<Rightarrow> binlog_entity list \<Rightarrow> 's \<Rightarrow> walked \<times> 's" where
  "deliver w [] s = (case ctx_Done w s of (d, s) \<Rightarrow> (if d then WalkDone else WalkEOF, s))"
| "deliver w (e # es) s =
     (case ctx_Done w s of
        (True, s) \<Rightarrow> (WalkDone, s)
      | (False, s) \<Rightarrow> (case sendBinlog w e s of (Some err, s) \<Rightarrow> (WalkErr err, s) | (None, s) \<Rightarrow> deliver w es s))"

definition torn_record :: "bytes \<Rightarrow> bool" where
  "torn_record torn \<longleftrightarrow> (\<exists>p k. encodable p \<and> k < length (Encode p) \<and> torn = take k (Encode p))"

lemma torn_record_Nil [simp]: "torn_record []"
  by (auto simp: torn_record_def encodable_def intro!: exI [of _ "[]"] exI [of _ 0])

lemma walk_file_end:
  assumes "torn_record torn" "torn = [] \<or> isLast"
  shows "walk_file w isLast i (pre @ torn) (length pre) s = deliver w [] s"
proof -
  have "Decode torn = Inl EOF \<or> (Decode torn = Inl ErrUnexpectedEOF \<and> isLast)"
  proof (cases "torn = []")
    case True
    then show ?thesis by (simp add: Decode_def read_full_def)
  next
    case False
    then show ?thesis using assms Decode_torn by (auto simp: torn_record_def split: if_splits)
  qed
  then show ?thesis by (subst walk_file.simps) (auto split: prod.split bool.split)
qed

lemma walk_file_deliver:
  assumes "torn_record torn" "torn = [] \<or> isLast"
  shows "list_all encodable ps \<Longrightarrow>
    walk_file w isLast i (pre @ concat (map Encode ps) @ torn) (length pre) s = deliver w (seg_entities i (length pre) ps) s"
proof (induction ps arbitrary: pre s)
  case Nil
  then show ?case using walk_file_end [OF assms] by simp
next
  case (Cons p ps)
  have dec: "Decode (Encode p @ concat (map Encode ps) @ torn) = Inr (p, int (length p) + 16, concat (map Encode ps) @ torn)"
    using Cons.prems Decode_Encode by simp
  have next_file: "walk_file w isLast i (pre @ Encode p @ concat (map Encode ps) @ torn) (length pre + length p + 16) t =
      deliver w (seg_entities i (length pre + length p + 16) ps) t" for t
    using Cons.IH [of "pre @ Encode p" t] Cons.prems by (simp add: add.assoc)
  show ?case using next_file
    by (subst walk_file.simps) (simp add: dec Let_def nat_add_distrib add.assoc split: prod.split bool.split option.split)
qed

fun deliver_files :: "'s walker \<Rightarrow> binlog_entity list list \<Rightarrow> 's \<Rightarrow> go_error option \<times> 's" where
  "deliver_files w [] s = (None, s)"
| "deliver_files w (es # ess) s =
     (case ctx_Done w s of
        (True, s) \<Rightarrow> (None, s)
      | (False, s) \<Rightarrow>
          (case deliver w es s of
             (WalkDone, s) \<Rightarrow> (None, s)
           | (WalkErr err, s) \<Rightarrow> (Some err, s)
           | (WalkEOF, s) \<Rightarrow> deliver_files w ess s))"

lemma walk_files_deliver:
  assumes "good_segs n segs" "torn_record torn"
  shows "k \<le> length segs \<Longrightarrow>
    walk_files w (seg_dir segs torn) (map seg_name (drop k segs)) (n + k) 0 s =
      deliver_files w (map (\<lambda>(i, t, ps). seg_entities i 0 ps) (drop k segs)) s"
proof (induction "length segs - k" arbitrary: k s)
  case (Suc m)
  then have k: "k < length segs" by simp
  obtain i t ps where seg: "segs ! k = (i, t, ps)" by (cases "segs ! k")
  have "good_segs n (take k segs @ (i, t, ps) # drop (Suc k) segs)" using id_take_nth_drop [OF k] seg assms(1) by simp
  then have i: "i = n + k" "list_all encodable ps" using k by (simp_all add: good_segs_append)
  let ?torn = "if Suc k = length segs then torn else []"
  have walk: "walk_file w (drop (Suc k) segs = []) (n + k) (concat (map Encode ps) @ ?torn) 0 t = deliver w (seg_entities i 0 ps) t" for t
    using walk_file_deliver [of ?torn "drop (Suc k) segs = []" ps w i "[]" t] i assms(2) by auto
  have IH: "walk_files w (seg_dir segs torn) (map seg_name (drop (Suc k) segs)) (Suc (n + k)) 0 t =
      deliver_files w (map (\<lambda>(i, t, ps). seg_entities i 0 ps) (drop (Suc k) segs)) t" for t
    using Suc.hyps(1) [of "Suc k" t] Suc.hyps(2) k by simp
  have drop: "drop k segs = (i, t, ps) # drop (Suc k) segs" using Cons_nth_drop_Suc [OF k] seg by simp
  have "map_of (seg_dir segs torn) (seg_name (i, t, ps)) = Some (concat (map Encode ps) @ ?torn)"
    using map_of_seg_dir [OF assms(1) k, of torn] seg by (simp add: seg_content_def)
  with walk IH show ?case unfolding drop by (auto split: prod.split bool.split walked.split)
qed simp

text \<open>Where the collector of \<^verbatim>\<open>ReadFrom\<close> stands.\<close>

definition collected :: "int \<Rightarrow> binlog_entity list \<Rightarrow> binlog_entity list \<times> bool \<Rightarrow> bool" where
  "collected nums es = (\<lambda>(ents, cancelled). ents = take (nat nums) es \<and> (cancelled \<longrightarrow> int (length ents) = nums))"

lemma collect_simps:
  "ctx_Done (collect nums) st = (snd st, st)"
  "sendBinlog (collect nums) e st = (None, (let ents = (if int (length (fst st)) < nums then fst st @ [e] else fst st)
     in (ents, snd st \<or> int (length ents) = nums)))"
  by (auto simp: collect_def Let_def split: prod.split)

lemma collected_more: "collected nums es st \<Longrightarrow> snd st \<Longrightarrow> collected nums (es @ es') st"
  by (auto simp: collected_def)

lemma collected_send:
  assumes "collected nums es st" "0 \<le> nums"
  shows "collected nums (es @ [e]) (snd (sendBinlog (collect nums) e st))"
  using assms by (auto simp: collected_def collect_simps Let_def)

lemma deliver_collect:
  assumes "0 \<le> nums"
  shows "collected nums es st \<Longrightarrow>
    \<exists>st'. deliver (collect nums) es' st = (if snd st' then WalkDone else WalkEOF, st') \<and> collected nums (es @ es') st'"
proof (induction es' arbitrary: es st)
  case Nil
  then show ?case by (intro exI [of _ st]) (simp add: collect_simps)
next
  case (Cons e es')
  show ?case
  proof (cases "snd st")
    case True
    then show ?thesis using collected_more [OF Cons.prems True] by (intro exI [of _ st]) (simp add: collect_simps(1))
  next
    case False
    let ?st = "snd (sendBinlog (collect nums) e st)"
    have "collected nums (es @ [e]) ?st" by (rule collected_send [OF Cons.prems assms])
    from Cons.IH [OF this] obtain st' where
      st': "deliver (collect nums) es' ?st = (if snd st' then WalkDone else WalkEOF, st')" "collected nums ((es @ [e]) @ es') st'"
      by (elim exE conjE)
    moreover have "deliver (collect nums) (e # es') st = deliver (collect nums) es' ?st"
      using False by (simp add: collect_simps(1)) (simp add: collect_simps(2))
    ultimately show ?thesis by (intro exI [of _ st']) simp
  qed
qed

lemma deliver_files_collect:
  assumes "0 \<le> nums"
  shows "collected nums es st \<Longrightarrow> \<exists>st'. deliver_files (collect nums) ess st = (None, st') \<and> collected nums (es @ concat ess) st'"
proof (induction ess arbitrary: es st)
  case Nil
  then show ?case by auto
next
  case (Cons es' ess)
  show ?case
  proof (cases "snd st")
    case True
    then show ?thesis using collected_more [OF Cons.prems True] by (intro exI [of _ st]) (simp add: collect_simps(1))
  next
    case False
    obtain st' where st': "deliver (collect nums) es' st = (if snd st' then WalkDone else WalkEOF, st')" "collected nums (es @ es') st'"
      using deliver_collect [OF assms Cons.prems] by blast
    show ?thesis
    proof (cases "snd st'")
      case True
      with st' False show ?thesis using collected_more [OF st'(2) True, of "concat ess"] by (simp add: collect_simps)
    next
      case False
      with Cons.IH [OF st'(2)] st' \<open>\<not> snd st\<close> show ?thesis by (simp add: collect_simps)
    qed
  qed
qed

abbreviation entities :: "segment list \<Rightarrow> binlog_entity list" where
  "entities segs \<equiv> concat (map (\<lambda>(i, t, ps). seg_entities i 0 ps) segs)"

abbreviation enc_length :: "bytes list \<Rightarrow> nat" where
  "enc_length ps \<equiv> length (concat (map Encode ps))"

lemma Walk_deliver:
  assumes "good_segs n segs" "torn_record torn" "segs = ss1 @ (i, t, ps1 @ ps2) # ss2"
  shows "Walk w (seg_dir segs torn) \<lparr>Suffix = i, pos_Offset = int (enc_length ps1)\<rparr> s =
    deliver_files w (seg_entities i (enc_length ps1) ps2 # map (\<lambda>(i, t, ps). seg_entities i 0 ps) ss2) s"
proof -
  let ?k = "length ss1" and ?torn = "if ss2 = [] then torn else []"
  have k: "?k < length segs" "segs ! ?k = (i, t, ps1 @ ps2)" "segs \<noteq> []" using assms(3) by auto
  have "good_segs n (ss1 @ (i, t, ps1 @ ps2) # ss2)" using assms(1,3) by simp
  then have i: "i = n + ?k" "list_all encodable ps2" by (simp_all add: good_segs_append)
  have walk: "walk_file w (ss2 = []) i (concat (map Encode (ps1 @ ps2)) @ ?torn) (enc_length ps1) s = deliver w (seg_entities i (enc_length ps1) ps2) s" for s
    using walk_file_deliver [of ?torn "ss2 = []" ps2 w i "concat (map Encode ps1)" s] i(2) assms(2) by auto
  have rest: "walk_files w (seg_dir segs torn) (map seg_name ss2) (Suc i) 0 s = deliver_files w (map (\<lambda>(i, t, ps). seg_entities i 0 ps) ss2) s" for s
    using walk_files_deliver [OF assms(1,2), of "Suc ?k" w s] assms(3) i(1) by simp
  have "map_of (seg_dir segs torn) (seg_name (i, t, ps1 @ ps2)) = Some (concat (map Encode (ps1 @ ps2)) @ ?torn)"
    using map_of_seg_dir [OF assms(1) k(1), of torn] k(2) assms(3) by (simp add: seg_content_def)
  moreover have "drop ?k (map seg_name segs) = seg_name (i, t, ps1 @ ps2) # map seg_name ss2" using assms(3) by simp
  moreover have "SearchIndex (map seg_name segs) i = Some ?k" using SearchIndex_seg_dir [OF assms(1) k(1)] i(1) by simp
  ultimately show ?thesis using walk rest
    by (simp add: Walk_def ReadBinlogNames_seg_dir [OF assms(1) k(3)] del: map_append concat_append split: prod.split bool.split walked.split)
qed

lemma ReadFrom_segs:
  assumes "good_segs n segs" "torn_record torn" "segs = ss1 @ (i, t, ps1 @ ps2) # ss2" "0 \<le> nums"
  shows "ReadFrom \<lparr>Suffix = i, pos_Offset = int (enc_length ps1)\<rparr> nums (seg_dir segs torn) =
    (take (nat nums) (seg_entities i (enc_length ps1) ps2 @ entities ss2), None)"
proof -
  have "collected nums [] ([], False)" by (simp add: collected_def)
  from deliver_files_collect [OF assms(4) this, of "seg_entities i (enc_length ps1) ps2 # map (\<lambda>(i, t, ps). seg_entities i 0 ps) ss2"]
  obtain st' where "deliver_files (collect nums) (seg_entities i (enc_length ps1) ps2 # map (\<lambda>(i, t, ps). seg_entities i 0 ps) ss2) ([], False) = (None, st')"
    "collected nums (seg_entities i (enc_length ps1) ps2 @ entities ss2) st'" by (elim exE conjE) simp
  moreover obtain ents c where "st' = (ents, c)" by (cases st')
  ultimately show ?thesis using Walk_deliver [OF assms(1-3), of "collect nums" "([], False)"] assms(4)
    by (simp add: ReadFrom_def collected_def del: deliver_files.simps take_append)
qed

lemma seg_entities_split:
  "seg_entities i offset ps = es1 @ e # es2 \<Longrightarrow>
     \<exists>ps1 ps2. ps = ps1 @ ps2 \<and> ent_Pos e = \<lparr>Suffix = i, pos_Offset = int (offset + enc_length ps1)\<rparr> \<and>
       es2 = seg_entities i (offset + enc_length ps1) ps2"
proof (induction ps arbitrary: offset es1)
  case (Cons p ps)
  show ?case
  proof (cases es1)
    case Nil
    with Cons.prems show ?thesis by (intro exI [of _ "[p]"] exI [of _ ps]) auto
  next
    case (Cons x es1')
    with Cons.prems have "seg_entities i (offset + length (Encode p)) ps = es1' @ e # es2" by simp
    from Cons.IH [OF this] obtain ps1 ps2 where "ps = ps1 @ ps2"
      "ent_Pos e = \<lparr>Suffix = i, pos_Offset = int (offset + length (Encode p) + enc_length ps1)\<rparr>"
      "es2 = seg_entities i (offset + length (Encode p) + enc_length ps1) ps2" by blast
    then show ?thesis by (intro exI [of _ "p # ps1"] exI [of _ ps2]) (simp add: add.assoc)
  qed
qed simp

lemma entities_split:
  "entities segs = es1 @ e # es2 \<Longrightarrow>
     \<exists>ss1 i t ps1 ps2 ss2. segs = ss1 @ (i, t, ps1 @ ps2) # ss2 \<and> ent_Pos e = \<lparr>Suffix = i, pos_Offset = int (enc_length ps1)\<rparr> \<and>
       es2 = seg_entities i (enc_length ps1) ps2 @ entities ss2"
proof (induction segs arbitrary: es1)
  case (Cons seg segs)
  obtain i t ps where seg: "seg = (i, t, ps)" by (cases seg)
  with Cons.prems have eq: "seg_entities i 0 ps @ entities segs = es1 @ e # es2" by simp
  then consider us where "es1 = seg_entities i 0 ps @ us" "entities segs = us @ e # es2"
    | us where "seg_entities i 0 ps = es1 @ e # us" "es2 = us @ entities segs"
    by (auto simp: append_eq_append_conv2 append_eq_Cons_conv Cons_eq_append_conv)
  then show ?case
  proof cases
    case 1
    from Cons.IH [OF 1(2)] obtain ss1 j u ps1 ps2 ss2 where "segs = ss1 @ (j, u, ps1 @ ps2) # ss2"
      "ent_Pos e = \<lparr>Suffix = j, pos_Offset = int (enc_length ps1)\<rparr>" "es2 = seg_entities j (enc_length ps1) ps2 @ entities ss2" by blast
    then show ?thesis by (intro exI [of _ "seg # ss1"] exI [of _ j] exI [of _ u] exI [of _ ps1] exI [of _ ps2] exI [of _ ss2]) simp
  next
    case 2
    from seg_entities_split [OF 2(1)] obtain ps1 ps2 where "ps = ps1 @ ps2"
      "ent_Pos e = \<lparr>Suffix = i, pos_Offset = int (enc_length ps1)\<rparr>" "us = seg_entities i (enc_length ps1) ps2" by auto
    with 2 seg show ?thesis by (intro exI [of _ "[]"] exI [of _ i] exI [of _ t] exI [of _ ps1] exI [of _ ps2] exI [of _ segs]) simp
  qed
qed simp

section \<open>Writing\<close>

text \<open>The state of a binlogger whose writes have succeeded: the directory holds complete records, the descriptor and the encoder stand at the end of
  the last file.\<close>

definition bl_inv :: "nat \<Rightarrow> segment list \<Rightarrow> binlogger \<Rightarrow> bool" where
  "bl_inv n segs b \<longleftrightarrow> good_segs n segs \<and> segs \<noteq> [] \<and> bl_dir b = seg_dir segs [] \<and>
     (case last segs of (i, t, ps) \<Rightarrow>
        bl_file b = BinlogName i t \<and> lastSuffix b = i \<and> file_pos b = enc_length ps \<and> encoder_offset b = int (enc_length ps)) \<and>
     encoder_offset b < 2 ^ 62 \<and> maxFileSize b < 2 ^ 62 \<and> bl_io b = [] \<and> list_all good_time (bl_clock b)"

lemma good_time_next: "list_all good_time clock \<Longrightarrow> good_time (next_time clock) \<and> list_all good_time (tl clock)"
  by (cases clock) (auto simp: next_time_def good_time_def is_digit_def)

lemma good_segs_snoc:
  assumes "good_segs n segs" "segs \<noteq> []" "last segs = (i, t, ps)"
  shows "segs = butlast segs @ [(i, t, ps)]" "i = n + length (butlast segs)" "i < 10 ^ 16" "good_time t" "list_all encodable ps"
    "good_segs n (butlast segs)"
proof -
  show eq: "segs = butlast segs @ [(i, t, ps)]" using assms by (metis append_butlast_last_id)
  have "good_segs n (butlast segs @ [(i, t, ps)])" using assms(1) eq by simp
  then show "i = n + length (butlast segs)" "i < 10 ^ 16" "good_time t" "list_all encodable ps" "good_segs n (butlast segs)"
    by (simp_all add: good_segs_append)
qed

lemma seg_dir_snoc: "seg_dir (segs @ [(i, t, ps)]) [] = seg_dir segs [] @ [(BinlogName i t, concat (map Encode ps))]"
  by (induction segs) (auto simp: seg_name_def seg_content_def)

lemma update_snoc: "k \<notin> set (map fst xs) \<Longrightarrow> AList.update k v (xs @ [(k, u)]) = xs @ [(k, v)]"
  by (induction xs) auto

lemma seg_name_fresh: "good_segs n segs \<Longrightarrow> n + length segs \<le> i \<Longrightarrow> i < 10 ^ 16 \<Longrightarrow> BinlogName i t \<notin> set (map seg_name segs)"
proof
  assume segs: "good_segs n segs" "n + length segs \<le> i" "i < 10 ^ 16" "BinlogName i t \<in> set (map seg_name segs)"
  then obtain k where k: "k < length segs" "seg_name (segs ! k) = BinlogName i t" by (auto simp: in_set_conv_nth)
  obtain u where "seg_name (segs ! k) = BinlogName (n + k) u" using good_segs_name(3) [OF segs(1) k(1)] by blast
  with BinlogName_less [of "n + k" i u t] k segs show False by simp
qed

lemma encoder_Encode_inv:
  assumes inv: "bl_inv n segs b" and p: "encodable p"
    and last: "last segs = (i, t, ps)"
  shows "\<exists>b'. encoder_Encode p b = (Inr (int (enc_length (ps @ [p]))), b') \<and>
    bl_dir b' = seg_dir (butlast segs @ [(i, t, ps @ [p])]) [] \<and> good_segs n (butlast segs @ [(i, t, ps @ [p])]) \<and>
    bl_file b' = bl_file b \<and> lastSuffix b' = lastSuffix b \<and> maxFileSize b' = maxFileSize b \<and> bl_io b' = [] \<and> bl_clock b' = bl_clock b \<and>
    file_pos b' = enc_length (ps @ [p]) \<and> encoder_offset b' = int (enc_length (ps @ [p]))"
proof -
  have segs: "good_segs n segs" "segs \<noteq> []" and b: "bl_dir b = seg_dir segs []" "bl_file b = BinlogName i t" "file_pos b = enc_length ps"
    "encoder_offset b = int (enc_length ps)" "bl_io b = []" "encoder_offset b < 2 ^ 62"
    using inv last by (auto simp: bl_inv_def)
  note sn = good_segs_snoc [OF segs last]
  have fresh: "BinlogName i t \<notin> set (map fst (seg_dir (butlast segs) []))"
    using seg_name_fresh [OF sn(6), of i t] sn(2,3) by simp
  have dir: "bl_dir b = seg_dir (butlast segs) [] @ [(BinlogName i t, concat (map Encode ps))]"
    using b(1) seg_dir_snoc [of "butlast segs" i t ps] sn(1) by simp
  have look: "map_of (bl_dir b) (BinlogName i t) = Some (concat (map Encode ps))"
    using fresh unfolding dir by (simp add: map_add_def map_of_eq_None_iff [symmetric] del: map_fst_seg_dir)
  have wrap: "wrap_int64 (int (enc_length ps) + int (length p + 16)) = int (enc_length ps) + int (length p + 16)"
    using b(4,6) p by (intro wrap_int64_id) (auto simp: int64_range_def encodable_def)
  have upd: "AList.update (BinlogName i t) (concat (map Encode ps) @ Encode p) (bl_dir b) = seg_dir (butlast segs @ [(i, t, ps @ [p])]) []"
    unfolding dir using update_snoc [OF fresh] by (simp add: seg_dir_snoc)
  have good: "good_segs n (butlast segs @ [(i, t, ps @ [p])])" using sn p by (simp add: good_segs_append)
  show ?thesis using look wrap upd good b
    by (simp add: encoder_Encode_def Let_def write_at_def add.assoc)
qed

lemma seg_entities_append: "seg_entities i offset (ps @ qs) = seg_entities i offset ps @ seg_entities i (offset + enc_length ps) qs"
  by (induction ps arbitrary: offset) (auto simp: add.assoc)

lemma bl_rotate_inv:
  assumes segs: "good_segs n segs" "segs \<noteq> []" "last segs = (i, t, ps)" "Suc i < 10 ^ 16"
    and b: "bl_dir b = seg_dir segs []" "bl_file b = BinlogName i t" "maxFileSize b < 2 ^ 62" "bl_io b = []" "list_all good_time (bl_clock b)"
  shows "\<exists>u b'. bl_rotate b = (None, b') \<and> bl_inv n (segs @ [(Suc i, u, [])]) b'"
proof -
  let ?u = "next_time (bl_clock b)"
  note sn = good_segs_snoc [OF segs(1-3)]
  have n: "Suc i = n + length segs" using sn(2) segs(2) by (cases segs rule: rev_cases) auto
  have u: "good_time ?u" "list_all good_time (tl (bl_clock b))" using good_time_next [OF b(5)] by auto
  have "map_of (bl_dir b) (BinlogName (Suc i) ?u) = None"
    using seg_name_fresh [OF segs(1), of "Suc i" ?u] n segs(4) b(1) by (simp add: map_of_eq_None_iff flip: set_map)
  then have "open_create (BinlogName (Suc i) ?u) (bl_dir b) = seg_dir (segs @ [(Suc i, ?u, [])]) []"
    by (simp add: open_create_def seg_dir_snoc b(1))
  moreover have "good_segs n (segs @ [(Suc i, ?u, [])])" using segs(1,4) n u by (simp add: good_segs_append)
  moreover have "binlogger_seq b = Inr i" using ParseBinlogName_BinlogName [OF sn(3,4)] b(2) by (simp add: binlogger_seq_def)
  ultimately show ?thesis using b u by (intro exI [of _ ?u]) (simp add: bl_rotate_def bl_inv_def Let_def)
qed

lemma WriteTail_inv:
  assumes inv: "bl_inv n segs b" and p: "encodable p" "p \<noteq> []" and room: "n + length segs < 10 ^ 16"
  shows "\<exists>pos segs' b'. WriteTail p b = ((pos, None), b') \<and> bl_inv n segs' b' \<and>
    entities segs' = entities segs @ [\<lparr>Payload = p, ent_Pos = pos\<rparr>] \<and> length segs' \<le> Suc (length segs)"
proof -
  obtain i t ps where last: "last segs = (i, t, ps)" by (cases "last segs")
  let ?segs = "butlast segs @ [(i, t, ps @ [p])]"
  let ?pos = "\<lparr>Suffix = i, pos_Offset = int (enc_length (ps @ [p]))\<rparr>"
  have segs: "good_segs n segs" "segs \<noteq> []" and b: "bl_file b = BinlogName i t" "lastSuffix b = i" "maxFileSize b < 2 ^ 62" "list_all good_time (bl_clock b)"
    using inv last by (auto simp: bl_inv_def)
  note sn = good_segs_snoc [OF segs last]
  have i: "Suc i < 10 ^ 16" using sn(2) room segs(2) by (cases segs rule: rev_cases) auto
  obtain b1 where b1: "encoder_Encode p b = (Inr (int (enc_length (ps @ [p]))), b1)" "bl_dir b1 = seg_dir ?segs []" "good_segs n ?segs"
    "bl_file b1 = BinlogName i t" "lastSuffix b1 = i" "maxFileSize b1 = maxFileSize b" "bl_io b1 = []" "bl_clock b1 = bl_clock b"
    "file_pos b1 = enc_length (ps @ [p])" "encoder_offset b1 = int (enc_length (ps @ [p]))"
    using encoder_Encode_inv [OF inv p(1) last] b by auto
  have ents: "entities ?segs = entities segs @ [\<lparr>Payload = p, ent_Pos = ?pos\<rparr>]"
    by (subst (2) sn(1)) (simp add: seg_entities_append)
  have len: "length ?segs = length segs" using segs(2) by simp
  let ?b = "b1\<lparr>lastOffset := int (enc_length (ps @ [p]))\<rparr>"
  show ?thesis
  proof (cases "int (enc_length (ps @ [p])) < maxFileSize b")
    case True
    then have "WriteTail p b = ((?pos, None), ?b)" using p(2) b1 by (simp add: WriteTail_def Let_def)
    moreover have "bl_inv n ?segs ?b" using b1 b True unfolding bl_inv_def by simp
    ultimately show ?thesis using ents len by (intro exI [of _ ?pos] exI [of _ ?segs] exI [of _ ?b]) simp
  next
    case False
    obtain b' u where rot: "bl_rotate ?b = (None, b')" "bl_inv n (?segs @ [(Suc i, u, [])]) b'"
      using bl_rotate_inv [of n ?segs i t "ps @ [p]" ?b] b1 b i by auto
    then have "WriteTail p b = ((?pos, None), b')" using p(2) b1 False by (simp add: WriteTail_def Let_def)
    with rot ents len show ?thesis by (intro exI [of _ ?pos] exI [of _ "?segs @ [(Suc i, u, [])]"] exI [of _ b']) simp
  qed
qed

fun write_all :: "bytes list \<Rightarrow> binlogger \<Rightarrow> (Pos \<times> go_error option) list \<times> binlogger" where
  "write_all [] b = ([], b)"
| "write_all (p # ps) b = (case WriteTail p b of (r, b) \<Rightarrow> (case write_all ps b of (rs, b) \<Rightarrow> (r # rs, b)))"

lemma write_all_inv:
  assumes "bl_inv n segs b" "list_all (\<lambda>p. encodable p \<and> p \<noteq> []) ps" "n + length segs + length ps \<le> 10 ^ 16"
  shows "\<exists>ents segs' b'. write_all ps b = (map (\<lambda>e. (ent_Pos e, None)) ents, b') \<and> bl_inv n segs' b' \<and>
    entities segs' = entities segs @ ents \<and> map Payload ents = ps"
  using assms
proof (induction ps arbitrary: segs b)
  case Nil
  then show ?case by (intro exI [of _ "[]"] exI [of _ segs]) simp
next
  case (Cons p ps)
  then obtain pos segs1 b1 where w: "WriteTail p b = ((pos, None), b1)" "bl_inv n segs1 b1"
    "entities segs1 = entities segs @ [\<lparr>Payload = p, ent_Pos = pos\<rparr>]" "length segs1 \<le> Suc (length segs)"
    using WriteTail_inv [OF Cons.prems(1), of p] by auto
  then obtain ents segs' b' where "write_all ps b1 = (map (\<lambda>e. (ent_Pos e, None)) ents, b')" "bl_inv n segs' b'"
    "entities segs' = entities segs1 @ ents" "map Payload ents = ps"
    using Cons.IH [OF w(2)] Cons.prems(2,3) by auto
  with w show ?case by (intro exI [of _ "\<lparr>Payload = p, ent_Pos = pos\<rparr> # ents"] exI [of _ segs'] exI [of _ b']) simp
qed

lemma valid_from_segs: "good_segs n segs \<Longrightarrow> m = 0 \<or> n = Suc m \<Longrightarrow> valid_from m (map seg_name segs) = Inr True"
proof (induction n segs arbitrary: m rule: good_segs.induct)
  case (2 n i t ps segs)
  then show ?case using ParseBinlogName_BinlogName [of i t] by (auto simp: seg_name_def)
qed simp

text \<open>Opening a directory, new or with what an earlier process wrote.\<close>

lemma OpenBinlogger_new:
  assumes "maxSize < 2 ^ 62" "list_all good_time clock"
  shows "\<exists>b t. OpenBinlogger [] maxSize [] clock = Inr b \<and> bl_inv 0 [(0, t, [])] b"
  using assms good_time_next [OF assms(2)]
  by (intro exI [of _ "next_time clock"] exI)
    (auto simp: OpenBinlogger_def ReadBinlogNames_def FilterBinlogNames_def bl_inv_def open_create_def Let_def seg_name_def seg_content_def)

lemma OpenBinlogger_again:
  assumes "bl_inv n segs b" "maxSize < 2 ^ 62" "list_all good_time clock"
  shows "\<exists>b'. OpenBinlogger (bl_dir b) maxSize [] clock = Inr b' \<and> bl_inv n segs b' \<and> bl_dir b' = bl_dir b"
proof -
  obtain i t ps where last: "last segs = (i, t, ps)" by (cases "last segs")
  have segs: "good_segs n segs" "segs \<noteq> []" and b: "bl_dir b = seg_dir segs []" "bl_file b = BinlogName i t" "encoder_offset b = int (enc_length ps)"
      "encoder_offset b < 2 ^ 62"
    using assms(1) last by (auto simp: bl_inv_def)
  note sn = good_segs_snoc [OF segs last]
  have "last (map seg_name segs) = BinlogName i t" using last segs(2) by (simp add: last_map seg_name_def)
  moreover have "map_of (seg_dir segs []) (BinlogName i t) = Some (concat (map Encode ps))"
    using map_of_seg_dir [OF segs(1), of "length segs - 1" "[]"] last segs(2) by (simp add: last_conv_nth seg_name_def seg_content_def)
  ultimately show ?thesis using b segs last assms(2,3) valid_from_segs [OF segs(1)] ParseBinlogName_BinlogName [OF sn(3,4)]
    by (simp add: OpenBinlogger_def ReadBinlogNames_seg_dir IsValidBinlog_def open_create_def Let_def bl_inv_def)
qed


text \<open>C8. Binlogs written to a new directory are read back: each write reports a position, and reading from the position of any binlog, or from the start,
  gives the binlogs written after it with their positions, in order and up to the number asked for, whatever the size at which files are rotated; a process that
  opens the directory again leaves it as it was.\<close>

theorem read_after_write:
  assumes "maxSize < 2 ^ 62" "list_all good_time clock" "list_all (\<lambda>p. encodable p \<and> p \<noteq> []) payloads" "length payloads < 10 ^ 16" "0 \<le> nums"
  shows "\<exists>b0 b ents. OpenBinlogger [] maxSize [] clock = Inr b0 \<and> write_all payloads b0 = (map (\<lambda>e. (ent_Pos e, None)) ents, b) \<and>
    map Payload ents = payloads \<and> ReadFrom zero_pos nums (bl_dir b) = (take (nat nums) ents, None) \<and>
    (\<forall>es1 e es2. ents = es1 @ e # es2 \<longrightarrow> ReadFrom (ent_Pos e) nums (bl_dir b) = (take (nat nums) es2, None)) \<and>
    (\<exists>b1. OpenBinlogger (bl_dir b) maxSize [] clock = Inr b1 \<and> bl_dir b1 = bl_dir b)"
proof -
  obtain b0 t where b0: "OpenBinlogger [] maxSize [] clock = Inr b0" "bl_inv 0 [(0, t, [])] b0"
    using OpenBinlogger_new [OF assms(1,2)] by blast
  obtain ents segs b where b: "write_all payloads b0 = (map (\<lambda>e. (ent_Pos e, None)) ents, b)" "bl_inv 0 segs b" "entities segs = ents" "map Payload ents = payloads"
    using write_all_inv [OF b0(2) assms(3)] assms(4) by auto
  have segs: "good_segs 0 segs" "segs \<noteq> []" "bl_dir b = seg_dir segs []" using b(2) by (auto simp: bl_inv_def)
  obtain t' ps ss where "segs = [] @ (0, t', [] @ ps) # ss" using segs(1,2) by (cases segs) auto
  from ReadFrom_segs [OF segs(1) torn_record_Nil this assms(5)] this b(3) segs(3)
  have start: "ReadFrom zero_pos nums (bl_dir b) = (take (nat nums) ents, None)" by auto
  have after: "ReadFrom (ent_Pos e) nums (bl_dir b) = (take (nat nums) es2, None)" if split: "ents = es1 @ e # es2" for es1 e es2
  proof -
    from entities_split [of segs es1 e es2] split b(3) obtain ss1 i t ps1 ps2 ss2 where
      "segs = ss1 @ (i, t, ps1 @ ps2) # ss2" "ent_Pos e = \<lparr>Suffix = i, pos_Offset = int (enc_length ps1)\<rparr>"
      "es2 = seg_entities i (enc_length ps1) ps2 @ entities ss2" by blast
    with ReadFrom_segs [OF segs(1) torn_record_Nil this(1) assms(5)] segs(3) show ?thesis by simp
  qed
  from OpenBinlogger_again [OF b(2) assms(1,2)]
  have again: "\<exists>b1. OpenBinlogger (bl_dir b) maxSize [] clock = Inr b1 \<and> bl_dir b1 = bl_dir b" by blast
  show ?thesis
    by (rule exI [of _ b0], rule exI [of _ b], rule exI [of _ ents], intro conjI allI impI) (rule b0(1) b(1,4) start again | erule after)+
qed

theorem read_after_write_witness:
  "\<exists>b0 b ents. OpenBinlogger [] 40 [] [''20211010101010'', ''20211010101011''] = Inr b0 \<and>
    write_all [[1, 2], [3], [4, 5, 6], [7]] b0 = (map (\<lambda>e. (ent_Pos e, None)) ents, b) \<and>
    map Payload ents = [[1, 2], [3], [4, 5, 6], [7]] \<and> ReadFrom zero_pos 3 (bl_dir b) = (take 3 ents, None)"
proof -
  let ?clock = "[''20211010101010'', ''20211010101011'']" and ?ps = "[[1, 2], [3], [4, 5, 6], [7]] :: bytes list"
  have clock: "list_all good_time ?clock" by code_simp
  have ps: "list_all (\<lambda>p. encodable p \<and> p \<noteq> []) ?ps" "length ?ps < 10 ^ 16" by (simp_all add: encodable_def)
  have bounds: "(40 :: int) < 2 ^ 62" "(0 :: int) \<le> 3" by simp_all
  from read_after_write [OF bounds(1) clock ps bounds(2)] obtain b0 b ents where
    "OpenBinlogger [] 40 [] ?clock = Inr b0" "write_all ?ps b0 = (map (\<lambda>e. (ent_Pos e, None)) ents, b)" "map Payload ents = ?ps"
    "ReadFrom zero_pos 3 (bl_dir b) = (take (nat 3) ents, None)" by (elim exE conjE)
  moreover have "nat 3 = 3" by simp
  ultimately show ?thesis by metis
qed

section \<open>Collecting old files\<close>

lemma remove_files_prefix:
  assumes "distinct (map fst (xs @ ys))" "list_all old (map fst xs)" "\<not> list_ex old rest"
  shows "remove_files old (map fst xs @ rest) (xs @ ys) [] = (ys, [])"
proof -
  have none: "remove_files old rest ys [] = (ys, [])" for ys using assms(3) by (induction rest) auto
  show ?thesis using assms(1,2)
  proof (induction xs)
    case (Cons x xs)
    have "AList.delete (fst x) (x # xs @ ys) = filter (\<lambda>y. fst x \<noteq> fst y) (xs @ ys)" by (simp add: AList.delete_eq case_prod_unfold)
    also have "\<dots> = xs @ ys" using Cons.prems(1) by (intro filter_True) (auto simp del: filter_append dest: imageI [of _ _ fst])
    finally have "AList.delete (fst x) (x # xs @ ys) = xs @ ys" .
    with Cons show ?case by simp
  qed (simp add: none)
qed

lemma seg_dir_append: "ss2 \<noteq> [] \<Longrightarrow> seg_dir (ss1 @ ss2) torn = seg_dir ss1 [] @ seg_dir ss2 torn"
  by (induction ss1) auto

lemma GCByPos_segs:
  assumes inv: "bl_inv n (ss1 @ ss2) b" "ss2 \<noteq> []"
    and old: "n + length ss1 \<le> Suffix pos" and new: "Suffix pos \<le> n + length ss1 \<or> length ss2 = 1"
  shows "bl_dir (GCByPos pos b) = seg_dir ss2 []" "bl_inv (n + length ss1) ss2 (GCByPos pos b)"
proof -
  let ?old = "\<lambda>name. name_index name < Suffix pos"
  have good: "good_segs n (ss1 @ ss2)" and dir: "bl_dir b = seg_dir (ss1 @ ss2) []" and io: "bl_io b = []" using inv(1) by (auto simp: bl_inv_def)
  have good2: "good_segs (n + length ss1) ss2" using good by (simp add: good_segs_append)
  have idx: "name_index (seg_name ((ss1 @ ss2) ! k)) = n + k" if "k < length ss1 + length ss2" for k
    using good_segs_name(1) [OF good] that by simp
  have 1: "list_all ?old (map fst (seg_dir ss1 []))"
  proof -
    have "?old (seg_name (ss1 ! k))" if "k < length ss1" for k using idx [of k] that old by (simp add: nth_append)
    then show ?thesis by (simp add: list_all_length)
  qed
  have 2: "\<not> list_ex ?old (butlast (map seg_name ss2))"
  proof
    assume "list_ex ?old (butlast (map seg_name ss2))"
    then obtain k where k: "k < length ss2 - 1" "?old (seg_name (ss2 ! k))" by (auto simp: list_ex_length nth_butlast)
    with idx [of "length ss1 + k"] new show False by (auto simp: nth_append)
  qed
  have names: "ReadBinlogNames (bl_dir b) = Inr (map seg_name (ss1 @ ss2))"
    using ReadBinlogNames_seg_dir [OF good] inv(2) dir by simp
  have "distinct (map seg_name (ss1 @ ss2))" using seg_names_sorted [OF good] by (simp add: strict_sorted_iff del: map_append)
  then have "distinct (map fst (seg_dir ss1 [] @ seg_dir ss2 []))" by simp
  from remove_files_prefix [OF this 1 2] have
    "remove_files ?old (butlast (map seg_name (ss1 @ ss2))) (bl_dir b) [] = (seg_dir ss2 [], [])"
    using inv(2) by (simp add: dir seg_dir_append butlast_append)
  then show "bl_dir (GCByPos pos b) = seg_dir ss2 []" "bl_inv (n + length ss1) ss2 (GCByPos pos b)"
    using names io inv good2 by (simp_all add: GCByPos_def gc_files_def bl_inv_def)
qed

text \<open>C32. Collecting the files before a position keeps every binlog from that file on, and the last file whatever the position is: reading from any position in the
  files kept gives what it gave before, and the binlogger goes on from a directory of complete records.\<close>

theorem gc_keeps_later_files:
  assumes "bl_inv n (ss1 @ ss2) b" "ss2 \<noteq> []" "Suffix pos = n + length ss1 \<or> (n + length ss1 \<le> Suffix pos \<and> length ss2 = 1)"
    "(i, t, ps1 @ ps2) \<in> set ss2" "0 \<le> nums"
  shows "bl_inv (n + length ss1) ss2 (GCByPos pos b) \<and>
    ReadFrom \<lparr>Suffix = i, pos_Offset = int (enc_length ps1)\<rparr> nums (bl_dir (GCByPos pos b)) =
      ReadFrom \<lparr>Suffix = i, pos_Offset = int (enc_length ps1)\<rparr> nums (bl_dir b)"
proof -
  have segs: "good_segs n (ss1 @ ss2)" "good_segs (n + length ss1) ss2" "bl_dir b = seg_dir (ss1 @ ss2) []"
    using assms(1) by (auto simp: bl_inv_def good_segs_append)
  obtain us vs where ss2: "ss2 = us @ (i, t, ps1 @ ps2) # vs" using assms(4) by (meson split_list)
  then have "ss1 @ ss2 = (ss1 @ us) @ (i, t, ps1 @ ps2) # vs" by simp
  from ReadFrom_segs [OF segs(1) torn_record_Nil this assms(5)] ReadFrom_segs [OF segs(2) torn_record_Nil ss2 assms(5)]
    GCByPos_segs [OF assms(1,2)] assms(3) segs(3)
  show ?thesis by auto
qed

theorem gc_keeps_later_files_witness:
  "\<exists>b. bl_inv 0 [(0, ''20211010101010'', [[1]]), (1, ''20211010101011'', [[2], [3]])] b \<and>
    ReadFrom \<lparr>Suffix = 1, pos_Offset = 17\<rparr> 5 (bl_dir (GCByPos \<lparr>Suffix = 1, pos_Offset = 0\<rparr> b)) = ReadFrom \<lparr>Suffix = 1, pos_Offset = 17\<rparr> 5 (bl_dir b)"
proof -
  let ?ss1 = "[(0, ''20211010101010'', [[1]])] :: segment list" and ?ss2 = "[(1, ''20211010101011'', [[2]] @ [[3]])] :: segment list"
  let ?b = "\<lparr>bl_dir = seg_dir (?ss1 @ ?ss2) [], maxFileSize = 100, encoder_offset = 34, lastSuffix = 1, lastOffset = 34,
    bl_file = BinlogName 1 ''20211010101011'', file_pos = 34, bl_io = [], bl_clock = []\<rparr>"
  have "good_time ''20211010101010''" "good_time ''20211010101011''" by code_simp+
  then have inv: "bl_inv 0 (?ss1 @ ?ss2) ?b" by (simp add: bl_inv_def encodable_def)
  have "ReadFrom \<lparr>Suffix = 1, pos_Offset = int (enc_length [[2]])\<rparr> 5 (bl_dir (GCByPos \<lparr>Suffix = 1, pos_Offset = 0\<rparr> ?b)) =
      ReadFrom \<lparr>Suffix = 1, pos_Offset = int (enc_length [[2]])\<rparr> 5 (bl_dir ?b)"
    using gc_keeps_later_files [OF inv, of "\<lparr>Suffix = 1, pos_Offset = 0\<rparr>" 1 "''20211010101011''" "[[2]]" "[[3]]" 5] by simp
  moreover have "int (enc_length [[2]]) = 17" by simp
  ultimately have "ReadFrom \<lparr>Suffix = 1, pos_Offset = 17\<rparr> 5 (bl_dir (GCByPos \<lparr>Suffix = 1, pos_Offset = 0\<rparr> ?b)) =
      ReadFrom \<lparr>Suffix = 1, pos_Offset = 17\<rparr> 5 (bl_dir ?b)" by (simp only:)
  moreover have "?ss1 @ ?ss2 = [(0, ''20211010101010'', [[1]]), (1, ''20211010101011'', [[2], [3]])]" by simp
  ultimately show ?thesis using inv by metis
qed

end
