(* ===== verification/Translator.thy ===== *)
theory Translator
  imports DrainerSchema LoaderDML Wire
begin

text \<open>
  \<^verbatim>\<open>drainer/translator\<close>: the rows of a binlog become the statements of a transaction for the loader (\<^verbatim>\<open>mysql.go\<close>, \<^verbatim>\<open>translator.go\<close>,
  \<^verbatim>\<open>sequence_iterator.go\<close>). The encoding of rows and the values in them are TiDB's: a parameter \<open>codec\<close> has the functions of its packages that the
  code calls, and \<open>'d\<close> is the type of its values, \<^verbatim>\<open>types.Datum\<close>. Maps by column ID are association lists.
\<close>

section \<open>Mutations\<close>

datatype MutationType = MutInsert | MutUpdate | MutDeleteRow | MutOther nat

record TableMutation =
  TableId :: int
  InsertedRows :: "bytes list"
  UpdatedRows :: "bytes list"
  DeletedRows :: "bytes list"
  Sequence :: "MutationType list"

record PrewriteValue =
  pv_SchemaVersion :: int
  Mutations :: "TableMutation list"

record sequenceIterator =
  mutation :: TableMutation
  idx :: nat
  insertIdx :: nat
  deleteIdx :: nat
  updateIdx :: nat

definition newSequenceIterator :: "TableMutation \<Rightarrow> sequenceIterator" where
  "newSequenceIterator m = \<lparr>mutation = m, idx = 0, insertIdx = 0, deleteIdx = 0, updateIdx = 0\<rparr>"

definition index_row :: "bytes list \<Rightarrow> nat \<Rightarrow> go_error + bytes" where
  "index_row rows i = (if i < length rows then Inr (rows ! i) else Inl (Panic ''index out of range''))"

definition si_next :: "sequenceIterator \<Rightarrow> (go_error + MutationType \<times> bytes) \<times> sequenceIterator" where
  "si_next si =
     (if idx si \<ge> length (Sequence (mutation si)) then (Inl EOF, si)
      else
        let tp = Sequence (mutation si) ! idx si;
            si = si\<lparr>idx := Suc (idx si)\<rparr>;
            row = map_sum id (Pair tp)
        in case tp of
             MutInsert \<Rightarrow> (row (index_row (InsertedRows (mutation si)) (insertIdx si)), si\<lparr>insertIdx := Suc (insertIdx si)\<rparr>)
           | MutUpdate \<Rightarrow> (row (index_row (UpdatedRows (mutation si)) (updateIdx si)), si\<lparr>updateIdx := Suc (updateIdx si)\<rparr>)
           | MutDeleteRow \<Rightarrow> (row (index_row (DeletedRows (mutation si)) (deleteIdx si)), si\<lparr>deleteIdx := Suc (deleteIdx si)\<rparr>)
           | MutOther _ \<Rightarrow> (Inl (ErrMsg ''unknown mutation type''), si))"

section \<open>Values\<close>

record 'd codec =
  DecodeOne :: "bytes \<Rightarrow> go_error + bytes \<times> 'd"
  CutOne :: "bytes \<Rightarrow> go_error + bytes \<times> bytes"
  DecodeRowToDatumMap :: "bytes \<Rightarrow> (int \<times> field_type) list \<Rightarrow> go_error + (int \<times> 'd) list"
  Unflatten :: "'d \<Rightarrow> field_type \<Rightarrow> go_error + 'd"
  DecodeColumnValue :: "bytes \<Rightarrow> field_type \<Rightarrow> go_error + 'd"
  ParseEnumName :: "string list \<Rightarrow> string \<Rightarrow> go_error + 'd"
  ParseSetName :: "string list \<Rightarrow> string \<Rightarrow> go_error + 'd"
  GetZeroValue :: "ColumnInfo \<Rightarrow> 'd"
  GetValue :: "'d \<Rightarrow> go_value"
  NewDatum :: "go_value \<Rightarrow> 'd"
  SprintV :: "'d \<Rightarrow> string"
  GetInt64 :: "'d \<Rightarrow> int"
  enum_value :: "'d \<Rightarrow> nat"
  set_value :: "'d \<Rightarrow> nat"
  bit_value :: "'d \<Rightarrow> go_error + nat"
  NilFlag :: byte
  utc_to_local :: "string \<Rightarrow> go_error + string"

definition ToColumnTypeMap :: "ColumnInfo list \<Rightarrow> (int \<times> field_type) list" where
  "ToColumnTypeMap cols = fold (\<lambda>col. AList.update (ci_ID col) (ci_Tp col)) cols []"

definition ToColumnMap :: "ColumnInfo list \<Rightarrow> (int \<times> ColumnInfo) list" where
  "ToColumnMap cols = fold (\<lambda>col. AList.update (ci_ID col) col) cols []"

definition fixType :: "'d codec \<Rightarrow> 'd \<Rightarrow> ColumnInfo \<Rightarrow> 'd" where
  "fixType c data col =
     (if ci_Unsigned col then (case GetValue c data of VInt v \<Rightarrow> NewDatum c (VUint (nat (v mod 2 ^ 64))) | _ \<Rightarrow> data) else data)"

text \<open>The primary key at the front of an inserted row.\<close>

fun decode_pk :: "'d codec \<Rightarrow> TableInfo \<Rightarrow> IndexColumn option list \<Rightarrow> bytes \<Rightarrow> go_error + 'd list \<times> bytes" where
  "decode_pk c table [] remain = Inr ([], remain)"
| "decode_pk c table (col # cols) remain =
     (case DecodeOne c remain of
        Inl err \<Rightarrow> Inl err
      | Inr (remain, aPK) \<Rightarrow>
          (case (case col of
                   None \<Rightarrow> Inr aPK
                 | Some ic \<Rightarrow>
                     if ic_Offset ic < length (ti_Columns table) then Unflatten c aPK (ci_Tp (ti_Columns table ! ic_Offset ic))
                     else Inl (Panic ''index out of range'')) of
             Inl err \<Rightarrow> Inl err
           | Inr aPK \<Rightarrow> (case decode_pk c table cols remain of Inl err \<Rightarrow> Inl err | Inr (pk, remain) \<Rightarrow> Inr (aPK # pk, remain))))"

fun add_pk_columns :: "TableInfo \<Rightarrow> IndexColumn list \<Rightarrow> 'd list \<Rightarrow> (int \<times> 'd) list \<Rightarrow> (int \<times> 'd) list" where
  "add_pk_columns table (idxCol # cols) (v # pk) datums =
     (let col = ti_Columns table ! ic_Offset idxCol in
      add_pk_columns table cols pk
        (if ic_Length idxCol \<noteq> -1 \<or> map_of datums (ci_ID col) \<noteq> None then datums else AList.update (ci_ID col) v datums))"
| "add_pk_columns table _ _ datums = datums"

definition insertRowToDatums :: "'d codec \<Rightarrow> TableInfo \<Rightarrow> bytes \<Rightarrow> go_error + (int \<times> 'd) list" where
  "insertRowToDatums c table row =
     (let commonPKInfo = (if ti_IsCommonHandle table then find ix_Primary (ti_Indices table) else None) in
      if ti_IsCommonHandle table \<and> commonPKInfo = None then Inl (ErrMsg ''Unsupported clustered index without primary key'')
      else
        (case decode_pk c table (case commonPKInfo of None \<Rightarrow> [None] | Some ix \<Rightarrow> map Some (ix_Columns ix)) row of
           Inl err \<Rightarrow> Inl err
         | Inr (pk, remain) \<Rightarrow>
             (case DecodeRowToDatumMap c remain (ToColumnTypeMap (ti_Columns table)) of
                Inl err \<Rightarrow> Inl err
              | Inr datums \<Rightarrow>
                  Inr (case commonPKInfo of
                         Some ix \<Rightarrow> add_pk_columns table (ix_Columns ix) pk datums
                       | None \<Rightarrow>
                           fold (\<lambda>col datums.
                               if (ti_PKIsHandle table \<and> ci_PriKey col) \<or> ci_ID col = implicitColID
                               then AList.update (ci_ID col) (fixType c (hd pk) col) datums else datums)
                             (ti_Columns table) datums))))"

definition default_go_value :: "default_value \<Rightarrow> go_value" where
  "default_go_value v = (case v of NoDefault \<Rightarrow> VNil | DefaultString s \<Rightarrow> VString s | DefaultOther i \<Rightarrow> VInt i)"

definition getEnumDatum :: "'d codec \<Rightarrow> ColumnInfo \<Rightarrow> go_error + 'd" where
  "getEnumDatum c col =
     (case OriginDefault col of DefaultString s \<Rightarrow> ParseEnumName c (ci_Elems col) s | _ \<Rightarrow> Inl (ErrMsg ''unknown type''))"

definition getSetDatum :: "'d codec \<Rightarrow> ColumnInfo \<Rightarrow> go_error + 'd" where
  "getSetDatum c col =
     (case OriginDefault col of DefaultString s \<Rightarrow> ParseSetName c (ci_Elems col) s | _ \<Rightarrow> Inl (ErrMsg ''unknown type''))"

definition transTimestampToLocal :: "'d codec \<Rightarrow> ColumnInfo \<Rightarrow> go_error + string" where
  "transTimestampToLocal c col =
     (case OriginDefault col of DefaultString s \<Rightarrow> utc_to_local c s | _ \<Rightarrow> Inl (ErrMsg ''not string value''))"

definition getDefaultOrZeroValue :: "'d codec \<Rightarrow> TableInfo option \<Rightarrow> ColumnInfo \<Rightarrow> go_error + 'd" where
  "getDefaultOrZeroValue c tableInfo col =
     (let getCol = (case tableInfo of
                      None \<Rightarrow> col
                    | Some t \<Rightarrow> fold (\<lambda>x getCol. if ci_ID x = ci_ID col then x else getCol) (ti_Columns t) col);
          plain = NewDatum c (default_go_value (OriginDefault getCol))
      in if OriginDefault getCol \<noteq> NoDefault
         then
           (if ci_Tp getCol = TypeTimestamp
            then (case transTimestampToLocal c getCol of Inl err \<Rightarrow> Inr plain | Inr s \<Rightarrow> Inr (NewDatum c (VString s)))
            else if ci_Tp getCol = TypeEnum
            then (case getEnumDatum c getCol of Inl err \<Rightarrow> Inr plain | Inr data \<Rightarrow> Inr data)
            else if ci_Tp getCol = TypeSet
            then (case getSetDatum c getCol of Inl err \<Rightarrow> Inr plain | Inr data \<Rightarrow> Inr data)
            else Inr plain)
         else if \<not> ci_NotNull col then Inr (NewDatum c VNil)
         else if ci_Tp col = TypeEnum
         then (case ci_Elems col of [] \<Rightarrow> Inl (Panic ''index out of range'') | e # _ \<Rightarrow> Inr (NewDatum c (VString e)))
         else Inr (GetZeroValue c col))"

section \<open>Updated rows\<close>

text \<open>The loop over the pairs of a column ID and a value. It may not end when a cut leaves as many bytes as before.\<close>

partial_function (option) old_new_loop ::
  "'d codec \<Rightarrow> (int \<times> ColumnInfo) list \<Rightarrow> bytes \<Rightarrow> nat \<Rightarrow> (int \<times> 'd) list \<Rightarrow> (int \<times> 'd) list
     \<Rightarrow> (go_error + nat \<times> (int \<times> 'd) list \<times> (int \<times> 'd) list) option" where
  "old_new_loop c cols b cnt oldRow newRow =
     (if b = [] then Some (Inr (cnt, oldRow, newRow))
      else
        (case CutOne c b of Inl err \<Rightarrow> Some (Inl err) | Inr (data, b) \<Rightarrow>
        (case DecodeOne c data of Inl err \<Rightarrow> Some (Inl err) | Inr (_, cid) \<Rightarrow>
        (case CutOne c b of Inl err \<Rightarrow> Some (Inl err) | Inr (data, b) \<Rightarrow>
           let i = GetInt64 c cid in
           (case map_of cols i of
              None \<Rightarrow> old_new_loop c cols b cnt oldRow newRow
            | Some col \<Rightarrow>
                (case DecodeColumnValue c data (ci_Tp col) of
                   Inl err \<Rightarrow> Some (Inl err)
                 | Inr v \<Rightarrow>
                     let isOld = (map_of oldRow i = None);
                         newRow = (if isOld then newRow else AList.update i v newRow);
                         oldRow = (if isOld then AList.update i v oldRow else oldRow)
                     in if Suc cnt = length cols * 2 then Some (Inr (Suc cnt, oldRow, newRow))
                        else old_new_loop c cols b (Suc cnt) oldRow newRow))))))"

declare old_new_loop.simps [code]

fun fill_missing ::
  "'d codec \<Rightarrow> TableInfo option \<Rightarrow> ColumnInfo list \<Rightarrow> (int \<times> 'd) list \<Rightarrow> (int \<times> 'd) list \<Rightarrow> go_error + (int \<times> 'd) list \<times> (int \<times> 'd) list" where
  "fill_missing c pinfo [] oldRow newRow = Inr (oldRow, newRow)"
| "fill_missing c pinfo (col # cols) oldRow newRow =
     (case getDefaultOrZeroValue c pinfo col of
        Inl err \<Rightarrow> Inl err
      | Inr v \<Rightarrow> fill_missing c pinfo cols (AList.update (ci_ID col) v oldRow) (AList.update (ci_ID col) v newRow))"

abbreviation row_corrupted :: go_error where
  "row_corrupted \<equiv> ErrMsg ''row data is corrupted''"

text \<open>The rows of a message that was unmarshalled are not nil.\<close>

definition DecodeOldAndNewRow ::
  "'d codec \<Rightarrow> bytes \<Rightarrow> (int \<times> ColumnInfo) list \<Rightarrow> bool \<Rightarrow> TableInfo option \<Rightarrow> (go_error + (int \<times> 'd) list \<times> (int \<times> 'd) list) option" where
  "DecodeOldAndNewRow c b cols canAppendDefaultValue pinfo =
     (if b = [] then Some (Inl (Panic ''index out of range''))
      else if hd b = NilFlag c then Some (Inr ([], []))
      else
        Option.bind (old_new_loop c cols b 0 [] []) (\<lambda>r.
          Some (case r of
            Inl err \<Rightarrow> Inl err
          | Inr (cnt, oldRow, newRow) \<Rightarrow>
              let parsedCols = cnt div 2 in
              if length newRow \<noteq> length oldRow then Inl row_corrupted
              else if parsedCols < length cols
              then
                (if \<not> canAppendDefaultValue then Inl row_corrupted
                 else
                   let missingCols = map snd (filter (\<lambda>(i, col). map_of oldRow i = None \<and> map_of newRow i = None) cols) in
                   if int (length missingCols) \<noteq> int (length cols) - int parsedCols then Inl row_corrupted
                   else fill_missing c pinfo missingCols oldRow newRow)
              else Inr (oldRow, newRow))))"

definition writableColumns :: "TableInfo \<Rightarrow> ColumnInfo list" where
  "writableColumns table = filter (\<lambda>col. ci_State col = StatePublic \<and> \<not> ci_Generated col) (ti_Columns table)"

record updateDecoder =
  ud_columns :: "(int \<times> ColumnInfo) list"
  ud_canAppendDefaultValue :: bool
  ud_ptable :: "TableInfo option"

definition newUpdateDecoder :: "TableInfo option \<Rightarrow> TableInfo \<Rightarrow> bool \<Rightarrow> updateDecoder" where
  "newUpdateDecoder ptable table canAppend =
     \<lparr>ud_columns = ToColumnMap (writableColumns table), ud_canAppendDefaultValue = canAppend, ud_ptable = ptable\<rparr>"

definition ud_decode :: "'d codec \<Rightarrow> updateDecoder \<Rightarrow> bytes \<Rightarrow> (go_error + (int \<times> 'd) list \<times> (int \<times> 'd) list) option" where
  "ud_decode c ud b = DecodeOldAndNewRow c b (ud_columns ud) (ud_canAppendDefaultValue ud) (ud_ptable ud)"

section \<open>Statements\<close>

definition formatData :: "'d codec \<Rightarrow> 'd \<Rightarrow> field_type \<Rightarrow> go_error + 'd" where
  "formatData c data ft =
     (if GetValue c data = VNil then Inr data
      else if ft \<in> {TypeDate, TypeDatetime, TypeNewDate, TypeTimestamp, TypeDuration, TypeNewDecimal, TypeJSON}
      then Inr (NewDatum c (VString (SprintV c data)))
      else if ft = TypeEnum then Inr (NewDatum c (VUint (enum_value c data)))
      else if ft = TypeSet then Inr (NewDatum c (VUint (set_value c data)))
      else if ft = TypeBit then (case bit_value c data of Inl err \<Rightarrow> Inl err | Inr n \<Rightarrow> Inr (NewDatum c (VUint n)))
      else Inr data)"

fun generateColumnAndValue :: "'d codec \<Rightarrow> ColumnInfo list \<Rightarrow> (int \<times> 'd) list \<Rightarrow> go_error + (ColumnInfo \<times> go_value) list" where
  "generateColumnAndValue c [] columnValues = Inr []"
| "generateColumnAndValue c (col # cols) columnValues =
     (case map_of columnValues (ci_ID col) of
        None \<Rightarrow> generateColumnAndValue c cols columnValues
      | Some v \<Rightarrow>
          (case formatData c v (ci_Tp col) of
             Inl err \<Rightarrow> Inl err
           | Inr v \<Rightarrow>
               (case generateColumnAndValue c cols columnValues of
                  Inl err \<Rightarrow> Inl err
                | Inr rest \<Rightarrow> Inr ((col, GetValue c v) # rest))))"

fun insert_values :: "'d codec \<Rightarrow> TableInfo option \<Rightarrow> ColumnInfo list \<Rightarrow> (int \<times> 'd) list \<Rightarrow> go_error + (string \<times> go_value) list" where
  "insert_values c ptable [] columnValues = Inr []"
| "insert_values c ptable (col # cols) columnValues =
     (case (case map_of columnValues (ci_ID col) of Some v \<Rightarrow> Inr v | None \<Rightarrow> getDefaultOrZeroValue c ptable col) of
        Inl err \<Rightarrow> Inl err
      | Inr v \<Rightarrow>
          (case formatData c v (ci_Tp col) of
             Inl err \<Rightarrow> Inl err
           | Inr v \<Rightarrow>
               (case insert_values c ptable cols columnValues of
                  Inl err \<Rightarrow> Inl err
                | Inr rest \<Rightarrow> Inr ((ci_Name col, GetValue c v) # rest))))"

definition genMysqlInsert :: "'d codec \<Rightarrow> TableInfo option \<Rightarrow> TableInfo \<Rightarrow> bytes \<Rightarrow> go_error + (string \<times> go_value) list" where
  "genMysqlInsert c ptable table row =
     (case insertRowToDatums c table row of
        Inl err \<Rightarrow> Inl err
      | Inr columnValues \<Rightarrow> insert_values c ptable (writableColumns table) columnValues)"

definition genColumnNameList :: "ColumnInfo list \<Rightarrow> string list" where
  "genColumnNameList cols = map ci_Name cols"

text \<open>The names, the new values and the old values.\<close>

definition genMysqlUpdate ::
  "'d codec \<Rightarrow> TableInfo option \<Rightarrow> TableInfo \<Rightarrow> bytes \<Rightarrow> bool \<Rightarrow> (go_error + string list \<times> go_value list \<times> go_value list) option" where
  "genMysqlUpdate c ptable table row canAppend =
     Option.bind (ud_decode c (newUpdateDecoder ptable table canAppend) row) (\<lambda>r.
       Some (case r of
         Inl err \<Rightarrow> Inl err
       | Inr (oldColumnValues, newColumnValues) \<Rightarrow>
           (case generateColumnAndValue c (writableColumns table) oldColumnValues of
              Inl err \<Rightarrow> Inl err
            | Inr olds \<Rightarrow>
                (case generateColumnAndValue c (writableColumns table) newColumnValues of
                   Inl err \<Rightarrow> Inl err
                 | Inr news \<Rightarrow> Inr (genColumnNameList (map fst news), map snd news, map snd olds)))))"

definition genMysqlDelete :: "'d codec \<Rightarrow> TableInfo \<Rightarrow> bytes \<Rightarrow> go_error + (string \<times> go_value) list" where
  "genMysqlDelete c table row =
     (case DecodeRowToDatumMap c row (ToColumnTypeMap (ti_Columns table)) of
        Inl err \<Rightarrow> Inl err
      | Inr columnValues \<Rightarrow>
          (case generateColumnAndValue c (ti_Columns table) columnValues of
             Inl err \<Rightarrow> Inl err
           | Inr cvs \<Rightarrow> Inr (map (\<lambda>(col, v). (ci_Name col, v)) cvs)))"

definition fill_row :: "(string \<times> go_value) list \<Rightarrow> row" where
  "fill_row nvs = fold (\<lambda>(name, v). AList.update name v) nvs []"

text \<open>The description of a table that the loader sets later.\<close>

definition no_info :: tableInfo where
  "no_info = \<lparr>columns = [], primaryKey = None, uniqueKeys = []\<rparr>"

definition row_dml ::
  "'d codec \<Rightarrow> string \<Rightarrow> string \<Rightarrow> TableInfo option \<Rightarrow> TableInfo \<Rightarrow> bool \<Rightarrow> MutationType \<Rightarrow> bytes \<Rightarrow> (go_error + DML) option" where
  "row_dml c sch tbl pinfo info canAppend tp row =
     (let dml = (\<lambda>tp old new. \<lparr>Database = sch, dml_Table = tbl, dml_Tp = tp, OldValues = old, Values = new, dml_info = no_info\<rparr>) in
      case tp of
        MutInsert \<Rightarrow> Some (map_sum id (\<lambda>nvs. dml InsertDMLType [] (fill_row nvs)) (genMysqlInsert c pinfo info row))
      | MutUpdate \<Rightarrow>
          Option.bind (genMysqlUpdate c pinfo info row canAppend) (\<lambda>r.
            Some (case r of
              Inl err \<Rightarrow> Inl err
            | Inr (names, args, oldArgs) \<Rightarrow>
                if length oldArgs < length names then Inl (Panic ''index out of range'')
                else Inr (dml UpdateDMLType (fill_row (zip names oldArgs)) (fill_row (zip names args)))))
      | MutDeleteRow \<Rightarrow> Some (map_sum id (\<lambda>nvs. dml DeleteDMLType [] (fill_row nvs)) (genMysqlDelete c info row))
      | MutOther _ \<Rightarrow> Some (Inl (ErrMsg ''unknown mutation type'')))"

text \<open>The rows of one table; the iterator takes at most one step more than the sequence is long.\<close>

fun rows_loop :: "nat \<Rightarrow> (MutationType \<Rightarrow> bytes \<Rightarrow> (go_error + 'a) option) \<Rightarrow> sequenceIterator \<Rightarrow> (go_error + 'a list) option" where
  "rows_loop 0 f si = None"
| "rows_loop (Suc n) f si =
     (case si_next si of
        (Inl err, si) \<Rightarrow> Some (if err = EOF then Inr [] else Inl err)
      | (Inr (tp, row), si) \<Rightarrow>
          Option.bind (f tp row) (\<lambda>r.
            case r of
              Inl err \<Rightarrow> Some (Inl err)
            | Inr d \<Rightarrow>
                Option.bind (rows_loop n f si) (\<lambda>r. Some (case r of Inl err \<Rightarrow> Inl err | Inr ds \<Rightarrow> Inr (d # ds)))))"

definition table_dmls :: "'d codec \<Rightarrow> Schema \<Rightarrow> int \<Rightarrow> TableMutation \<Rightarrow> (go_error + DML list) option" where
  "table_dmls c s v mut =
     (case TableByID s (TableId mut) of
        None \<Rightarrow> Some (Inl (ErrMsg ''TableByID empty table id''))
      | Some info \<Rightarrow>
          let pinfo = TableBySchemaVersion s (TableId mut) v;
              canAppend = CanAppendDefaultValue s (TableId mut) v
          in case SchemaAndTableName s (TableId mut) of
               None \<Rightarrow> Some (Inl (ErrMsg ''SchemaAndTableName empty table id''))
             | Some (sch, tbl) \<Rightarrow>
                 rows_loop (Suc (length (Sequence mut))) (row_dml c sch tbl pinfo info canAppend) (newSequenceIterator mut))"

fun all_dmls :: "(TableMutation \<Rightarrow> (go_error + 'a list) option) \<Rightarrow> TableMutation list \<Rightarrow> (go_error + 'a list) option" where
  "all_dmls f [] = Some (Inr [])"
| "all_dmls f (mut # muts) =
     Option.bind (f mut) (\<lambda>r.
       case r of
         Inl err \<Rightarrow> Some (Inl err)
       | Inr ds \<Rightarrow> Option.bind (all_dmls f muts) (\<lambda>r. Some (case r of Inl err \<Rightarrow> Inl err | Inr ds' \<Rightarrow> Inr (ds @ ds'))))"

text \<open>The text of a DDL query is its bytes.\<close>

definition string_of_bytes :: "bytes \<Rightarrow> string" where
  "string_of_bytes bs = map (\<lambda>b. char_of (unat b)) bs"

definition TiBinlogToTxn ::
  "'d codec \<Rightarrow> Schema \<Rightarrow> string \<Rightarrow> string \<Rightarrow> Binlog \<Rightarrow> PrewriteValue \<Rightarrow> bool \<Rightarrow> (go_error + 'meta option Txn) option" where
  "TiBinlogToTxn c s sch tbl tiBinlog pv shouldSkip =
     (if DdlJobId tiBinlog > 0
      then Some (Inr \<lparr>DMLs = [],
             txn_DDL = Some \<lparr>ddl_Database = sch, ddl_Table = tbl, SQL = string_of_bytes (DdlQuery tiBinlog), ShouldSkip = shouldSkip\<rparr>,
             AppliedTS = 0, Metadata = None\<rparr>)
      else
        Option.bind (all_dmls (table_dmls c s (pv_SchemaVersion pv)) (Mutations pv)) (\<lambda>r.
          Some (map_sum id (\<lambda>ds. \<lparr>DMLs = ds, txn_DDL = None, AppliedTS = 0, Metadata = None\<rparr>) r)))"

end
