(* ===== verification/Checkpoint.thy ===== *)
theory Checkpoint
  imports BinlogFile LoaderExec TableFilter
begin

text \<open>
  The checkpoint of the drainer, \<^verbatim>\<open>drainer/checkpoint\<close>: the commit timestamp from which a restarted drainer goes on, kept in a file
  (\<^verbatim>\<open>file.go\<close>) or in a table of a database (\<^verbatim>\<open>mysql.go\<close>). What the two promise to the syncer is the locale
  \<open>checkpoint_store\<close>, which is interpreted on both and on the choice between them.

  The file system and the table are the record \<open>cp_world\<close>: the directory that holds the file, the rows of the checkpoint table, and the
  outcomes of the calls still to be made. A failed statement may have taken effect. \<^verbatim>\<open>BurntSushi/toml\<close> is the field \<open>w_toml\<close>;
  the text of a JSON document is identified with its value.
\<close>

subsection \<open>Values\<close>

type_synonym toml_doc = "bool \<times> int \<times> int"

record toml =
  toml_encode :: "toml_doc \<Rightarrow> go_error + bytes"
  toml_decode :: "bytes \<Rightarrow> toml_doc \<Rightarrow> go_error option \<times> toml_doc"

datatype json = JInvalid | JNull | JBool bool | JNum int | JString string | JObject "(string \<times> json) list"

datatype sql_outcome = SqlOk | SqlErr bool

record cp_world =
  w_toml :: toml
  w_dir :: directory
  w_rand :: "string list"
  w_io :: "io_outcome list"
  w_rows :: "(u64 \<times> json) list"
  w_sql :: "sql_outcome list"

definition w_io_next :: "cp_world \<Rightarrow> io_outcome \<times> cp_world" where
  "w_io_next w = (case io_next (w_io w) of (r, io) \<Rightarrow> (r, w\<lparr>w_io := io\<rparr>))"

definition sql_next :: "cp_world \<Rightarrow> sql_outcome \<times> cp_world" where
  "sql_next w = (case w_sql w of [] \<Rightarrow> (SqlOk, w) | r # rs \<Rightarrow> (r, w\<lparr>w_sql := rs\<rparr>))"

text \<open>A document that was encoded decodes to itself, whatever the structure held before.\<close>

definition toml_law :: "toml \<Rightarrow> bool" where
  "toml_law t \<longleftrightarrow> (\<forall>d. \<exists>bs. toml_encode t d = Inr bs \<and> (\<forall>d'. toml_decode t bs d' = (None, d)))"

definition ErrCheckPointClosed :: go_error where
  "ErrCheckPointClosed = ErrMsg ''CheckPoint already closed''"

subsection \<open>Writing a file atomically\<close>

text \<open>\<^verbatim>\<open>os.CreateTemp\<close> appends a random string to the name and tries again while there is such a file.\<close>

fun create_temp :: "string \<Rightarrow> string list \<Rightarrow> directory \<Rightarrow> (string \<times> string list) option" where
  "create_temp name [] dir = None"
| "create_temp name (r # rs) dir = (if map_of dir (name @ r) \<noteq> None \<or> r = [] then create_temp name rs dir else Some (name @ r, rs))"

definition WriteFileAtomic :: "string \<Rightarrow> bytes \<Rightarrow> cp_world \<Rightarrow> go_error option \<times> cp_world" where
  "WriteFileAtomic filename data w =
     (case w_io_next w of
        (IoErr _, w) \<Rightarrow> (Some ErrIO, w)
      | (IoOk, w) \<Rightarrow>
          (case create_temp filename (w_rand w) (w_dir w) of
             None \<Rightarrow> (Some ErrIO, w\<lparr>w_rand := []\<rparr>)
           | Some (tmp, rand) \<Rightarrow>
               let put = (\<lambda>bs. w_dir_update (AList.update tmp bs));
                   w = w\<lparr>w_rand := rand\<rparr>
               in case w_io_next w of
                    (IoErr n, w) \<Rightarrow> (Some ErrIO, put (take n data) w)
                  | (IoOk, w) \<Rightarrow>
                      let w = put data w in
                      (case w_io_next w of
                         (IoErr _, w) \<Rightarrow>
                           (case w_io_next w of
                              (IoErr _, w) \<Rightarrow> (Some ErrIO, w)
                            | (IoOk, w) \<Rightarrow> (Some ErrIO, w_dir_update (AList.delete tmp) w))
                       | (IoOk, w) \<Rightarrow>
                           (case w_io_next w of
                              (IoErr _, w) \<Rightarrow> (Some ErrIO, w)
                            | (IoOk, w) \<Rightarrow> (None, w_dir_update (AList.update filename data \<circ> AList.delete tmp) w)))))"

subsection \<open>The checkpoint in a file\<close>

record checkpoint_fields =
  cp_closed :: bool
  initialCommitTS :: int
  ConsistentSaved :: bool
  CommitTS :: int
  Version :: int

record FileCheckPoint = checkpoint_fields +
  fc_name :: string

definition or_initial :: "'a checkpoint_fields_scheme \<Rightarrow> 'a checkpoint_fields_scheme" where
  "or_initial sp = (if CommitTS sp = 0 then sp\<lparr>CommitTS := initialCommitTS sp\<rparr> else sp)"

definition fc_Load :: "FileCheckPoint \<Rightarrow> cp_world \<Rightarrow> (go_error option \<times> FileCheckPoint) \<times> cp_world" where
  "fc_Load sp w =
     (if cp_closed sp then ((Some ErrCheckPointClosed, sp), w)
      else
        (case w_io_next w of
           (IoErr _, w) \<Rightarrow> ((Some ErrIO, or_initial sp), w)
         | (IoOk, w) \<Rightarrow>
             (case map_of (w_dir w) (fc_name sp) of
                None \<Rightarrow> ((None, or_initial sp), w)
              | Some content \<Rightarrow>
                  (case w_io_next w of
                     (IoErr _, w) \<Rightarrow> ((Some ErrIO, or_initial sp), w)
                   | (IoOk, w) \<Rightarrow>
                       (case toml_decode (w_toml w) content (ConsistentSaved sp, CommitTS sp, Version sp) of
                          (err, consistent, ts, v) \<Rightarrow>
                            ((err, or_initial (sp\<lparr>ConsistentSaved := consistent, CommitTS := ts, Version := v\<rparr>)), w))))))"

definition NewFile :: "int \<Rightarrow> string \<Rightarrow> cp_world \<Rightarrow> (go_error option \<times> FileCheckPoint) \<times> cp_world" where
  "NewFile initial filePath w =
     fc_Load \<lparr>cp_closed = False, initialCommitTS = initial, ConsistentSaved = False, CommitTS = 0, Version = 0, fc_name = filePath\<rparr> w"

text \<open>The fields that both kinds of checkpoint set first.\<close>

definition set_saved :: "int \<Rightarrow> bool \<Rightarrow> int \<Rightarrow> 'a checkpoint_fields_scheme \<Rightarrow> 'a checkpoint_fields_scheme" where
  "set_saved ts consistent v sp =
     (let sp = sp\<lparr>CommitTS := ts, ConsistentSaved := consistent\<rparr> in if v > Version sp then sp\<lparr>Version := v\<rparr> else sp)"

definition fc_Save :: "int \<Rightarrow> int \<Rightarrow> bool \<Rightarrow> int \<Rightarrow> FileCheckPoint \<Rightarrow> cp_world \<Rightarrow> (go_error option \<times> FileCheckPoint) \<times> cp_world" where
  "fc_Save ts secondaryTS consistent v sp w =
     (if cp_closed sp then ((Some ErrCheckPointClosed, sp), w)
      else
        let sp = set_saved ts consistent v sp in
        case toml_encode (w_toml w) (ConsistentSaved sp, CommitTS sp, Version sp) of
          Inl err \<Rightarrow> ((Some err, sp), w)
        | Inr buf \<Rightarrow> (case WriteFileAtomic (fc_name sp) buf w of (err, w) \<Rightarrow> ((err, sp), w)))"

definition fc_Close :: "FileCheckPoint \<Rightarrow> go_error option \<times> FileCheckPoint" where
  "fc_Close sp = (if cp_closed sp then (Some ErrCheckPointClosed, sp) else (None, sp\<lparr>cp_closed := True\<rparr>))"

subsection \<open>The checkpoint in a table\<close>

text \<open>\<open>TsMap = None\<close> is the nil map.\<close>

record MysqlCheckPoint = checkpoint_fields +
  clusterID :: u64
  mc_schema :: string
  mc_table :: string
  TsMap :: "(string \<times> int) list option"

text \<open>\<^verbatim>\<open>json.Marshal\<close> writes the exported fields in the order of their declaration and a map in the order of its keys.\<close>

definition json_marshal :: "MysqlCheckPoint \<Rightarrow> json" where
  "json_marshal sp =
     JObject [(''consistent'', JBool (ConsistentSaved sp)), (''commitTS'', JNum (CommitTS sp)),
       (''ts-map'', case TsMap sp of None \<Rightarrow> JNull | Some m \<Rightarrow> JObject (map (\<lambda>(k, v). (k, JNum v)) (sort_key fst m))),
       (''schema-version'', JNum (Version sp))]"

text \<open>\<^verbatim>\<open>json.Unmarshal\<close> goes through the document, ignores keys that are no field and values \<^verbatim>\<open>null\<close> (which make a map nil), and
  remembers the first value of a wrong type. The entries of a map are added to those it has.\<close>

definition JsonTypeError :: go_error where
  "JsonTypeError = ErrMsg ''json: cannot unmarshal''"

definition json_int :: "json \<Rightarrow> int \<Rightarrow> go_error option \<times> int" where
  "json_int j old = (case j of JNum i \<Rightarrow> if int64_range i then (None, i) else (Some JsonTypeError, old) | JNull \<Rightarrow> (None, old) | _ \<Rightarrow> (Some JsonTypeError, old))"

fun json_map :: "(string \<times> json) list \<Rightarrow> (string \<times> int) list \<Rightarrow> go_error option \<times> (string \<times> int) list" where
  "json_map [] m = (None, m)"
| "json_map ((k, j) # kjs) m =
     (case json_int j 0 of
        (e, i) \<Rightarrow> (case json_map kjs (AList.update k i m) of (e', m) \<Rightarrow> (case e of None \<Rightarrow> e' | Some _ \<Rightarrow> e, m)))"

definition json_field :: "string \<Rightarrow> json \<Rightarrow> MysqlCheckPoint \<Rightarrow> go_error option \<times> MysqlCheckPoint" where
  "json_field k j sp =
     (if ToLower k = ''consistent''
      then (case j of JBool b \<Rightarrow> (None, sp\<lparr>ConsistentSaved := b\<rparr>) | JNull \<Rightarrow> (None, sp) | _ \<Rightarrow> (Some JsonTypeError, sp))
      else if ToLower k = ''committs'' then (case json_int j (CommitTS sp) of (e, i) \<Rightarrow> (e, sp\<lparr>CommitTS := i\<rparr>))
      else if ToLower k = ''schema-version'' then (case json_int j (Version sp) of (e, i) \<Rightarrow> (e, sp\<lparr>Version := i\<rparr>))
      else if ToLower k = ''ts-map''
      then
        (case j of
           JObject kjs \<Rightarrow>
             (case json_map kjs (case TsMap sp of None \<Rightarrow> [] | Some m \<Rightarrow> m) of (e, m) \<Rightarrow> (e, sp\<lparr>TsMap := Some m\<rparr>))
         | JNull \<Rightarrow> (None, sp\<lparr>TsMap := None\<rparr>)
         | _ \<Rightarrow> (Some JsonTypeError, sp))
      else (None, sp))"

fun json_fields :: "(string \<times> json) list \<Rightarrow> MysqlCheckPoint \<Rightarrow> go_error option \<times> MysqlCheckPoint" where
  "json_fields [] sp = (None, sp)"
| "json_fields ((k, j) # kjs) sp =
     (case json_field k j sp of
        (e, sp) \<Rightarrow> (case json_fields kjs sp of (e', sp) \<Rightarrow> (case e of None \<Rightarrow> e' | Some _ \<Rightarrow> e, sp)))"

definition json_unmarshal :: "json \<Rightarrow> MysqlCheckPoint \<Rightarrow> go_error option \<times> MysqlCheckPoint" where
  "json_unmarshal j sp =
     (case j of
        JInvalid \<Rightarrow> (Some (ErrMsg ''invalid character''), sp)
      | JNull \<Rightarrow> (None, sp)
      | JObject kjs \<Rightarrow> json_fields kjs sp
      | _ \<Rightarrow> (Some JsonTypeError, sp))"

definition mc_Load :: "MysqlCheckPoint \<Rightarrow> cp_world \<Rightarrow> (go_error option \<times> MysqlCheckPoint) \<times> cp_world" where
  "mc_Load sp w =
     (if cp_closed sp then ((Some ErrCheckPointClosed, sp), w)
      else
        (case sql_next w of
           (SqlErr _, w) \<Rightarrow> ((Some ErrIO, or_initial sp), w)
         | (SqlOk, w) \<Rightarrow>
             (case map_of (w_rows w) (clusterID sp) of
                None \<Rightarrow> ((None, or_initial (sp\<lparr>CommitTS := initialCommitTS sp\<rparr>)), w)
              | Some str \<Rightarrow> (case json_unmarshal str sp of (err, sp) \<Rightarrow> ((err, or_initial sp), w)))))"

text \<open>One execution of \<^verbatim>\<open>replace into ... values(clusterID, '...')\<close>.\<close>

definition exec_replace :: "u64 \<Rightarrow> json \<Rightarrow> cp_world \<Rightarrow> go_error option \<times> cp_world" where
  "exec_replace i str w =
     (case sql_next w of
        (SqlOk, w) \<Rightarrow> (None, w_rows_update (AList.update i str) w)
      | (SqlErr took_effect, w) \<Rightarrow> (Some ErrIO, if took_effect then w_rows_update (AList.update i str) w else w))"

definition mc_Save :: "int \<Rightarrow> int \<Rightarrow> bool \<Rightarrow> int \<Rightarrow> MysqlCheckPoint \<Rightarrow> cp_world \<Rightarrow> (go_error option \<times> MysqlCheckPoint) \<times> cp_world" where
  "mc_Save ts secondaryTS consistent v sp w =
     (if cp_closed sp then ((Some ErrCheckPointClosed, sp), w)
      else
        let sp = set_saved ts consistent v sp;
            write = (\<lambda>sp. case RetryContext 5 (\<lambda>w. (False, w)) (exec_replace (clusterID sp) (json_marshal sp)) None w of (err, w) \<Rightarrow> ((err, sp), w))
        in if secondaryTS > 0
           then
             (case TsMap sp of
                None \<Rightarrow> ((Some (Panic ''assignment to entry in nil map''), sp), w)
              | Some m \<Rightarrow> write (sp\<lparr>TsMap := Some (AList.update ''secondary-ts'' secondaryTS (AList.update ''primary-ts'' ts m))\<rparr>))
           else write sp)"

definition mc_Close :: "MysqlCheckPoint \<Rightarrow> cp_world \<Rightarrow> (go_error option \<times> MysqlCheckPoint) \<times> cp_world" where
  "mc_Close sp w =
     (if cp_closed sp then ((Some ErrCheckPointClosed, sp), w)
      else (case sql_next w of (SqlOk, w) \<Rightarrow> ((None, sp\<lparr>cp_closed := True\<rparr>), w) | (SqlErr _, w) \<Rightarrow> ((Some ErrIO, sp), w)))"

text \<open>\<^verbatim>\<open>getClusterID\<close> accepts a second row only after rows with the number 0.\<close>

fun cluster_ids :: "u64 list \<Rightarrow> u64 \<Rightarrow> go_error + u64" where
  "cluster_ids [] i = Inr i"
| "cluster_ids (j # js) i = (if i > 0 then Inl (ErrMsg ''there are multi row in checkpoint table'') else cluster_ids js j)"

definition getClusterID :: "cp_world \<Rightarrow> (go_error + u64) \<times> cp_world" where
  "getClusterID w =
     (case sql_next w of
        (SqlErr _, w) \<Rightarrow> (Inl ErrIO, w)
      | (SqlOk, w) \<Rightarrow>
          (case cluster_ids (map fst (w_rows w)) 0 of
             Inl err \<Rightarrow> (Inl err, w)
           | Inr i \<Rightarrow> (if i = 0 then Inl (ErrMsg ''no any checkpoint item'') else Inr i, w)))"

record cp_db_config =
  Host :: string
  User :: string
  Password :: string
  Port :: int

record cp_config =
  CheckpointType :: string
  Db :: "cp_db_config option"
  cfg_Schema :: string
  cfg_Table :: string
  cfg_ClusterID :: u64
  cfg_InitialCommitTS :: int
  CheckPointFile :: string

definition setDefaultConfig :: "cp_config \<Rightarrow> cp_config" where
  "setDefaultConfig cfg =
     (let db = (case Db cfg of None \<Rightarrow> \<lparr>Host = [], User = [], Password = [], Port = 0\<rparr> | Some db \<Rightarrow> db);
          db = (if Host db = [] then db\<lparr>Host := ''127.0.0.1''\<rparr> else db);
          db = (if Port db = 0 then db\<lparr>Port := 3306\<rparr> else db);
          db = (if User db = [] then db\<lparr>User := ''root''\<rparr> else db);
          cfg = cfg\<lparr>Db := Some db\<rparr>;
          cfg = (if cfg_Schema cfg = [] then cfg\<lparr>cfg_Schema := ''tidb_binlog''\<rparr> else cfg)
      in if cfg_Table cfg = [] then cfg\<lparr>cfg_Table := ''checkpoint''\<rparr> else cfg)"

definition newMysql :: "cp_config \<Rightarrow> cp_world \<Rightarrow> (go_error + go_error option \<times> MysqlCheckPoint) \<times> cp_world" where
  "newMysql cfg w =
     (let cfg = setDefaultConfig cfg in
      case sql_next w of
        (SqlErr _, w) \<Rightarrow> (Inl ErrIO, w)
      | (SqlOk, w) \<Rightarrow>
     (case sql_next w of
        (SqlErr _, w) \<Rightarrow> (Inl ErrIO, w)
      | (SqlOk, w) \<Rightarrow>
     (case sql_next w of
        (SqlErr _, w) \<Rightarrow> (Inl ErrIO, w)
      | (SqlOk, w) \<Rightarrow>
          (case (if cfg_ClusterID cfg = 0 then getClusterID w else (Inr (cfg_ClusterID cfg), w)) of
             (Inl err, w) \<Rightarrow> (Inl err, w)
           | (Inr i, w) \<Rightarrow>
               map_prod Inr id
                 (mc_Load \<lparr>cp_closed = False, initialCommitTS = cfg_InitialCommitTS cfg, ConsistentSaved = False, CommitTS = 0, Version = 0,
                    clusterID = i, mc_schema = cfg_Schema cfg, mc_table = cfg_Table cfg, TsMap = Some []\<rparr> w)))))"

subsection \<open>The interface\<close>

datatype CheckPoint = FileCP FileCheckPoint | MysqlCP MysqlCheckPoint

definition NewCheckPoint :: "cp_config \<Rightarrow> cp_world \<Rightarrow> (go_error + CheckPoint) \<times> cp_world" where
  "NewCheckPoint cfg w =
     (if CheckpointType cfg = ''mysql'' \<or> CheckpointType cfg = ''tidb''
      then
        (case newMysql cfg w of
           (Inl err, w) \<Rightarrow> (Inl err, w)
         | (Inr (Some err, sp), w) \<Rightarrow> (Inl err, w)
         | (Inr (None, sp), w) \<Rightarrow> (Inr (MysqlCP sp), w))
      else if CheckpointType cfg = ''file''
      then
        (case NewFile (cfg_InitialCommitTS cfg) (CheckPointFile cfg) w of
           ((Some err, sp), w) \<Rightarrow> (Inl err, w)
         | ((None, sp), w) \<Rightarrow> (Inr (FileCP sp), w))
      else (Inl (ErrMsg ''unsupported checkpoint type''), w))"

fun cp_Save :: "int \<Rightarrow> int \<Rightarrow> bool \<Rightarrow> int \<Rightarrow> CheckPoint \<Rightarrow> cp_world \<Rightarrow> (go_error option \<times> CheckPoint) \<times> cp_world" where
  "cp_Save ts s consistent v (FileCP sp) w = map_prod (map_prod id FileCP) id (fc_Save ts s consistent v sp w)"
| "cp_Save ts s consistent v (MysqlCP sp) w = map_prod (map_prod id MysqlCP) id (mc_Save ts s consistent v sp w)"

fun cp_TS :: "CheckPoint \<Rightarrow> int" where
  "cp_TS (FileCP sp) = CommitTS sp"
| "cp_TS (MysqlCP sp) = CommitTS sp"

fun cp_SchemaVersion :: "CheckPoint \<Rightarrow> int" where
  "cp_SchemaVersion (FileCP sp) = Version sp"
| "cp_SchemaVersion (MysqlCP sp) = Version sp"

fun cp_IsConsistent :: "CheckPoint \<Rightarrow> bool" where
  "cp_IsConsistent (FileCP sp) = ConsistentSaved sp"
| "cp_IsConsistent (MysqlCP sp) = ConsistentSaved sp"

fun cp_Close :: "CheckPoint \<Rightarrow> cp_world \<Rightarrow> (go_error option \<times> CheckPoint) \<times> cp_world" where
  "cp_Close (FileCP sp) w = (map_prod id FileCP (fc_Close sp), w)"
| "cp_Close (MysqlCP sp) w = map_prod (map_prod id MysqlCP) id (mc_Close sp w)"

end
