(* ===== verification/Syncer.thy ===== *)
theory Syncer
  imports Merge Translator Checkpoint
begin

text \<open>
  The syncer of a drainer, \<^verbatim>\<open>drainer/syncer.go\<close>: it takes the merged binlogs one by one, brings the catalogue up to the version each was
  written under, drops what the filters exclude, hands the rest to the downstream syncer and saves how far the downstream has got.

  Two goroutines share the timestamp of the last success. \<open>run_select\<close> is one iteration of the loop of \<^verbatim>\<open>run\<close>, \<open>success_step\<close> and
  \<open>fake_step\<close> are iterations of the loop of \<^verbatim>\<open>handleSuccess\<close>; the relation \<open>sys_step\<close> interleaves them. The downstream syncer is
  an interface (\<^verbatim>\<open>dsync.Syncer\<close>): the outcome of each call of \<^verbatim>\<open>Sync\<close> is an input, the items it accepted are \<open>handed\<close>,
  and it acknowledges them in the order it got them. The protobuf and DDL parsers, the event filter and the clock of a timestamp are third-party
  packages: the record \<open>deps\<close>.
\<close>

section \<open>Items for the downstream\<close>

record Item =
  it_Binlog :: Binlog
  it_PrewriteValue :: "PrewriteValue option"
  it_Schema :: string
  it_Table :: string
  RelayLogPos :: Pos
  it_SchemaVersion :: int
  it_AppliedTS :: int
  it_ShouldSkip :: bool

section \<open>Filters\<close>

datatype EventType = InsertEvent | UpdateEvent | DeleteEvent | NullEvent | DDLEvent nat

datatype filter_action = Ignore | Do

type_synonym event_filter = "string \<Rightarrow> string \<Rightarrow> EventType \<Rightarrow> string \<Rightarrow> go_error + filter_action"

record 'd deps =
  dep_codec :: "'d codec"
  dep_prewrite :: "bytes \<Rightarrow> go_error + PrewriteValue"
  dep_parse :: "string \<Rightarrow> go_error + EventType"
  dep_binlogFilter :: "event_filter option"
  dep_time :: "int \<Rightarrow> int"

record SyncerConfig =
  IgnoreTxnCommitTS :: "int list"
  DestDBType :: string
  cfg_SyncDDL :: bool
  sy_filter :: Filter
  sy_loopback :: LoopBackSync

definition isIgnoreTxnCommitTS :: "int list \<Rightarrow> int \<Rightarrow> bool" where
  "isIgnoreTxnCommitTS ignoreTxnCommitTS ts = list_ex (\<lambda>ignoreTS. ignoreTS = ts) ignoreTxnCommitTS"

definition skipByFilter :: "event_filter option \<Rightarrow> string \<Rightarrow> string \<Rightarrow> EventType \<Rightarrow> string \<Rightarrow> go_error + bool" where
  "skipByFilter bf sch tbl et sql =
     (case bf of
        None \<Rightarrow> Inr False
      | Some f \<Rightarrow> (case f sch tbl et sql of Inl err \<Rightarrow> Inl err | Inr action \<Rightarrow> Inr (action = Ignore)))"

definition skipDDLEvent :: "string \<Rightarrow> string \<Rightarrow> string \<Rightarrow> (string \<Rightarrow> go_error + EventType) \<Rightarrow> event_filter option \<Rightarrow> go_error + bool" where
  "skipDDLEvent sql sch tbl parse bf =
     (if bf = None then Inr False
      else
        (case parse sql of
           Inl _ \<Rightarrow> skipByFilter bf sch tbl NullEvent sql
         | Inr et \<Rightarrow> skipByFilter bf sch tbl et sql))"

text \<open>\<^verbatim>\<open>skipDMLEvent\<close> moves the rows it keeps to the front of the arrays they are in, with two indices into each.\<close>

record compaction =
  c_mut :: TableMutation
  c_insertIdx :: nat
  c_deleteIdx :: nat
  c_updateIdx :: nat
  filteredIdx :: nat
  filteredInsertIdx :: nat
  filteredDeleteIdx :: nat
  filteredUpdateIdx :: nat

definition move_row :: "nat \<Rightarrow> nat \<Rightarrow> bytes list \<Rightarrow> go_error + bytes list" where
  "move_row dst src rows = (if src < length rows then Inr (rows[dst := rows ! src]) else Inl (Panic ''index out of range''))"

definition event_of :: "MutationType \<Rightarrow> go_error + EventType" where
  "event_of tp =
     (case tp of
        MutInsert \<Rightarrow> Inr InsertEvent
      | MutUpdate \<Rightarrow> Inr UpdateEvent
      | MutDeleteRow \<Rightarrow> Inr DeleteEvent
      | MutOther _ \<Rightarrow> Inl (ErrMsg ''unknown mutation type''))"

definition compact_step :: "(EventType \<Rightarrow> go_error + bool) \<Rightarrow> nat \<Rightarrow> compaction \<Rightarrow> go_error + compaction" where
  "compact_step skip i st =
     (let tp = Sequence (c_mut st) ! i in
      case event_of tp of
        Inl err \<Rightarrow> Inl err
      | Inr et \<Rightarrow>
          let st = (case tp of
                      MutInsert \<Rightarrow> st\<lparr>c_insertIdx := c_insertIdx st + 1\<rparr>
                    | MutUpdate \<Rightarrow> st\<lparr>c_updateIdx := c_updateIdx st + 1\<rparr>
                    | _ \<Rightarrow> st\<lparr>c_deleteIdx := c_deleteIdx st + 1\<rparr>)
          in case skip et of
               Inl err \<Rightarrow> Inl err
             | Inr True \<Rightarrow> Inr st
             | Inr False \<Rightarrow>
                 let m = c_mut st;
                     m = m\<lparr>Sequence := (Sequence m)[filteredIdx st := tp]\<rparr>;
                     st = st\<lparr>filteredIdx := filteredIdx st + 1\<rparr>
                 in case tp of
                      MutInsert \<Rightarrow>
                        map_sum id (\<lambda>rows. st\<lparr>c_mut := m\<lparr>InsertedRows := rows\<rparr>, filteredInsertIdx := filteredInsertIdx st + 1\<rparr>)
                          (move_row (filteredInsertIdx st) (c_insertIdx st - 1) (InsertedRows m))
                    | MutUpdate \<Rightarrow>
                        map_sum id (\<lambda>rows. st\<lparr>c_mut := m\<lparr>UpdatedRows := rows\<rparr>, filteredUpdateIdx := filteredUpdateIdx st + 1\<rparr>)
                          (move_row (filteredUpdateIdx st) (c_updateIdx st - 1) (UpdatedRows m))
                    | _ \<Rightarrow>
                        map_sum id (\<lambda>rows. st\<lparr>c_mut := m\<lparr>DeletedRows := rows\<rparr>, filteredDeleteIdx := filteredDeleteIdx st + 1\<rparr>)
                          (move_row (filteredDeleteIdx st) (c_deleteIdx st - 1) (DeletedRows m)))"

text \<open>The loop runs over the length the sequence has at the start.\<close>

fun compact_loop :: "(EventType \<Rightarrow> go_error + bool) \<Rightarrow> nat list \<Rightarrow> compaction \<Rightarrow> go_error + compaction" where
  "compact_loop skip [] st = Inr st"
| "compact_loop skip (i # is) st = (case compact_step skip i st of Inl err \<Rightarrow> Inl err | Inr st \<Rightarrow> compact_loop skip is st)"

definition compact :: "(EventType \<Rightarrow> go_error + bool) \<Rightarrow> TableMutation \<Rightarrow> go_error + TableMutation" where
  "compact skip m =
     map_sum id
       (\<lambda>st. (c_mut st)\<lparr>Sequence := take (filteredIdx st) (Sequence (c_mut st)),
          InsertedRows := take (filteredInsertIdx st) (InsertedRows (c_mut st)),
          UpdatedRows := take (filteredUpdateIdx st) (UpdatedRows (c_mut st)),
          DeletedRows := take (filteredDeleteIdx st) (DeletedRows (c_mut st))\<rparr>)
       (compact_loop skip [0..<length (Sequence m)]
          \<lparr>c_mut = m, c_insertIdx = 0, c_deleteIdx = 0, c_updateIdx = 0, filteredIdx = 0, filteredInsertIdx = 0, filteredDeleteIdx = 0,
           filteredUpdateIdx = 0\<rparr>)"

fun keep_mutations :: "Schema \<Rightarrow> Filter \<Rightarrow> event_filter option \<Rightarrow> TableMutation list \<Rightarrow> go_error + TableMutation list" where
  "keep_mutations s flt bf [] = Inr []"
| "keep_mutations s flt bf (m # ms) =
     (case SchemaAndTableName s (TableId m) of
        None \<Rightarrow> Inl (ErrMsg ''not found table id'')
      | Some (sch, tbl) \<Rightarrow>
          if SkipSchemaAndTable flt sch tbl then keep_mutations s flt bf ms
          else
            (case (if bf = None then Inr m else compact (\<lambda>et. skipByFilter bf sch tbl et []) m) of
               Inl err \<Rightarrow> Inl err
             | Inr m' \<Rightarrow> (case keep_mutations s flt bf ms of Inl err \<Rightarrow> Inl err | Inr ms' \<Rightarrow> Inr (m' # ms'))))"

definition skipDMLEvent :: "PrewriteValue \<Rightarrow> Schema \<Rightarrow> Filter \<Rightarrow> event_filter option \<Rightarrow> go_error + bool \<times> PrewriteValue" where
  "skipDMLEvent pv s flt bf =
     (case keep_mutations s flt bf (Mutations pv) of
        Inl err \<Rightarrow> Inl err
      | Inr muts \<Rightarrow> Inr (muts = [], pv\<lparr>Mutations := muts\<rparr>))"

definition rewriteForOldVersion :: "Schema \<Rightarrow> PrewriteValue \<Rightarrow> PrewriteValue" where
  "rewriteForOldVersion s pv = pv\<lparr>Mutations := filter (\<lambda>m. \<not> IsTruncateTableID s (TableId m)) (Mutations pv)\<rparr>"

section \<open>Transactions that came from this cluster\<close>

fun findLoopBackMark :: "DML list \<Rightarrow> LoopBackSync \<Rightarrow> go_error + bool" where
  "findLoopBackMark [] info = Inr False"
| "findLoopBackMark (dml # dmls) info =
     (if ToLower (Database dml @ ''.'' @ dml_Table dml) = ToLower MarkTableName
      then
        (case map_of (Values dml) ''channel_id'' of
           None \<Rightarrow> findLoopBackMark dmls info
         | Some (VInt i) \<Rightarrow> if i = ChannelID info then Inr True else findLoopBackMark dmls info
         | Some _ \<Rightarrow> Inl (ErrMsg ''wrong type of channelID''))
      else findLoopBackMark dmls info)"

definition loopBackStatus :: "'d codec \<Rightarrow> Schema \<Rightarrow> Binlog \<Rightarrow> PrewriteValue \<Rightarrow> LoopBackSync \<Rightarrow> (go_error + bool) option" where
  "loopBackStatus c s binlog pv info =
     Option.bind (TiBinlogToTxn c s [] [] binlog pv False :: (go_error + unit option Txn) option) (\<lambda>r.
       Some (case r of Inl err \<Rightarrow> Inl err | Inr txn \<Rightarrow> findLoopBackMark (DMLs txn) info))"

section \<open>The state\<close>

text \<open>The two slices \<^verbatim>\<open>fakeBinlogs\<close> and \<^verbatim>\<open>fakeBinlogPreAddTS\<close> grow and shrink together: they are one list of pairs.
  \<open>pushFake\<close> is the binlog to push when \<^verbatim>\<open>pushFakeBinlog\<close> is not nil; \<open>lastFakeCommitTime = None\<close> is the zero time. Times are in
  milliseconds.\<close>

record syncer =
  sy_schema :: Schema
  sy_cp :: CheckPoint
  sy_world :: cp_world
  handed :: "Item list"
  lastSuccessTS :: int
  fakeBinlogs :: "(Binlog \<times> int) list"
  pushFake :: "Binlog option"
  fakeBinlogCh :: "Binlog list"
  lastDDLSchemaVersion :: int
  lastAddCommitTS :: int
  lastFakeCommitTime :: "int option"
  lastSaveTS :: int
  latestVersion :: int
  lastSaveTime :: int

section \<open>Saving the checkpoint\<close>

definition sy_Save :: "int \<Rightarrow> int \<Rightarrow> bool \<Rightarrow> int \<Rightarrow> syncer \<Rightarrow> go_error option \<times> syncer" where
  "sy_Save ts secondaryTS consistent version s =
     (case cp_Save ts secondaryTS consistent version (sy_cp s) (sy_world s) of ((err, cp), w) \<Rightarrow> (err, s\<lparr>sy_cp := cp, sy_world := w\<rparr>))"

text \<open>An error in \<^verbatim>\<open>savePoint\<close> ends the process (\<^verbatim>\<open>log.Fatal\<close>).\<close>

definition savePoint :: "int \<Rightarrow> int \<Rightarrow> int \<Rightarrow> syncer \<Rightarrow> bool \<times> syncer" where
  "savePoint ts secondaryTS version s = (case sy_Save ts secondaryTS False version s of (err, s) \<Rightarrow> (err = None, s))"

text \<open>The end of every iteration of \<^verbatim>\<open>handleSuccess\<close>.\<close>

definition maybe_save :: "int \<Rightarrow> bool \<Rightarrow> int \<Rightarrow> syncer \<Rightarrow> bool \<times> syncer" where
  "maybe_save now saveNow appliedTS s =
     (let ts = lastSuccessTS s in
      if ts > lastSaveTS s \<and> (saveNow \<or> now - lastSaveTime s > 3000)
      then (case savePoint ts appliedTS (latestVersion s) s of (alive, s) \<Rightarrow> (alive, s\<lparr>lastSaveTime := now, lastSaveTS := ts\<rparr>))
      else (True, s))"

definition raise_success :: "int \<Rightarrow> syncer \<Rightarrow> syncer" where
  "raise_success ts s = (if ts > lastSuccessTS s then s\<lparr>lastSuccessTS := ts\<rparr> else s)"

definition success_step :: "int \<Rightarrow> Item \<Rightarrow> syncer \<Rightarrow> bool \<times> syncer" where
  "success_step now item s =
     (let s = (raise_success (CommitTs (it_Binlog item)) s)\<lparr>latestVersion := it_SchemaVersion item\<rparr>;
          saveNow = DdlJobId (it_Binlog item) > 0 \<or> it_AppliedTS item > 0
      in maybe_save now saveNow (if saveNow then it_AppliedTS item else 0) s)"

definition fake_step :: "int \<Rightarrow> Binlog \<Rightarrow> syncer \<Rightarrow> bool \<times> syncer" where
  "fake_step now binlog s = maybe_save now False 0 (raise_success (CommitTs binlog) s)"

definition handle_end :: "syncer \<Rightarrow> bool \<times> syncer" where
  "handle_end s = (if lastSuccessTS s > lastSaveTS s then savePoint (lastSuccessTS s) 0 (latestVersion s) s else (True, s))"

section \<open>The loop\<close>

definition arm_fake :: "syncer \<Rightarrow> syncer" where
  "arm_fake s =
     (case (pushFake s, fakeBinlogs s) of
        (None, (b, preAddTS) # rest) \<Rightarrow> if preAddTS \<le> lastSuccessTS s then s\<lparr>pushFake := Some b, fakeBinlogs := rest\<rparr> else s
      | _ \<Rightarrow> s)"

definition GenFakeBinlog :: "int \<Rightarrow> Binlog" where
  "GenFakeBinlog ts =
     \<lparr>Tp = Rollback, StartTs = ts, CommitTs = ts, PrewriteKey = [], PrewriteValue = [], DdlQuery = [], DdlJobId = 0, DdlSchemaState = 0\<rparr>"

definition appendFakeBinlogIfNeeded :: "(int \<Rightarrow> int) \<Rightarrow> Binlog option \<Rightarrow> int \<Rightarrow> syncer \<Rightarrow> syncer" where
  "appendFakeBinlogIfNeeded time binlog commitTS s =
     (let fakeCommitTime = time commitTS in
      if (case lastFakeCommitTime s of None \<Rightarrow> True | Some t \<Rightarrow> fakeCommitTime - t > 3000)
      then s\<lparr>lastFakeCommitTime := Some fakeCommitTime,
             fakeBinlogs := fakeBinlogs s @ [(case binlog of None \<Rightarrow> GenFakeBinlog commitTS | Some b \<Rightarrow> b, lastAddCommitTS s)]\<rparr>
      else s)"

text \<open>How an iteration goes on: to the next one, or out of the loop with the error of \<^verbatim>\<open>run\<close>.\<close>

datatype loop_exit = Continue syncer | Break "go_error option" syncer

definition zero_item :: "Binlog \<Rightarrow> Item" where
  "zero_item b = \<lparr>it_Binlog = b, it_PrewriteValue = None, it_Schema = [], it_Table = [], RelayLogPos = zero_pos, it_SchemaVersion = 0, it_AppliedTS = 0,
     it_ShouldSkip = False\<rparr>"

definition sync_item :: "go_error option \<Rightarrow> Item \<Rightarrow> syncer \<Rightarrow> loop_exit" where
  "sync_item synced item s =
     (let s = s\<lparr>lastAddCommitTS := CommitTs (it_Binlog item)\<rparr> in
      case synced of Some err \<Rightarrow> Break (Some err) s | None \<Rightarrow> Continue (s\<lparr>handed := handed s @ [item]\<rparr>))"

definition run_dml :: "'d deps \<Rightarrow> SyncerConfig \<Rightarrow> Binlog \<Rightarrow> go_error option \<Rightarrow> syncer \<Rightarrow> loop_exit option" where
  "run_dml d cfg binlog synced s =
     (case dep_prewrite d (PrewriteValue binlog) of
        Inl err \<Rightarrow> Some (Break (Some err) s)
      | Inr preWrite \<Rightarrow>
          let preWrite = rewriteForOldVersion (sy_schema s) preWrite in
          (case handlePreviousDDLJobIfNeed (pv_SchemaVersion preWrite) (sy_schema s) of
             (Some err, schema) \<Rightarrow> Some (Break (Some err) (s\<lparr>sy_schema := schema\<rparr>))
           | (None, schema) \<Rightarrow>
               let s = s\<lparr>sy_schema := schema\<rparr> in
               Option.bind
                 (if LoopbackControl (sy_loopback cfg) then loopBackStatus (dep_codec d) schema binlog preWrite (sy_loopback cfg) else Some (Inr False))
                 (\<lambda>r. Some
                   (case r of
                      Inl err \<Rightarrow> Break (Some err) s
                    | Inr True \<Rightarrow> Continue (appendFakeBinlogIfNeeded (dep_time d) None (CommitTs binlog) s)
                    | Inr False \<Rightarrow>
                        (case skipDMLEvent preWrite schema (sy_filter cfg) (dep_binlogFilter d) of
                           Inl err \<Rightarrow> Break (Some err) s
                         | Inr (ignore, preWrite) \<Rightarrow>
                             if ignore then Continue (appendFakeBinlogIfNeeded (dep_time d) None (CommitTs binlog) s)
                             else sync_item synced ((zero_item binlog)\<lparr>it_PrewriteValue := Some preWrite, it_SchemaVersion := pv_SchemaVersion preWrite\<rparr>) s)))))"

text \<open>\<open>ddl_handled\<close> is the part after the catalogue has been brought up to date.\<close>

definition ddl_handled :: "'d deps \<Rightarrow> SyncerConfig \<Rightarrow> Binlog \<Rightarrow> string \<Rightarrow> string \<Rightarrow> string \<Rightarrow> go_error option \<Rightarrow> syncer \<Rightarrow> loop_exit" where
  "ddl_handled d cfg binlog sql sch tbl synced s =
     (let skip = Continue (appendFakeBinlogIfNeeded (dep_time d) None (CommitTs binlog) s);
          database = (DestDBType cfg = ''tidb'' \<or> DestDBType cfg = ''mysql'')
      in if SkipSchemaAndTable (sy_filter cfg) sch tbl then skip
         else
           (case skipDDLEvent sql sch tbl (dep_parse d) (dep_binlogFilter d) of
              Inl err \<Rightarrow> Break (Some err) s
            | Inr ignore \<Rightarrow>
                if (ignore \<or> \<not> cfg_SyncDDL cfg) \<and> \<not> database then skip
                else sync_item synced
                       ((zero_item binlog)\<lparr>it_Schema := sch, it_Table := tbl, it_ShouldSkip := ignore \<or> \<not> cfg_SyncDDL cfg,
                          it_SchemaVersion := lastDDLSchemaVersion s\<rparr>) s))"

definition run_ddl :: "'d deps \<Rightarrow> SyncerConfig \<Rightarrow> Binlog \<Rightarrow> Job option \<Rightarrow> go_error option \<Rightarrow> syncer \<Rightarrow> loop_exit" where
  "run_ddl d cfg binlog job synced s =
     (let skip = (\<lambda>s. Continue (appendFakeBinlogIfNeeded (dep_time d) None (CommitTs binlog) s)) in
      case job of
        None \<Rightarrow> Break (Some nil_pointer) s
      | Some job \<Rightarrow>
          if skipUnsupportedDDLJob job then skip s
          else
            (case addJob job (sy_schema s) of
               Inl err \<Rightarrow> Break (Some err) s
             | Inr schema \<Rightarrow>
                 let s = s\<lparr>sy_schema := schema\<rparr> in
                 (case BinlogInfo job of
                    None \<Rightarrow> Break (Some nil_pointer) s
                  | Some info \<Rightarrow>
                      let s = s\<lparr>lastDDLSchemaVersion := SchemaVersion info\<rparr> in
                      (case handlePreviousDDLJobIfNeed (SchemaVersion info) schema of
                         (Some err, schema) \<Rightarrow> Break (Some err) (s\<lparr>sy_schema := schema\<rparr>)
                       | (None, schema) \<Rightarrow>
                           let s = s\<lparr>sy_schema := schema\<rparr> in
                           if job_SchemaState job = StateDeleteOnly \<and> job_Type job = ActionDropColumn then skip s
                           else
                             (case getSchemaTableAndDelete (SchemaVersion info) schema of
                                (Inl err, schema) \<Rightarrow> Break (Some err) (s\<lparr>sy_schema := schema\<rparr>)
                              | (Inr (sch, tbl), schema) \<Rightarrow>
                                  ddl_handled d cfg binlog (job_Query job) sch tbl synced (s\<lparr>sy_schema := schema\<rparr>))))))"

definition run_input :: "'d deps \<Rightarrow> SyncerConfig \<Rightarrow> Job binlogItem \<Rightarrow> go_error option \<Rightarrow> syncer \<Rightarrow> loop_exit option" where
  "run_input d cfg b synced s =
     (let binlog = bi_binlog b in
      if isIgnoreTxnCommitTS (IgnoreTxnCommitTS cfg) (CommitTs binlog) then Some (Continue s)
      else if StartTs binlog = CommitTs binlog
      then Some (Continue (appendFakeBinlogIfNeeded (dep_time d) (Some binlog) (CommitTs binlog) s))
      else if DdlJobId binlog = 0 then run_dml d cfg binlog synced s
      else if DdlJobId binlog > 0 then Some (run_ddl d cfg binlog (bi_job b) synced s)
      else Some (Continue s))"

text \<open>The end of \<^verbatim>\<open>run\<close>, after \<^verbatim>\<open>handleSuccess\<close> has returned; \<open>cerr\<close> is the result of \<^verbatim>\<open>dsyncer.Close\<close>.\<close>

definition run_end :: "go_error option \<Rightarrow> go_error option \<Rightarrow> syncer \<Rightarrow> go_error option \<times> syncer" where
  "run_end err cerr s =
     (case err of
        Some e \<Rightarrow> (Some e, s)
      | None \<Rightarrow>
          (case cerr of
             Some e \<Rightarrow> (Some e, s)
           | None \<Rightarrow> sy_Save (cp_TS (sy_cp s)) 0 True (lastDDLSchemaVersion s) s))"

section \<open>Both goroutines and the downstream\<close>

text \<open>\<open>Finished cerr r\<close>: \<^verbatim>\<open>run\<close> has returned \<open>r\<close> after \<^verbatim>\<open>dsyncer.Close\<close> returned \<open>cerr\<close>; \<open>Exited\<close>: the process has ended.\<close>

datatype run_phase = AtTop | InSelect | Draining "go_error option" | Finished "go_error option" "go_error option" | Exited

record system =
  sys_s :: syncer
  run_phase :: run_phase
  received :: "Job binlogItem list"
  acked :: "Item list"

definition handling :: "run_phase \<Rightarrow> bool" where
  "handling p \<longleftrightarrow> (case p of Exited \<Rightarrow> False | Finished _ _ \<Rightarrow> False | _ \<Rightarrow> True)"

definition or_exit :: "bool \<times> syncer \<Rightarrow> system \<Rightarrow> system" where
  "or_exit r y = (if fst r then y\<lparr>sys_s := snd r\<rparr> else y\<lparr>sys_s := snd r, run_phase := Exited\<rparr>)"

inductive sys_step :: "'d deps \<Rightarrow> SyncerConfig \<Rightarrow> system \<Rightarrow> system \<Rightarrow> bool" for d cfg where
  loop_top: "run_phase y = AtTop \<Longrightarrow> sys_step d cfg y (y\<lparr>run_phase := InSelect, sys_s := arm_fake (sys_s y)\<rparr>)"
| stop: "run_phase y = InSelect \<Longrightarrow> sys_step d cfg y (y\<lparr>run_phase := Draining err\<rparr>)"
| push_fake: "run_phase y = InSelect \<Longrightarrow> pushFake (sys_s y) = Some b \<Longrightarrow> length (fakeBinlogCh (sys_s y)) < 1024 \<Longrightarrow>
    sys_step d cfg y (y\<lparr>run_phase := AtTop, sys_s := (sys_s y)\<lparr>pushFake := None, fakeBinlogCh := fakeBinlogCh (sys_s y) @ [b]\<rparr>\<rparr>)"
| input: "run_phase y = InSelect \<Longrightarrow> run_input d cfg b synced (sys_s y) = Some (Continue s) \<Longrightarrow>
    sys_step d cfg y (y\<lparr>run_phase := AtTop, sys_s := s, received := received y @ [b]\<rparr>)"
| input_fails: "run_phase y = InSelect \<Longrightarrow> run_input d cfg b synced (sys_s y) = Some (Break err s) \<Longrightarrow>
    sys_step d cfg y (y\<lparr>run_phase := Draining err, sys_s := s, received := received y @ [b]\<rparr>)"
| success: "handling (run_phase y) \<Longrightarrow> handed (sys_s y) = acked y @ item # rest \<Longrightarrow> int64_range appliedTS \<Longrightarrow>
    sys_step d cfg y (or_exit (success_step now (item\<lparr>it_AppliedTS := appliedTS\<rparr>) (sys_s y)) (y\<lparr>acked := acked y @ [item]\<rparr>))"
| fake: "handling (run_phase y) \<Longrightarrow> fakeBinlogCh (sys_s y) = b # ch \<Longrightarrow>
    sys_step d cfg y (or_exit (fake_step now b ((sys_s y)\<lparr>fakeBinlogCh := ch\<rparr>)) y)"
| channel_closed: "handling (run_phase y) \<Longrightarrow> sys_step d cfg y (or_exit (maybe_save now False 0 (sys_s y)) y)"
| finish: "run_phase y = Draining err \<Longrightarrow> fakeBinlogCh (sys_s y) = [] \<Longrightarrow> handle_end (sys_s y) = (True, s) \<Longrightarrow> run_end err cerr s = (r, s') \<Longrightarrow>
    sys_step d cfg y (y\<lparr>run_phase := Finished cerr r, sys_s := s'\<rparr>)"
| finish_fails: "run_phase y = Draining err \<Longrightarrow> fakeBinlogCh (sys_s y) = [] \<Longrightarrow> handle_end (sys_s y) = (False, s) \<Longrightarrow>
    sys_step d cfg y (y\<lparr>run_phase := Exited, sys_s := s\<rparr>)"

text \<open>The state in which the loop starts. \<^verbatim>\<open>run\<close> first brings the catalogue up to the version of the checkpoint.\<close>

definition run_start :: "Schema \<Rightarrow> CheckPoint \<Rightarrow> cp_world \<Rightarrow> int \<Rightarrow> go_error + syncer" where
  "run_start schema cp w now =
     (case handlePreviousDDLJobIfNeed (cp_SchemaVersion cp + 1) schema of
        (Some err, _) \<Rightarrow> Inl err
      | (None, schema) \<Rightarrow>
          Inr \<lparr>sy_schema = schema, sy_cp = cp, sy_world = w, handed = [], lastSuccessTS = 0, fakeBinlogs = [], pushFake = None, fakeBinlogCh = [],
               lastDDLSchemaVersion = 0, lastAddCommitTS = 0, lastFakeCommitTime = None, lastSaveTS = 0, latestVersion = 0, lastSaveTime = now\<rparr>)"

inductive sys_reach :: "'d deps \<Rightarrow> SyncerConfig \<Rightarrow> syncer \<Rightarrow> system \<Rightarrow> bool" for d cfg s0 where
  start: "sys_reach d cfg s0 \<lparr>sys_s = s0, run_phase = AtTop, received = [], acked = []\<rparr>"
| step: "sys_reach d cfg s0 y \<Longrightarrow> sys_step d cfg y y' \<Longrightarrow> sys_reach d cfg s0 y'"

end
