(* ===== verification/CheckpointProps.thy ===== *)
theory CheckpointProps
  imports Checkpoint
begin

text \<open>
  The contract of a checkpoint: the locale \<open>checkpoint_store\<close>, its interpretation on the checkpoint in a file and on the one in a table, and
  the atomicity of the file that the first rests on.
\<close>

subsection \<open>Writing a file atomically\<close>

lemma w_io_next_fields:
  assumes "w_io_next w = (r, w')"
  shows "w_dir w' = w_dir w" "w_toml w' = w_toml w" "w_rows w' = w_rows w"
  using assms by (auto simp: w_io_next_def split: prod.splits)

lemma create_temp_fresh:
  "create_temp name rs dir = Some (tmp, rs') \<Longrightarrow> map_of dir tmp = None \<and> tmp \<noteq> name"
  by (induction name rs dir rule: create_temp.induct) (auto split: if_splits)

text \<open>The four calls after the choice of a temporary name.\<close>

lemma WriteFileAtomic_cases:
  assumes "WriteFileAtomic filename data w = (r, w')"
  obtains "r \<noteq> None" "w_dir w' = w_dir w" "w_toml w' = w_toml w" "w_rows w' = w_rows w"
  | tmp bs where "r \<noteq> None" "map_of (w_dir w) tmp = None" "tmp \<noteq> filename" "w_dir w' = AList.update tmp bs (w_dir w) \<or> w_dir w' = AList.delete tmp (AList.update tmp bs (w_dir w))"
      "w_toml w' = w_toml w" "w_rows w' = w_rows w"
  | tmp where "r = None" "map_of (w_dir w) tmp = None" "tmp \<noteq> filename" "w_dir w' = AList.update filename data (AList.delete tmp (AList.update tmp data (w_dir w)))"
      "w_toml w' = w_toml w" "w_rows w' = w_rows w"
proof -
  obtain r1 w1 where s1: "w_io_next w = (r1, w1)" by force
  note f1 = w_io_next_fields [OF s1]
  show thesis
  proof (cases "r1 = IoOk \<and> create_temp filename (w_rand w1) (w_dir w1) \<noteq> None")
    case False
    then have "WriteFileAtomic filename data w = (Some ErrIO, if r1 = IoOk then w1\<lparr>w_rand := []\<rparr> else w1)"
      by (cases r1) (simp_all add: WriteFileAtomic_def s1 del: not_None_eq)
    then show thesis using assms f1 that(1) by (auto split: if_splits)
  next
    case True
    then obtain tmp rand where t: "r1 = IoOk" "create_temp filename (w_rand w1) (w_dir w1) = Some (tmp, rand)" by auto
    have fresh: "map_of (w_dir w) tmp = None" "tmp \<noteq> filename" using create_temp_fresh [OF t(2)] f1 by simp_all
    obtain r2 w2 where s2: "w_io_next (w1\<lparr>w_rand := rand\<rparr>) = (r2, w2)" by force
    note f2 = w_io_next_fields [OF s2]
    obtain r3 w3 where s3: "w_io_next (w_dir_update (AList.update tmp data) w2) = (r3, w3)" by force
    note f3 = w_io_next_fields [OF s3]
    obtain r4 w4 where s4: "w_io_next w3 = (r4, w4)" by force
    note f4 = w_io_next_fields [OF s4]
    have eq: "WriteFileAtomic filename data w =
        (case r2 of IoErr n \<Rightarrow> (Some ErrIO, w_dir_update (AList.update tmp (take n data)) w2)
         | IoOk \<Rightarrow> (case r3 of
               IoErr _ \<Rightarrow> (Some ErrIO, case r4 of IoErr _ \<Rightarrow> w4 | IoOk \<Rightarrow> w_dir_update (AList.delete tmp) w4)
             | IoOk \<Rightarrow> (case r4 of IoErr _ \<Rightarrow> (Some ErrIO, w4) | IoOk \<Rightarrow> (None, w_dir_update (AList.update filename data \<circ> AList.delete tmp) w4))))"
      by (simp add: WriteFileAtomic_def s1 t s2 s3 s4 split: io_outcome.split)
    show thesis
    proof (cases r2)
      case (IoErr n)
      show thesis by (rule that(2) [of tmp "take n data"]) (use assms eq IoErr fresh f1 f2 in auto)
    next
      case ok: IoOk
      show thesis
      proof (cases "r3 = IoOk \<and> r4 = IoOk")
        case True
        show thesis by (rule that(3) [of tmp]) (use assms eq ok True fresh f1 f2 f3 f4 in auto)
      next
        case False
        show thesis
          by (rule that(2) [of tmp data]) (use assms eq ok False fresh f1 f2 f3 f4 in \<open>auto split: io_outcome.splits\<close>)
      qed
    qed
  qed
qed

lemma WriteFileAtomic_result:
  assumes "WriteFileAtomic filename data w = (r, w')"
  shows "w_toml w' = w_toml w" "w_rows w' = w_rows w"
    "map_of (w_dir w') filename = (if r = None then Some data else map_of (w_dir w) filename)"
    "map_of (w_dir w) name \<noteq> None \<Longrightarrow> name \<noteq> filename \<Longrightarrow> map_of (w_dir w') name = map_of (w_dir w) name"
  using assms by (rule WriteFileAtomic_cases; auto simp: map_of_delete update_conv')+

subsection \<open>The contract\<close>

text \<open>\<open>stored\<close> is what a restarted process reads: the timestamp, whether the downstream is known to be consistent, and the schema version.
  Whatever happens in a call of \<open>save\<close>, that is the old value or the new one, and it is the new one if the call reports no error.\<close>

locale checkpoint_store =
  fixes ok :: "'c \<Rightarrow> bool" and save :: "int \<Rightarrow> int \<Rightarrow> bool \<Rightarrow> int \<Rightarrow> 'c \<Rightarrow> go_error option \<times> 'c"
    and ts :: "'c \<Rightarrow> int" and version :: "'c \<Rightarrow> int" and initial :: "'c \<Rightarrow> int" and stored :: "'c \<Rightarrow> (int \<times> bool \<times> int) option"
  assumes save_fields: "ok c \<Longrightarrow> int64_range t \<Longrightarrow> int64_range s \<Longrightarrow> int64_range v \<Longrightarrow> save t s b v c = (r, c') \<Longrightarrow>
      ok c' \<and> ts c' = t \<and> version c' = max v (version c) \<and> initial c' = initial c"
    and save_stored: "ok c \<Longrightarrow> int64_range t \<Longrightarrow> int64_range s \<Longrightarrow> int64_range v \<Longrightarrow> save t s b v c = (r, c') \<Longrightarrow>
      stored c' = Some (if t = 0 then initial c else t, b, max v (version c)) \<or> r \<noteq> None \<and> stored c' = stored c"
begin

lemma stored_le:
  assumes "ok c" "int64_range t" "int64_range s" "int64_range v" "save t s b v c = (r, c')" "stored c = Some (x, b0, v0)" "x \<le> m" "0 < t" "t \<le> m"
  shows "\<exists>x b v. stored c' = Some (x, b, v) \<and> x \<le> m"
  using save_stored [OF assms(1-5)] assms(6-9) by auto

lemma save_none:
  assumes "ok c" "int64_range t" "int64_range s" "int64_range v" "save t s b v c = (None, c')" "t \<noteq> 0"
  shows "stored c' = Some (t, b, max v (version c))"
  using save_stored [OF assms(1-5)] assms(6) by simp

lemma inconsistent_until_marked:
  assumes "ok c" "int64_range t" "int64_range s" "int64_range v" "save t s False v c = (r, c')" "stored c = Some (x, False, v0)"
  shows "\<exists>x v. stored c' = Some (x, False, v)"
  using save_stored [OF assms(1-5)] assms(6) by auto

end

subsection \<open>The checkpoint in a file\<close>

definition fc_stored :: "FileCheckPoint \<Rightarrow> cp_world \<Rightarrow> (int \<times> bool \<times> int) option" where
  "fc_stored sp w =
     (case NewFile (initialCommitTS sp) (fc_name sp) (w\<lparr>w_io := []\<rparr>) of
        ((None, sp), _) \<Rightarrow> Some (CommitTS sp, ConsistentSaved sp, Version sp) | _ \<Rightarrow> None)"

definition fc_ok :: "FileCheckPoint \<Rightarrow> cp_world \<Rightarrow> bool" where
  "fc_ok sp w \<longleftrightarrow> \<not> cp_closed sp \<and> toml_law (w_toml w)"

lemma set_saved_fields [simp]:
  "CommitTS (set_saved t b v sp) = t" "ConsistentSaved (set_saved t b v sp) = b" "Version (set_saved t b v sp) = max v (Version sp)"
  "cp_closed (set_saved t b v sp) = cp_closed sp" "initialCommitTS (set_saved t b v sp) = initialCommitTS sp"
  by (auto simp: set_saved_def Let_def)

lemma set_saved_file [simp]: "fc_name (set_saved t b v sp) = fc_name sp"
  by (simp add: set_saved_def Let_def)

lemma fc_stored_eq:
  "fc_stored sp w =
     (case map_of (w_dir w) (fc_name sp) of
        None \<Rightarrow> Some (initialCommitTS sp, False, 0)
      | Some content \<Rightarrow>
          (case toml_decode (w_toml w) content (False, 0, 0) of
             (None, b, t, v) \<Rightarrow> Some (if t = 0 then initialCommitTS sp else t, b, v)
           | (Some _, _) \<Rightarrow> None))"
  by (auto simp: fc_stored_def NewFile_def fc_Load_def w_io_next_def or_initial_def split: option.splits prod.splits)

lemma fc_Save_result:
  assumes "fc_ok sp w" "fc_Save t s b v sp w = ((r, sp'), w')"
  shows "sp' = set_saved t b v sp" "fc_ok sp' w'"
    "fc_stored sp' w' = (if r = None then Some (if t = 0 then initialCommitTS sp else t, b, max v (Version sp)) else fc_stored sp w)"
proof -
  obtain bs where enc: "toml_encode (w_toml w) (b, t, max v (Version sp)) = Inr bs"
    "\<And>d. toml_decode (w_toml w) bs d = (None, b, t, max v (Version sp))"
    using assms(1) unfolding fc_ok_def toml_law_def by metis
  then have sp': "sp' = set_saved t b v sp" and wr: "WriteFileAtomic (fc_name sp) bs w = (r, w')"
    using assms by (auto simp: fc_Save_def fc_ok_def Let_def split: prod.splits)
  note res = WriteFileAtomic_result [OF wr]
  have init: "initialCommitTS sp' = initialCommitTS sp" "fc_name sp' = fc_name sp" using sp' by simp_all
  show "sp' = set_saved t b v sp" "fc_ok sp' w'" using sp' assms(1) res(1) by (simp_all add: fc_ok_def)
  show "fc_stored sp' w' = (if r = None then Some (if t = 0 then initialCommitTS sp else t, b, max v (Version sp)) else fc_stored sp w)"
    unfolding fc_stored_eq init res(1,3) by (simp add: enc(2))
qed

lemma fc_Save_fields:
  assumes "fc_ok sp w" "fc_Save t s b v sp w = ((r, sp'), w')"
  shows "fc_ok sp' w' \<and> CommitTS sp' = t \<and> Version sp' = max v (Version sp) \<and> initialCommitTS sp' = initialCommitTS sp"
  using fc_Save_result(1,2) [OF assms] by simp

subsection \<open>The checkpoint in a table\<close>

definition mc_stored :: "MysqlCheckPoint \<Rightarrow> cp_world \<Rightarrow> (int \<times> bool \<times> int) option" where
  "mc_stored sp w =
     (case mc_Load \<lparr>cp_closed = False, initialCommitTS = initialCommitTS sp, ConsistentSaved = False, CommitTS = 0, Version = 0,
         clusterID = clusterID sp, mc_schema = mc_schema sp, mc_table = mc_table sp, TsMap = Some []\<rparr> (w\<lparr>w_sql := []\<rparr>) of
        ((None, sp), _) \<Rightarrow> Some (CommitTS sp, ConsistentSaved sp, Version sp) | _ \<Rightarrow> None)"

definition mc_ok :: "MysqlCheckPoint \<Rightarrow> bool" where
  "mc_ok sp \<longleftrightarrow> \<not> cp_closed sp \<and> int64_range (Version sp) \<and> (\<exists>m. TsMap sp = Some m \<and> (\<forall>(k, i)\<in>set m. int64_range i))"

lemma lower_keys:
  "ToLower ''consistent'' = ''consistent''" "ToLower ''commitTS'' = ''committs''" "ToLower ''ts-map'' = ''ts-map''"
  "ToLower ''schema-version'' = ''schema-version''"
  by code_simp+

lemma json_map_ok:
  "\<forall>(k, i)\<in>set m. int64_range i \<Longrightarrow> fst (json_map (map (\<lambda>(k, i). (k, JNum i)) m) acc) = None"
  by (induction m arbitrary: acc) (auto simp: json_int_def split: prod.splits)

text \<open>What the table holds after a save reads back.\<close>

lemma json_round_trip:
  assumes "mc_ok sp" "int64_range (CommitTS sp)"
  shows "\<exists>sp'. json_unmarshal (json_marshal sp) sp0 = (None, sp') \<and> CommitTS sp' = CommitTS sp \<and> ConsistentSaved sp' = ConsistentSaved sp \<and>
    Version sp' = Version sp \<and> initialCommitTS sp' = initialCommitTS sp0"
proof -
  obtain m where m: "TsMap sp = Some m" "\<forall>(k, i)\<in>set (sort_key fst m). int64_range i" using assms(1) by (auto simp: mc_ok_def)
  obtain m' where m': "json_map (map (\<lambda>(k, i). (k, JNum i)) (sort_key fst m)) (case TsMap sp0 of None \<Rightarrow> [] | Some m \<Rightarrow> m) = (None, m')"
    using json_map_ok [OF m(2)] by (metis prod.collapse)
  show ?thesis using assms
    by (simp add: json_unmarshal_def json_marshal_def json_field_def json_int_def mc_ok_def lower_keys m(1) m' del: list.map)
qed

lemma mc_stored_eq:
  "mc_stored sp w =
     (case map_of (w_rows w) (clusterID sp) of
        None \<Rightarrow> Some (initialCommitTS sp, False, 0)
      | Some str \<Rightarrow>
          (case json_unmarshal str \<lparr>cp_closed = False, initialCommitTS = initialCommitTS sp, ConsistentSaved = False, CommitTS = 0, Version = 0,
             clusterID = clusterID sp, mc_schema = mc_schema sp, mc_table = mc_table sp, TsMap = Some []\<rparr> of
             (None, sp') \<Rightarrow> Some (if CommitTS sp' = 0 then initialCommitTS sp' else CommitTS sp', ConsistentSaved sp', Version sp')
           | (Some _, _) \<Rightarrow> None))"
  by (auto simp: mc_stored_def mc_Load_def sql_next_def or_initial_def split: option.splits prod.splits)

lemma update_members: "set (AList.update k v al) \<subseteq> insert (k, v) (set al)"
  by (induction al) auto

lemma sql_next_fields:
  "sql_next w = (r, w') \<Longrightarrow> w_rows w' = w_rows w"
  by (auto simp: sql_next_def split: list.splits)

lemma exec_replace_rows:
  "exec_replace i str w = (r, w') \<Longrightarrow> map_of (w_rows w') i = Some str \<or> r \<noteq> None \<and> map_of (w_rows w') i = map_of (w_rows w) i"
  by (auto simp: exec_replace_def update_conv' split: prod.splits sql_outcome.splits if_splits dest!: sql_next_fields)

lemma retry_replace:
  "RetryContext n (\<lambda>w. (False, w)) (exec_replace i str) e w = (r, w') \<Longrightarrow> n \<noteq> 0 \<or> e \<noteq> None \<Longrightarrow>
   map_of (w_rows w') i = Some str \<or> r \<noteq> None \<and> map_of (w_rows w') i = map_of (w_rows w) i"
proof (induction n arbitrary: e w)
  case (Suc n)
  obtain r1 w1 where ex: "exec_replace i str w = (r1, w1)" by force
  show ?case
  proof (cases r1)
    case None
    with Suc.prems(1) ex exec_replace_rows [OF ex] show ?thesis by simp
  next
    case (Some e1)
    with Suc.prems(1) ex exec_replace_rows [OF ex] Suc.IH [of "Some e1" w1] show ?thesis by (auto split: if_splits)
  qed
qed simp

lemma mc_Save_result:
  assumes "mc_ok sp" "int64_range t" "int64_range s" "int64_range v" "mc_Save t s b v sp w = ((r, sp'), w')"
  shows "mc_ok sp' \<and> CommitTS sp' = t \<and> Version sp' = max v (Version sp) \<and> initialCommitTS sp' = initialCommitTS sp"
    "mc_stored sp' w' = Some (if t = 0 then initialCommitTS sp else t, b, max v (Version sp)) \<or> r \<noteq> None \<and> mc_stored sp' w' = mc_stored sp w"
proof -
  obtain m where m: "TsMap sp = Some m" "\<forall>(k, i)\<in>set m. int64_range i" using assms(1) by (auto simp: mc_ok_def)
  let ?sp = "set_saved t b v sp"
  have more: "TsMap ?sp = Some m" "clusterID ?sp = clusterID sp" "mc_schema ?sp = mc_schema sp" "mc_table ?sp = mc_table sp"
    using m(1) by (simp_all add: set_saved_def Let_def)
  let ?m = "AList.update ''secondary-ts'' s (AList.update ''primary-ts'' t m)"
  have upd: "\<forall>(k, i)\<in>set ?m. int64_range i"
    using m(2) assms(2,3) by (auto dest!: update_members [THEN subsetD])
  have sp': "sp' = (if s > 0 then ?sp\<lparr>TsMap := Some ?m\<rparr> else ?sp)"
    and retry: "RetryContext 5 (\<lambda>w. (False, w)) (exec_replace (clusterID sp) (json_marshal sp')) None w = (r, w')"
    using assms(1,5) more by (auto simp: mc_Save_def mc_ok_def Let_def split: prod.splits if_splits)
  show fields: "mc_ok sp' \<and> CommitTS sp' = t \<and> Version sp' = max v (Version sp) \<and> initialCommitTS sp' = initialCommitTS sp"
    using assms(1,4) m more upd by (simp add: sp' mc_ok_def max_def)
  have same: "clusterID sp' = clusterID sp" "mc_schema sp' = mc_schema sp" "mc_table sp' = mc_table sp" "ConsistentSaved sp' = b"
    using more by (simp_all add: sp')
  show "mc_stored sp' w' = Some (if t = 0 then initialCommitTS sp else t, b, max v (Version sp)) \<or> r \<noteq> None \<and> mc_stored sp' w' = mc_stored sp w"
  proof (cases "map_of (w_rows w') (clusterID sp) = Some (json_marshal sp')")
    case True
    with json_round_trip [of sp' "\<lparr>cp_closed = False, initialCommitTS = initialCommitTS sp, ConsistentSaved = False, CommitTS = 0, Version = 0,
             clusterID = clusterID sp, mc_schema = mc_schema sp, mc_table = mc_table sp, TsMap = Some []\<rparr>"] fields same assms(2)
    show ?thesis by (auto simp: mc_stored_eq)
  next
    case False
    with retry_replace [OF retry] have r: "r \<noteq> None" and row: "map_of (w_rows w') (clusterID sp) = map_of (w_rows w) (clusterID sp)" by simp_all
    have init: "initialCommitTS sp' = initialCommitTS sp" using fields by simp
    have "mc_stored sp' w' = mc_stored sp w" unfolding mc_stored_eq same row init by (rule refl)
    with r show ?thesis by simp
  qed
qed

subsection \<open>The choice between them\<close>

definition cp_save :: "int \<Rightarrow> int \<Rightarrow> bool \<Rightarrow> int \<Rightarrow> CheckPoint \<times> cp_world \<Rightarrow> go_error option \<times> CheckPoint \<times> cp_world" where
  "cp_save t s b v = (\<lambda>(cp, w). case cp_Save t s b v cp w of ((r, cp), w) \<Rightarrow> (r, cp, w))"

definition cp_ok :: "CheckPoint \<times> cp_world \<Rightarrow> bool" where
  "cp_ok = (\<lambda>(cp, w). case cp of FileCP sp \<Rightarrow> fc_ok sp w | MysqlCP sp \<Rightarrow> mc_ok sp)"

definition cp_initial :: "CheckPoint \<times> cp_world \<Rightarrow> int" where
  "cp_initial = (\<lambda>(cp, w). case cp of FileCP sp \<Rightarrow> initialCommitTS sp | MysqlCP sp \<Rightarrow> initialCommitTS sp)"

definition cp_stored :: "CheckPoint \<times> cp_world \<Rightarrow> (int \<times> bool \<times> int) option" where
  "cp_stored = (\<lambda>(cp, w). case cp of FileCP sp \<Rightarrow> fc_stored sp w | MysqlCP sp \<Rightarrow> mc_stored sp w)"

interpretation file_cp: checkpoint_store "\<lambda>(sp, w). fc_ok sp w" "\<lambda>t s b v (sp, w). case fc_Save t s b v sp w of ((r, sp), w) \<Rightarrow> (r, sp, w)"
  "\<lambda>(sp, w). CommitTS sp" "\<lambda>(sp, w). Version sp" "\<lambda>(sp, w). initialCommitTS sp" "\<lambda>(sp, w). fc_stored sp w"
proof (unfold_locales, goal_cases)
  case (1 c t s v b r c')
  then show ?case using fc_Save_fields [of "fst c" "snd c" t s b v r "fst c'" "snd c'"] by (auto split: prod.splits)
next
  case (2 c t s v b r c')
  then show ?case using fc_Save_result(3) [of "fst c" "snd c" t s b v r "fst c'" "snd c'"] by (auto split: prod.splits if_splits)
qed

interpretation mysql_cp: checkpoint_store "\<lambda>(sp, w). mc_ok sp" "\<lambda>t s b v (sp, w). case mc_Save t s b v sp w of ((r, sp), w) \<Rightarrow> (r, sp, w)"
  "\<lambda>(sp, w). CommitTS sp" "\<lambda>(sp, w). Version sp" "\<lambda>(sp, w). initialCommitTS sp" "\<lambda>(sp, w). mc_stored sp w"
proof (unfold_locales, goal_cases)
  case (1 c t s v b r c')
  then show ?case using mc_Save_result(1) [of "fst c" t s v b "snd c" r "fst c'" "snd c'"] by (auto split: prod.splits)
next
  case (2 c t s v b r c')
  then show ?case using mc_Save_result(2) [of "fst c" t s v b "snd c" r "fst c'" "snd c'"] by (auto split: prod.splits)
qed

lemma cp_save_cases:
  assumes "cp_ok c" "cp_save t s b v c = (r, c')"
  obtains sp w sp' w' where "c = (FileCP sp, w)" "c' = (FileCP sp', w')" "fc_ok sp w" "fc_Save t s b v sp w = ((r, sp'), w')"
  | sp w sp' w' where "c = (MysqlCP sp, w)" "c' = (MysqlCP sp', w')" "mc_ok sp" "mc_Save t s b v sp w = ((r, sp'), w')"
  using assms by (cases c; cases "fst c") (auto simp: cp_ok_def cp_save_def map_prod_def split: prod.splits)

interpretation any_cp: checkpoint_store cp_ok cp_save "cp_TS \<circ> fst" "cp_SchemaVersion \<circ> fst" cp_initial cp_stored
proof unfold_locales
  fix c c' t s v b r
  assume a: "cp_ok c" "int64_range t" "int64_range s" "int64_range v" "cp_save t s b v c = (r, c')"
  from a(1,5) show "cp_ok c' \<and> (cp_TS \<circ> fst) c' = t \<and> (cp_SchemaVersion \<circ> fst) c' = max v ((cp_SchemaVersion \<circ> fst) c) \<and> cp_initial c' = cp_initial c"
    by (rule cp_save_cases) (use a(2-4) in \<open>simp_all add: cp_ok_def cp_initial_def fc_Save_fields mc_Save_result(1)\<close>)
  from a(1,5) show "cp_stored c' = Some (if t = 0 then cp_initial c else t, b, max v ((cp_SchemaVersion \<circ> fst) c)) \<or> r \<noteq> None \<and> cp_stored c' = cp_stored c"
  proof (rule cp_save_cases)
    fix sp w sp' w' assume "c = (FileCP sp, w)" "c' = (FileCP sp', w')" "fc_ok sp w" "fc_Save t s b v sp w = ((r, sp'), w')"
    then show ?thesis using fc_Save_result(3) [of sp w t s b v r sp' w'] by (simp add: cp_stored_def cp_initial_def)
  next
    fix sp w sp' w' assume "c = (MysqlCP sp, w)" "c' = (MysqlCP sp', w')" "mc_ok sp" "mc_Save t s b v sp w = ((r, sp'), w')"
    then show ?thesis using mc_Save_result(2) [of sp t s v b w r sp' w'] a(2-4) by (auto simp: cp_stored_def cp_initial_def)
  qed
qed

definition same_key :: "MysqlCheckPoint \<Rightarrow> MysqlCheckPoint \<Rightarrow> bool" where
  "same_key sp sp' \<longleftrightarrow> clusterID sp' = clusterID sp \<and> mc_schema sp' = mc_schema sp \<and> mc_table sp' = mc_table sp \<and> initialCommitTS sp' = initialCommitTS sp"

lemma json_field_key: "json_field k j sp = (e, sp') \<Longrightarrow> same_key sp sp'"
  by (auto simp: json_field_def same_key_def split: json.splits prod.splits if_splits)

lemma json_fields_key: "json_fields kjs sp = (e, sp') \<Longrightarrow> same_key sp sp'"
proof (induction kjs arbitrary: sp e)
  case Nil
  then show ?case by (simp add: same_key_def)
next
  case (Cons kj kjs)
  obtain e1 sp1 where f: "json_field (fst kj) (snd kj) sp = (e1, sp1)" by force
  moreover obtain e2 sp2 where "json_fields kjs sp1 = (e2, sp2)" by force
  ultimately show ?case using Cons.prems Cons.IH [of sp1 e2] json_field_key [OF f] by (cases kj) (auto simp: same_key_def split: option.splits)
qed

lemma json_unmarshal_key: "json_unmarshal j sp = (e, sp') \<Longrightarrow> same_key sp sp'"
  by (auto simp: json_unmarshal_def same_key_def split: json.splits dest!: json_fields_key)

text \<open>A checkpoint that was loaded holds the timestamp that is stored.\<close>

lemma NewCheckPoint_stored:
  assumes "NewCheckPoint cfg w0 = (Inr cp, w)"
  shows "\<exists>b v. cp_stored (cp, w) = Some (cp_TS cp, b, v)" "cp_TS cp = 0 \<longrightarrow> cp_initial (cp, w) = 0"
proof -
  have io: "w_io_next w1 = (r, w2) \<Longrightarrow> w_dir w2 = w_dir w1 \<and> w_toml w2 = w_toml w1" for w1 r w2 by (auto dest: w_io_next_fields)
  have "(\<exists>b v. cp_stored (cp, w) = Some (cp_TS cp, b, v)) \<and> (cp_TS cp = 0 \<longrightarrow> cp_initial (cp, w) = 0)"
  proof (cases cp)
    case (FileCP sp)
    then have "NewFile (cfg_InitialCommitTS cfg) (CheckPointFile cfg) w0 = ((None, sp), w)"
      using assms by (auto simp: NewCheckPoint_def split: if_splits prod.splits sum.splits option.splits)
    then show ?thesis
      by (auto simp: FileCP cp_stored_def cp_initial_def fc_stored_eq NewFile_def fc_Load_def or_initial_def split: prod.splits option.splits io_outcome.splits if_splits dest!: io)
  next
    case (MysqlCP sp)
    then obtain c where "newMysql c w0 = (Inr (None, sp), w)"
      using assms by (auto simp: NewCheckPoint_def split: if_splits prod.splits sum.splits option.splits)
    then obtain sp0 i w1 where load: "mc_Load sp0 w1 = ((None, sp), w)" and sp0: "sp0 = \<lparr>cp_closed = False, initialCommitTS = initialCommitTS sp0,
        ConsistentSaved = False, CommitTS = 0, Version = 0, clusterID = clusterID sp0, mc_schema = mc_schema sp0, mc_table = mc_table sp0, TsMap = Some []\<rparr>"
      by (auto simp: newMysql_def Let_def map_prod_def split: prod.splits sql_outcome.splits sum.splits)
    have fresh: "\<not> cp_closed sp0" "CommitTS sp0 = 0" "ConsistentSaved sp0 = False" "Version sp0 = 0" by (subst sp0; simp)+
    show ?thesis
    proof (cases "map_of (w_rows w) (clusterID sp0)")
      case None
      with load fresh have "sp = sp0\<lparr>CommitTS := initialCommitTS sp0\<rparr>"
        by (auto simp: mc_Load_def or_initial_def split: prod.splits sql_outcome.splits option.splits if_splits dest!: sql_next_fields)
      with None show ?thesis by (auto simp: MysqlCP cp_stored_def cp_initial_def mc_stored_eq)
    next
      case (Some str)
      with load fresh obtain spx where x: "json_unmarshal str sp0 = (None, spx)" "sp = or_initial spx"
        by (auto simp: mc_Load_def split: prod.splits sql_outcome.splits option.splits dest!: sql_next_fields)
      have key: "clusterID sp = clusterID sp0" "mc_schema sp = mc_schema sp0" "mc_table sp = mc_table sp0" "initialCommitTS sp = initialCommitTS sp0"
        "initialCommitTS spx = initialCommitTS sp0"
        using json_unmarshal_key [OF x(1)] by (simp_all add: same_key_def x(2) or_initial_def)
      show ?thesis unfolding MysqlCP cp_stored_def cp_initial_def mc_stored_eq prod.case CheckPoint.case key
        using x Some key by (auto simp: sp0 [symmetric] or_initial_def)
    qed
  qed
  then show "\<exists>b v. cp_stored (cp, w) = Some (cp_TS cp, b, v)" "cp_TS cp = 0 \<longrightarrow> cp_initial (cp, w) = 0" by blast+
qed

text \<open>C11. A call of \<^verbatim>\<open>Save\<close> on either kind of checkpoint, with any failures of system calls and statements in it, leaves for a restarted drainer either
  what was there before or the timestamp, flag and version it was given; the latter if it reports no error.\<close>

theorem checkpoint_saves:
  assumes "case cp of FileCP sp \<Rightarrow> \<not> cp_closed sp \<and> toml_law (w_toml w) | MysqlCP sp \<Rightarrow> mc_ok sp"
    "int64_range t" "int64_range s" "int64_range v" "cp_Save t s b v cp w = ((r, cp'), w')"
  shows "cp_TS cp' = t \<and> (cp_stored (cp', w') = Some (if t = 0 then cp_initial (cp, w) else t, b, max v (cp_SchemaVersion cp)) \<or>
    r \<noteq> None \<and> cp_stored (cp', w') = cp_stored (cp, w))"
proof -
  have ok: "cp_ok (cp, w)" using assms(1) by (cases cp) (simp_all add: cp_ok_def fc_ok_def)
  have save: "cp_save t s b v (cp, w) = (r, cp', w')" using assms(5) by (simp add: cp_save_def)
  from any_cp.save_fields [OF ok assms(2-4) save] any_cp.save_stored [OF ok assms(2-4) save] show ?thesis
    unfolding o_apply fst_conv by (intro conjI) (elim conjE, assumption)+
qed

text \<open>A document format that satisfies the law: the signs, then both numbers in unary.\<close>

definition unary_toml :: toml where
  "unary_toml =
     \<lparr>toml_encode = (\<lambda>(b, t, v). Inr ([of_bool b, of_bool (t < 0), of_bool (v < 0)] @ replicate (nat \<bar>t\<bar>) 1 @ 0 # replicate (nat \<bar>v\<bar>) 1)),
      toml_decode = (\<lambda>bs _. (None,
        bs ! 0 = 1,
        (if bs ! 1 = 1 then -1 else 1) * int (length (takeWhile (\<lambda>x. x = 1) (drop 3 bs))),
        (if bs ! 2 = 1 then -1 else 1) * int (length bs - 4 - length (takeWhile (\<lambda>x. x = 1) (drop 3 bs)))))\<rparr>"

lemma unary_toml_law: "toml_law unary_toml"
proof -
  have "takeWhile (\<lambda>x. x = 1) (replicate n (1 :: byte) @ 0 # xs) = replicate n 1" for n xs
    by (induction n) simp_all
  then show ?thesis by (auto simp: toml_law_def unary_toml_def)
qed

theorem checkpoint_saves_witness:
  "let cp = FileCP \<lparr>cp_closed = False, initialCommitTS = 3, ConsistentSaved = False, CommitTS = 3, Version = 0, fc_name = ''savepoint''\<rparr>;
       w = \<lparr>w_toml = unary_toml, w_dir = [], w_rand = [''1''], w_io = [], w_rows = [], w_sql = []\<rparr>
   in fst (fst (cp_Save 7 0 False 2 cp w)) = None \<and> cp_stored (snd (fst (cp_Save 7 0 False 2 cp w)), snd (cp_Save 7 0 False 2 cp w)) = Some (7, False, 2)"
proof -
  let ?cp = "FileCP \<lparr>cp_closed = False, initialCommitTS = 3, ConsistentSaved = False, CommitTS = 3, Version = 0, fc_name = ''savepoint''\<rparr>"
  let ?w = "\<lparr>w_toml = unary_toml, w_dir = [], w_rand = [''1''], w_io = [], w_rows = [], w_sql = []\<rparr>"
  obtain r cp' w' where save: "cp_Save 7 0 False 2 ?cp ?w = ((r, cp'), w')" by (metis prod.collapse)
  have "r = None" using save by (auto simp: fc_Save_def Let_def set_saved_def WriteFileAtomic_def w_io_next_def unary_toml_def)
  moreover have "cp_stored (cp', w') = Some (7, False, 2) \<or> r \<noteq> None"
    using checkpoint_saves [OF _ _ _ _ save] by (auto simp: unary_toml_law int64_range_def)
  ultimately show ?thesis unfolding Let_def save by simp
qed

end
