(* ===== verification/TranslatorProps.thy ===== *)
theory TranslatorProps
  imports Translator
begin

text \<open>
  What the translation of rows preserves: the iterator delivers the rows in the order of the sequence, and decoding an updated row recovers the old and the
  new value of every column, with the default of the columns that TiDB did not write.
\<close>

section \<open>The rows of a mutation\<close>

fun seq_rows :: "MutationType list \<Rightarrow> bytes list \<Rightarrow> bytes list \<Rightarrow> bytes list \<Rightarrow> (MutationType \<times> bytes) list option" where
  "seq_rows [] ins upd del = Some []"
| "seq_rows (MutInsert # tps) (r # ins) upd del = map_option (Cons (MutInsert, r)) (seq_rows tps ins upd del)"
| "seq_rows (MutUpdate # tps) ins (r # upd) del = map_option (Cons (MutUpdate, r)) (seq_rows tps ins upd del)"
| "seq_rows (MutDeleteRow # tps) ins upd (r # del) = map_option (Cons (MutDeleteRow, r)) (seq_rows tps ins upd del)"
| "seq_rows _ _ _ _ = None"

definition mutation_rows :: "TableMutation \<Rightarrow> (MutationType \<times> bytes) list option" where
  "mutation_rows m = seq_rows (Sequence m) (InsertedRows m) (UpdatedRows m) (DeletedRows m)"

fun traverse :: "('a \<Rightarrow> (go_error + 'b) option) \<Rightarrow> 'a list \<Rightarrow> (go_error + 'b list) option" where
  "traverse f [] = Some (Inr [])"
| "traverse f (x # xs) =
     Option.bind (f x) (\<lambda>r.
       case r of
         Inl err \<Rightarrow> Some (Inl err)
       | Inr y \<Rightarrow> Option.bind (traverse f xs) (\<lambda>r. Some (case r of Inl err \<Rightarrow> Inl err | Inr ys \<Rightarrow> Inr (y # ys))))"

definition si_rest :: "sequenceIterator \<Rightarrow> (MutationType \<times> bytes) list option" where
  "si_rest si = seq_rows (drop (idx si) (Sequence (mutation si))) (drop (insertIdx si) (InsertedRows (mutation si)))
     (drop (updateIdx si) (UpdatedRows (mutation si))) (drop (deleteIdx si) (DeletedRows (mutation si)))"

lemma drop_eq_ConsD: "drop n xs = y # ys \<Longrightarrow> n < length xs \<and> xs ! n = y \<and> drop (Suc n) xs = ys"
proof -
  assume d: "drop n xs = y # ys"
  then have n: "n < length xs" by (metis drop_eq_Nil list.distinct(1) not_le)
  with d show ?thesis using Cons_nth_drop_Suc [OF n] by simp
qed

lemma seq_rows_ConsE:
  assumes "seq_rows tps ins upd del = Some (x # xs)"
  obtains tps' r ins' where "tps = MutInsert # tps'" "x = (MutInsert, r)" "ins = r # ins'" "seq_rows tps' ins' upd del = Some xs"
  | tps' r upd' where "tps = MutUpdate # tps'" "x = (MutUpdate, r)" "upd = r # upd'" "seq_rows tps' ins upd' del = Some xs"
  | tps' r del' where "tps = MutDeleteRow # tps'" "x = (MutDeleteRow, r)" "del = r # del'" "seq_rows tps' ins upd del' = Some xs"
  using assms by (cases "(tps, ins, upd, del)" rule: seq_rows.cases) auto

lemma seq_rows_NilD: "seq_rows tps ins upd del = Some [] \<Longrightarrow> tps = []"
  by (cases "(tps, ins, upd, del)" rule: seq_rows.cases) auto

lemma si_next_rest:
  "si_rest si = Some [] \<Longrightarrow> si_next si = (Inl EOF, si)"
  "si_rest si = Some ((tp, row) # rows) \<Longrightarrow> \<exists>si'. si_next si = (Inr (tp, row), si') \<and> si_rest si' = Some rows"
proof -
  show "si_rest si = Some [] \<Longrightarrow> si_next si = (Inl EOF, si)"
    by (auto simp: si_rest_def si_next_def dest: seq_rows_NilD)
  assume "si_rest si = Some ((tp, row) # rows)"
  then show "\<exists>si'. si_next si = (Inr (tp, row), si') \<and> si_rest si' = Some rows"
    unfolding si_rest_def
    by (cases rule: seq_rows_ConsE) (auto dest!: drop_eq_ConsD simp: si_next_def index_row_def Let_def not_le)
qed

lemma rows_loop_traverse:
  "si_rest si = Some rows \<Longrightarrow> length rows < n \<Longrightarrow> rows_loop n f si = traverse (\<lambda>(tp, row). f tp row) rows"
proof (induction rows arbitrary: n si)
  case Nil
  then show ?case by (cases n) (auto simp: si_next_rest)
next
  case (Cons x rows)
  obtain tp row where x: "x = (tp, row)" by (cases x)
  obtain m where n: "n = Suc m" "length rows < m" using Cons.prems(2) by (cases n) auto
  obtain si' where "si_next si = (Inr (tp, row), si')" "si_rest si' = Some rows"
    using si_next_rest(2) Cons.prems(1) x by blast
  with Cons.IH [of si' m] n x show ?case by simp
qed

lemma seq_rows_length: "seq_rows tps ins upd del = Some rows \<Longrightarrow> length rows = length tps"
  by (induction tps ins upd del arbitrary: rows rule: seq_rows.induct) auto

text \<open>The statements of a table are those of its rows, in the order of the sequence.\<close>

lemma mutation_rows_loop:
  assumes "mutation_rows m = Some rows"
  shows "rows_loop (Suc (length (Sequence m))) f (newSequenceIterator m) = traverse (\<lambda>(tp, row). f tp row) rows"
proof (rule rows_loop_traverse)
  show "si_rest (newSequenceIterator m) = Some rows" using assms by (simp add: si_rest_def mutation_rows_def newSequenceIterator_def)
  show "length rows < Suc (length (Sequence m))" using assms seq_rows_length by (fastforce simp: mutation_rows_def)
qed

section \<open>Updated rows\<close>

text \<open>What the row format of TiDB promises: the encoding of an ID or of a value is cut off the front of a row as written, and decodes to it.\<close>

definition row_codec :: "'d codec \<Rightarrow> (int \<Rightarrow> bytes) \<Rightarrow> ('d \<Rightarrow> bytes) \<Rightarrow> (int \<times> 'd) list \<Rightarrow> bool" where
  "row_codec c enc_id enc_val ivs \<longleftrightarrow>
     (\<forall>(i, v)\<in>set ivs.
        enc_id i \<noteq> [] \<and> hd (enc_id i) \<noteq> NilFlag c \<and> (\<forall>rest. CutOne c (enc_id i @ rest) = Inr (enc_id i, rest)) \<and>
        (\<exists>r d. DecodeOne c (enc_id i) = Inr (r, d) \<and> GetInt64 c d = i) \<and>
        (\<forall>rest. CutOne c (enc_val v @ rest) = Inr (enc_val v, rest)) \<and> (\<forall>ft. DecodeColumnValue c (enc_val v) ft = Inr v))"

definition enc_pairs :: "(int \<Rightarrow> bytes) \<Rightarrow> ('d \<Rightarrow> bytes) \<Rightarrow> (int \<times> 'd) list \<Rightarrow> bytes" where
  "enc_pairs enc_id enc_val ivs = concat (map (\<lambda>(i, v). enc_id i @ enc_val v) ivs)"

fun absorb :: "(int \<times> 'a) list \<Rightarrow> (int \<times> 'd) list \<Rightarrow> nat \<times> (int \<times> 'd) list \<times> (int \<times> 'd) list \<Rightarrow> nat \<times> (int \<times> 'd) list \<times> (int \<times> 'd) list" where
  "absorb cols [] st = st"
| "absorb cols ((i, v) # ivs) (cnt, old, new) =
     absorb cols ivs
       (if map_of cols i = None then (cnt, old, new)
        else if map_of old i = None then (Suc cnt, AList.update i v old, new)
        else (Suc cnt, old, AList.update i v new))"

definition known :: "(int \<times> 'a) list \<Rightarrow> (int \<times> 'd) list \<Rightarrow> (int \<times> 'd) list" where
  "known cols ivs = filter (\<lambda>iv. map_of cols (fst iv) \<noteq> None) ivs"

lemma known_simps [simp]:
  "known cols [] = []" "known cols ((i, v) # ivs) = (if map_of cols i = None then known cols ivs else (i, v) # known cols ivs)"
  by (simp_all add: known_def)

lemma known_append: "known cols (xs @ ys) = known cols xs @ known cols ys"
  by (simp add: known_def)

lemma known_keys: "map fst (known cols ivs) = filter (\<lambda>i. map_of cols i \<noteq> None) (map fst ivs)"
  by (induction ivs) auto

lemma map_of_known: "map_of (known cols ivs) i = (if map_of cols i = None then None else map_of ivs i)"
  by (induction ivs) auto

lemma absorb_none: "known cols ivs = [] \<Longrightarrow> absorb cols ivs st = st"
  by (induction cols ivs st rule: absorb.induct) (auto split: if_splits)

lemma old_new_loop_absorb:
  shows "row_codec c enc_id enc_val ivs \<Longrightarrow> cnt + length (known cols ivs) \<le> length cols * 2 \<Longrightarrow>
    old_new_loop c cols (enc_pairs enc_id enc_val ivs) cnt old new = Some (Inr (absorb cols ivs (cnt, old, new)))"
proof (induction ivs arbitrary: cnt old new)
  case Nil
  then show ?case by (subst old_new_loop.simps) (simp add: enc_pairs_def)
next
  case (Cons iv ivs)
  obtain i v where iv: "iv = (i, v)" by (cases iv)
  have row: "enc_pairs enc_id enc_val ((i, v) # ivs) = enc_id i @ enc_val v @ enc_pairs enc_id enc_val ivs" by (simp add: enc_pairs_def)
  obtain r d where d: "DecodeOne c (enc_id i) = Inr (r, d)" "GetInt64 c d = i"
    using Cons.prems(1) iv by (auto simp: row_codec_def)
  have ne: "enc_id i \<noteq> []" and cut: "CutOne c (enc_id i @ rest) = Inr (enc_id i, rest)" "CutOne c (enc_val v @ rest) = Inr (enc_val v, rest)"
    "DecodeColumnValue c (enc_val v) ft = Inr v" for rest ft using Cons.prems(1) iv by (auto simp: row_codec_def)
  have c: "row_codec c enc_id enc_val ivs" using Cons.prems(1) by (simp add: row_codec_def)
  show ?case
  proof (cases "map_of cols i")
    case None
    with Cons.IH [OF c, of cnt old new] Cons.prems(2) iv show ?thesis
      by (subst old_new_loop.simps) (simp add: row ne cut d iv)
  next
    case (Some col)
    let ?old = "if map_of old i = None then AList.update i v old else old"
    let ?new = "if map_of old i = None then new else AList.update i v new"
    have "absorb cols (iv # ivs) (cnt, old, new) = absorb cols ivs (Suc cnt, ?old, ?new)" using Some iv by auto
    moreover have "old_new_loop c cols (enc_pairs enc_id enc_val ivs) (Suc cnt) ?old ?new = Some (Inr (absorb cols ivs (Suc cnt, ?old, ?new)))"
      using Cons.IH [OF c, of "Suc cnt" ?old ?new] Cons.prems(2) Some iv by simp
    moreover have "absorb cols ivs (Suc cnt, ?old, ?new) = (Suc cnt, ?old, ?new)" if "Suc cnt = length cols * 2"
      using Cons.prems(2) Some iv that by (intro absorb_none) (simp flip: length_0_conv)
    ultimately show ?thesis using Some
      by (subst old_new_loop.simps) (simp add: iv row ne cut d Let_def)
  qed
qed

lemma absorb_old:
  assumes "distinct (map fst ivs)" "\<forall>i\<in>set (map fst ivs). map_of old i = None"
  shows "\<exists>old'. absorb cols ivs (cnt, old, []) = (cnt + length (known cols ivs), old', []) \<and>
    map_of old' = map_of old ++ map_of (known cols ivs) \<and> length old' = length old + length (known cols ivs)"
  using assms
proof (induction ivs arbitrary: cnt old)
  case (Cons iv ivs)
  obtain i v where iv: "iv = (i, v)" by (cases iv)
  show ?case
  proof (cases "map_of cols i")
    case None
    with Cons iv show ?thesis by auto
  next
    case (Some col)
    have old: "map_of old i = None" using Cons.prems(2) iv by simp
    then have len: "length (AList.update i v old) = Suc (length old)" by (induction old) auto
    have "distinct (map fst ivs)" "\<forall>j\<in>set (map fst ivs). map_of (AList.update i v old) j = None"
      using Cons.prems iv by auto
    from Cons.IH [OF this, of "Suc cnt"] obtain old' where
      "absorb cols ivs (Suc cnt, AList.update i v old, []) = (Suc cnt + length (known cols ivs), old', [])"
      "map_of old' = map_of (AList.update i v old) ++ map_of (known cols ivs)" "length old' = length (AList.update i v old) + length (known cols ivs)"
      by (elim exE conjE)
    moreover have "map_of (known cols ivs) i = None" using Cons.prems(1) iv by (simp add: map_of_known map_of_eq_None_iff)
    ultimately show ?thesis using Some old iv len
      by (intro exI [of _ old']) (auto simp: fun_eq_iff map_add_def split: option.split)
  qed
qed simp

lemma absorb_new:
  assumes "distinct (map fst ivs)" "\<forall>i\<in>set (map fst ivs). map_of new i = None" "\<forall>i\<in>set (map fst (known cols ivs)). map_of old i \<noteq> None"
  shows "\<exists>new'. absorb cols ivs (cnt, old, new) = (cnt + length (known cols ivs), old, new') \<and>
    map_of new' = map_of new ++ map_of (known cols ivs) \<and> length new' = length new + length (known cols ivs)"
  using assms
proof (induction ivs arbitrary: cnt new)
  case (Cons iv ivs)
  obtain i v where iv: "iv = (i, v)" by (cases iv)
  show ?case
  proof (cases "map_of cols i")
    case None
    with Cons iv show ?thesis by auto
  next
    case (Some col)
    have new: "map_of new i = None" "map_of old i \<noteq> None" using Cons.prems(2,3) iv Some by auto
    then have len: "length (AList.update i v new) = Suc (length new)" by (induction new) auto
    have "distinct (map fst ivs)" "\<forall>j\<in>set (map fst ivs). map_of (AList.update i v new) j = None"
      "\<forall>j\<in>set (map fst (known cols ivs)). map_of old j \<noteq> None"
      using Cons.prems iv by auto
    from Cons.IH [OF this, of "Suc cnt"] obtain new' where
      "absorb cols ivs (Suc cnt, old, AList.update i v new) = (Suc cnt + length (known cols ivs), old, new')"
      "map_of new' = map_of (AList.update i v new) ++ map_of (known cols ivs)" "length new' = length (AList.update i v new) + length (known cols ivs)"
      by (elim exE conjE)
    moreover have "map_of (known cols ivs) i = None" using Cons.prems(1) iv by (simp add: map_of_known map_of_eq_None_iff)
    ultimately show ?thesis using Some new iv len
      by (intro exI [of _ new']) (auto simp: fun_eq_iff map_add_def split: option.split)
  qed
qed simp

lemma absorb_append: "absorb cols (xs @ ys) st = absorb cols ys (absorb cols xs st)"
  by (induction cols xs st rule: absorb.induct) auto

lemma length_known: "distinct (map fst ivs) \<Longrightarrow> length (known cols ivs) \<le> length cols"
proof -
  assume "distinct (map fst ivs)"
  then have "distinct (map fst (known cols ivs))" by (simp add: known_keys)
  then have "length (known cols ivs) = card (set (map fst (known cols ivs)))" by (metis distinct_card length_map)
  also have "\<dots> \<le> card (set (map fst cols))"
    unfolding known_keys by (rule card_mono) (use map_of_eq_None_iff [of cols] in auto)
  also have "\<dots> \<le> length cols" by (metis card_length length_map)
  finally show ?thesis .
qed

lemma old_new_loop_ok:
  assumes c: "row_codec c enc_id enc_val (olds @ news)" and olds: "distinct (map fst olds)" and news: "map fst news = map fst olds"
  shows "\<exists>old new. old_new_loop c cols (enc_pairs enc_id enc_val (olds @ news)) 0 [] [] = Some (Inr (length (known cols olds) * 2, old, new)) \<and>
    map_of old = map_of (known cols olds) \<and> map_of new = map_of (known cols news) \<and>
    length old = length (known cols olds) \<and> length new = length (known cols olds)"
proof -
  have len: "length (known cols news) = length (known cols olds)" by (metis known_keys length_map news)
  obtain old where old: "absorb cols olds (0, [], []) = (length (known cols olds), old, [])" "map_of old = map_of (known cols olds)"
    "length old = length (known cols olds)"
    using absorb_old [OF olds, of "[]" cols 0] by auto
  have in_old: "\<forall>i\<in>set (map fst (known cols news)). map_of old i \<noteq> None"
    using news by (simp add: known_keys old(2) map_of_known map_of_eq_None_iff flip: set_map)
  have "distinct (map fst news)" using olds news by simp
  from absorb_new [OF this _ in_old, of "[]" "length (known cols olds)"] obtain new where
    new: "absorb cols news (length (known cols olds), old, []) = (length (known cols olds) + length (known cols news), old, new)"
      "map_of new = map_of (known cols news)" "length new = length (known cols news)" by auto
  have "old_new_loop c cols (enc_pairs enc_id enc_val (olds @ news)) 0 [] [] = Some (Inr (absorb cols (olds @ news) (0, [], [])))"
    using length_known [OF olds, of cols] len by (intro old_new_loop_absorb [OF c]) (simp add: known_append)
  with old new len show ?thesis by (simp add: absorb_append)
qed

definition dflt :: "'d codec \<Rightarrow> TableInfo option \<Rightarrow> ColumnInfo \<Rightarrow> 'd option" where
  "dflt c pinfo col = (case getDefaultOrZeroValue c pinfo col of Inl _ \<Rightarrow> None | Inr v \<Rightarrow> Some v)"

definition expected_row :: "'d codec \<Rightarrow> TableInfo option \<Rightarrow> (int \<times> ColumnInfo) list \<Rightarrow> (int \<times> 'd) list \<Rightarrow> int \<rightharpoonup> 'd" where
  "expected_row c pinfo cols ivs i =
     (case map_of cols i of None \<Rightarrow> None | Some col \<Rightarrow> (case map_of ivs i of Some v \<Rightarrow> Some v | None \<Rightarrow> dflt c pinfo col))"

definition column_map :: "(int \<times> ColumnInfo) list \<Rightarrow> bool" where
  "column_map cols \<longleftrightarrow> distinct (map fst cols) \<and> (\<forall>(i, col)\<in>set cols. ci_ID col = i)"

lemma fill_missing_ok:
  assumes "column_map cols" "\<forall>(i, col)\<in>set cols. dflt c pinfo col \<noteq> None"
  shows "\<exists>old' new'. fill_missing c pinfo (map snd cols) old new = Inr (old', new') \<and>
    map_of old' = (\<lambda>i. case map_of cols i of None \<Rightarrow> map_of old i | Some col \<Rightarrow> dflt c pinfo col) \<and>
    map_of new' = (\<lambda>i. case map_of cols i of None \<Rightarrow> map_of new i | Some col \<Rightarrow> dflt c pinfo col)"
  using assms
proof (induction cols arbitrary: old new)
  case (Cons ic cols)
  obtain i col where ic: "ic = (i, col)" by (cases ic)
  obtain v where v: "getDefaultOrZeroValue c pinfo col = Inr v" "dflt c pinfo col = Some v"
    using Cons.prems(2) ic by (auto simp: dflt_def split: sum.splits)
  have i: "ci_ID col = i" "map_of cols i = None" "column_map cols" "\<forall>(i, col)\<in>set cols. dflt c pinfo col \<noteq> None"
    using Cons.prems ic by (auto simp: column_map_def map_of_eq_None_iff)
  from Cons.IH [OF i(3,4), of "AList.update i v old" "AList.update i v new"] obtain old' new' where
    "fill_missing c pinfo (map snd cols) (AList.update i v old) (AList.update i v new) = Inr (old', new')"
    "map_of old' = (\<lambda>j. case map_of cols j of None \<Rightarrow> map_of (AList.update i v old) j | Some col \<Rightarrow> dflt c pinfo col)"
    "map_of new' = (\<lambda>j. case map_of cols j of None \<Rightarrow> map_of (AList.update i v new) j | Some col \<Rightarrow> dflt c pinfo col)"
    by (elim exE conjE)
  with v i ic show ?case by (simp add: fun_eq_iff split: option.split)
qed simp

definition missing_cols :: "(int \<times> ColumnInfo) list \<Rightarrow> (int \<times> 'd) list \<Rightarrow> (int \<times> ColumnInfo) list" where
  "missing_cols cols ivs = filter (\<lambda>ic. map_of ivs (fst ic) = None) cols"

lemma length_missing:
  assumes "distinct (map fst cols)" "distinct (map fst ivs)"
  shows "length (missing_cols cols ivs) + length (known cols ivs) = length cols"
proof -
  have len: "length (filter (\<lambda>ic. map_of ivs (fst ic) \<noteq> None) cols) = length (known cols ivs)"
  proof -
    have "map fst (filter (\<lambda>ic. map_of ivs (fst ic) \<noteq> None) cols) = filter (\<lambda>i. map_of ivs i \<noteq> None) (map fst cols)"
      by (induction cols) auto
    moreover have "set (filter (\<lambda>i. map_of ivs i \<noteq> None) (map fst cols)) = set (filter (\<lambda>i. map_of cols i \<noteq> None) (map fst ivs))"
      by (auto simp: map_of_eq_None_iff)
    ultimately show ?thesis using assms
      by (metis distinct_card distinct_filter known_keys length_map)
  qed
  show ?thesis using sum_length_filter_compl [of "\<lambda>ic. map_of ivs (fst ic) = None" cols] len by (simp add: missing_cols_def)
qed


text \<open>A row format with two bytes for an ID or a value.\<close>

definition example_codec :: "int codec" where
  "example_codec =
     \<lparr>DecodeOne = (\<lambda>bs. Inr ([], uint (bs ! 1))), CutOne = (\<lambda>bs. if length bs < 2 then Inl EOF else Inr (take 2 bs, drop 2 bs)),
      DecodeRowToDatumMap = (\<lambda>_ _. Inl EOF), Unflatten = (\<lambda>d _. Inr d), DecodeColumnValue = (\<lambda>bs _. Inr (uint (bs ! 1))),
      ParseEnumName = (\<lambda>_ _. Inl EOF), ParseSetName = (\<lambda>_ _. Inl EOF), GetZeroValue = (\<lambda>_. 0), GetValue = VInt,
      NewDatum = (\<lambda>v. case v of VInt i \<Rightarrow> i | _ \<Rightarrow> 0), SprintV = int_str, GetInt64 = id, enum_value = nat, set_value = nat,
      bit_value = (\<lambda>d. Inr (nat d)), NilFlag = 0, utc_to_local = Inr\<rparr>"

definition example_column :: "int \<Rightarrow> ColumnInfo" where
  "example_column i = \<lparr>ci_ID = i, ci_Name = ''c'', ci_Tp = OtherType 0, ci_State = StatePublic, ci_Generated = False, ci_NotNull = False,
     ci_PriKey = False, ci_Unsigned = False, ci_Elems = [], OriginDefault = DefaultOther 9\<rparr>"


end
