(* ===== verification/SyncerProps.thy ===== *)
theory SyncerProps
  imports Syncer CheckpointProps TranslatorProps
begin

text \<open>
  What the syncer guarantees: the checkpoint never covers an item that the downstream has not acknowledged, a clean exit covers every item, fake binlogs are
  never stuck, and the filter of rows keeps exactly the rows it should, in order.
\<close>

section \<open>One iteration of the loop\<close>

abbreviation item_ts :: "Item \<Rightarrow> int" where
  "item_ts it \<equiv> CommitTs (it_Binlog it)"

text \<open>An iteration with a binlog of commit timestamp \<open>c\<close> hands over one item with that timestamp, or remembers at most one fake binlog with it.\<close>

definition input_effect :: "int \<Rightarrow> syncer \<Rightarrow> syncer \<Rightarrow> bool" where
  "input_effect c s s' \<longleftrightarrow>
     sy_cp s' = sy_cp s \<and> sy_world s' = sy_world s \<and> lastSuccessTS s' = lastSuccessTS s \<and> pushFake s' = pushFake s \<and>
     fakeBinlogCh s' = fakeBinlogCh s \<and> lastSaveTS s' = lastSaveTS s \<and> latestVersion s' = latestVersion s \<and>
     int64_range (lastDDLSchemaVersion s') \<and>
     (handed s' = handed s \<and> lastAddCommitTS s' = lastAddCommitTS s \<and>
        (fakeBinlogs s' = fakeBinlogs s \<or> (\<exists>b. CommitTs b = c \<and> fakeBinlogs s' = fakeBinlogs s @ [(b, lastAddCommitTS s)])) \<or>
      (\<exists>it. handed s' = handed s @ [it] \<and> item_ts it = c \<and> int64_range (it_SchemaVersion it) \<and> lastAddCommitTS s' = c \<and> fakeBinlogs s' = fakeBinlogs s))"

definition break_effect :: "int \<Rightarrow> syncer \<Rightarrow> syncer \<Rightarrow> bool" where
  "break_effect c s s' \<longleftrightarrow>
     sy_cp s' = sy_cp s \<and> sy_world s' = sy_world s \<and> lastSuccessTS s' = lastSuccessTS s \<and> pushFake s' = pushFake s \<and>
     fakeBinlogCh s' = fakeBinlogCh s \<and> lastSaveTS s' = lastSaveTS s \<and> latestVersion s' = latestVersion s \<and>
     int64_range (lastDDLSchemaVersion s') \<and> handed s' = handed s \<and> fakeBinlogs s' = fakeBinlogs s"

fun exit_effect :: "int \<Rightarrow> syncer \<Rightarrow> loop_exit \<Rightarrow> bool" where
  "exit_effect c s (Continue s') = input_effect c s s'"
| "exit_effect c s (Break err s') = break_effect c s s'"

text \<open>\<^verbatim>\<open>int64\<close> fields of the messages hold \<^verbatim>\<open>int64\<close> values.\<close>

definition prewrite_int64 :: "'d deps \<Rightarrow> bool" where
  "prewrite_int64 d \<longleftrightarrow> (\<forall>bs pv. dep_prewrite d bs = Inr pv \<longrightarrow> int64_range (pv_SchemaVersion pv))"

definition item_int64 :: "Job binlogItem \<Rightarrow> bool" where
  "item_int64 b \<longleftrightarrow> int64_range (GetCommitTs b) \<and> (\<forall>job info. bi_job b = Some job \<longrightarrow> BinlogInfo job = Some info \<longrightarrow> int64_range (SchemaVersion info))"

lemma append_fake_effect:
  assumes "int64_range (lastDDLSchemaVersion s)" "case binlog of None \<Rightarrow> True | Some b \<Rightarrow> CommitTs b = c"
  shows "input_effect c s (appendFakeBinlogIfNeeded time binlog c s)"
  using assms by (auto simp: input_effect_def appendFakeBinlogIfNeeded_def GenFakeBinlog_def Let_def split: option.splits)

lemma sync_item_effect:
  assumes "int64_range (lastDDLSchemaVersion s)" "int64_range (it_SchemaVersion item)"
  shows "exit_effect (item_ts item) s (sync_item synced item s)"
  using assms by (auto simp: sync_item_def Let_def input_effect_def break_effect_def split: option.splits)

lemma effect_schema:
  assumes "int64_range v"
  shows "exit_effect c (s\<lparr>sy_schema := x\<rparr>) r = exit_effect c s r"
    "exit_effect c (s\<lparr>sy_schema := x, lastDDLSchemaVersion := v\<rparr>) r = exit_effect c s r"
  using assms by (cases r; simp add: input_effect_def break_effect_def)+

lemma break_refl: "int64_range (lastDDLSchemaVersion s) \<Longrightarrow> exit_effect c s (Break err s)"
  by (simp add: break_effect_def)

declare exit_effect.simps [simp del]

lemma skipDMLEvent_version: "skipDMLEvent pv sch flt bf = Inr (ignore, pv') \<Longrightarrow> pv_SchemaVersion pv' = pv_SchemaVersion pv"
  by (auto simp: skipDMLEvent_def split: sum.splits)

lemma run_dml_effect:
  assumes "run_dml d cfg binlog synced s = Some r" "prewrite_int64 d" "int64_range (lastDDLSchemaVersion s)"
  shows "exit_effect (CommitTs binlog) s r"
proof (cases "dep_prewrite d (PrewriteValue binlog)")
  case (Inl err)
  with assms show ?thesis by (auto simp: run_dml_def break_refl)
next
  case (Inr pv)
  let ?pv = "rewriteForOldVersion (sy_schema s) pv"
  have v: "int64_range (pv_SchemaVersion ?pv)" using Inr assms(2) by (simp add: prewrite_int64_def rewriteForOldVersion_def)
  obtain e sch where job: "handlePreviousDDLJobIfNeed (pv_SchemaVersion ?pv) (sy_schema s) = (e, sch)" by force
  let ?s = "s\<lparr>sy_schema := sch\<rparr>"
  have s: "int64_range (lastDDLSchemaVersion ?s)" using assms(3) by simp
  have fake: "exit_effect (CommitTs binlog) ?s (Continue (appendFakeBinlogIfNeeded (dep_time d) None (CommitTs binlog) ?s))"
    using append_fake_effect [OF s, where binlog = None] by (simp add: exit_effect.simps)
  have "exit_effect (CommitTs binlog) ?s r"
  proof (cases e)
    case (Some err)
    with assms(1) Inr job s show ?thesis by (auto simp: run_dml_def Let_def break_refl)
  next
    case None
    with assms(1) Inr job obtain l where
      l: "r = (case l of Inl err \<Rightarrow> Break (Some err) ?s | Inr True \<Rightarrow> Continue (appendFakeBinlogIfNeeded (dep_time d) None (CommitTs binlog) ?s)
        | Inr False \<Rightarrow>
            (case skipDMLEvent ?pv sch (sy_filter cfg) (dep_binlogFilter d) of
               Inl err \<Rightarrow> Break (Some err) ?s
             | Inr (ignore, preWrite) \<Rightarrow>
                 if ignore then Continue (appendFakeBinlogIfNeeded (dep_time d) None (CommitTs binlog) ?s)
                 else sync_item synced ((zero_item binlog)\<lparr>it_PrewriteValue := Some preWrite, it_SchemaVersion := pv_SchemaVersion preWrite\<rparr>) ?s))"
      unfolding run_dml_def Let_def by (auto split: bind_splits simp del: split_paired_All)
    have sync: "exit_effect (CommitTs binlog) ?s (sync_item synced ((zero_item binlog)\<lparr>it_PrewriteValue := Some pv', it_SchemaVersion := pv_SchemaVersion pv'\<rparr>) ?s)"
      if "pv_SchemaVersion pv' = pv_SchemaVersion ?pv" for pv'
      using sync_item_effect [OF s, of "(zero_item binlog)\<lparr>it_PrewriteValue := Some pv', it_SchemaVersion := pv_SchemaVersion pv'\<rparr>" synced] v that
      by (simp add: zero_item_def)
    show ?thesis unfolding l using s fake sync
      by (auto simp: break_refl split: sum.splits bool.splits dest: skipDMLEvent_version)
  qed
  then show ?thesis by (simp add: effect_schema(1) [OF v])
qed

lemma ddl_handled_effect:
  assumes "int64_range (lastDDLSchemaVersion s)"
  shows "exit_effect (CommitTs binlog) s (ddl_handled d cfg binlog sql sch tbl synced s)"
proof -
  have fake: "exit_effect (CommitTs binlog) s (Continue (appendFakeBinlogIfNeeded (dep_time d) None (CommitTs binlog) s))"
    using append_fake_effect [OF assms, where binlog = None] by (simp add: exit_effect.simps)
  have sync: "exit_effect (CommitTs binlog) s (sync_item synced ((zero_item binlog)\<lparr>it_Schema := sch, it_Table := tbl, it_ShouldSkip := skip,
      it_SchemaVersion := lastDDLSchemaVersion s\<rparr>) s)" for skip
    using sync_item_effect [OF assms, of "(zero_item binlog)\<lparr>it_Schema := sch, it_Table := tbl, it_ShouldSkip := skip, it_SchemaVersion := lastDDLSchemaVersion s\<rparr>" synced]
      assms by (simp add: zero_item_def)
  show ?thesis unfolding ddl_handled_def Let_def using fake sync break_refl [OF assms] by (simp split: sum.split)
qed

lemma run_ddl_effect:
  assumes "int64_range (lastDDLSchemaVersion s)" "\<forall>j info. job = Some j \<longrightarrow> BinlogInfo j = Some info \<longrightarrow> int64_range (SchemaVersion info)"
  shows "exit_effect (CommitTs binlog) s (run_ddl d cfg binlog job synced s)"
proof -
  have fake: "exit_effect (CommitTs binlog) s (Continue (appendFakeBinlogIfNeeded (dep_time d) None (CommitTs binlog) s))"
    if "int64_range (lastDDLSchemaVersion s)" for s
    using append_fake_effect [OF that, where binlog = None] by (simp add: exit_effect.simps)
  note eff = effect_schema [THEN iffD1]
  show ?thesis
  proof (cases job)
    case None
    then show ?thesis using break_refl [OF assms(1)] by (simp add: run_ddl_def)
  next
    case (Some j)
    show ?thesis
    proof (cases "skipUnsupportedDDLJob j \<or> isl (addJob j (sy_schema s))")
      case True
      with Some fake [OF assms(1)] break_refl [OF assms(1)] show ?thesis by (auto simp: run_ddl_def isl_def)
    next
      case False
      then obtain sch where sch: "\<not> skipUnsupportedDDLJob j" "addJob j (sy_schema s) = Inr sch" by (auto simp: isl_def) (metis sum.exhaust)
      show ?thesis
      proof (cases "BinlogInfo j")
        case None
        with Some sch show ?thesis using assms(1) by (simp add: run_ddl_def break_effect_def exit_effect.simps)
      next
        case info: (Some info)
        with assms(2) Some have v: "int64_range (SchemaVersion info)" by simp
        obtain e sch1 where h: "handlePreviousDDLJobIfNeed (SchemaVersion info) sch = (e, sch1)" by force
        obtain r sch2 where g: "getSchemaTableAndDelete (SchemaVersion info) sch1 = (r, sch2)" by force
        have s: "int64_range (lastDDLSchemaVersion (s\<lparr>sy_schema := x, lastDDLSchemaVersion := SchemaVersion info\<rparr>))" for x using v by simp
        have upd: "s\<lparr>sy_schema := sch, lastDDLSchemaVersion := v, sy_schema := x\<rparr> = s\<lparr>sy_schema := x, lastDDLSchemaVersion := v\<rparr>"
          "s\<lparr>lastDDLSchemaVersion := v, sy_schema := x\<rparr> = s\<lparr>sy_schema := x, lastDDLSchemaVersion := v\<rparr>" for v x by simp_all
        show ?thesis
          using break_refl [OF s] fake [OF s] ddl_handled_effect [OF s]
          by (auto simp: run_ddl_def Some sch info h g Let_def upd effect_schema(2) [OF v] split: option.split sum.split)
      qed
    qed
  qed
qed

lemma run_input_effect:
  assumes "run_input d cfg b synced s = Some r" "prewrite_int64 d" "item_int64 b" "int64_range (lastDDLSchemaVersion s)"
  shows "exit_effect (GetCommitTs b) s r"
proof -
  have same: "exit_effect c s (Continue s)" for c using assms(4) by (simp add: input_effect_def exit_effect.simps)
  have fake: "exit_effect (CommitTs x) s (Continue (appendFakeBinlogIfNeeded (dep_time d) (Some x) (CommitTs x) s))" for x
    using append_fake_effect [OF assms(4), where binlog = "Some x"] by (simp add: exit_effect.simps)
  show ?thesis
    using assms(1) same fake run_dml_effect [OF _ assms(2,4)] run_ddl_effect [OF assms(4), of "bi_job b"] assms(3)
    by (auto simp: run_input_def Let_def GetCommitTs_def item_int64_def split: if_splits)
qed

end
