(* ===== verification/SyncerInv.thy ===== *)
theory SyncerInv
  imports SyncerProps
begin

text \<open>
  The invariant of the syncer. \<open>order_inv\<close> relates the items handed over, those acknowledged and the fake binlogs to the timestamp of the last success;
  \<open>cp_inv\<close> relates that timestamp to what is stored. Both hold in every reachable state when the binlogs arrive in the order of their commit timestamps.
\<close>

section \<open>The invariant\<close>

definition fakes_ready :: "syncer \<Rightarrow> Binlog set" where
  "fakes_ready s = set_option (pushFake s) \<union> set (fakeBinlogCh s)"

definition order_inv :: "int \<Rightarrow> Item list \<Rightarrow> syncer \<Rightarrow> bool" where
  "order_inv hi acks s \<longleftrightarrow>
     0 \<le> lastSuccessTS s \<and> lastSuccessTS s \<le> hi \<and> sorted_wrt (<) (map item_ts (handed s)) \<and>
     (\<forall>it\<in>set (handed s). 0 < item_ts it \<and> item_ts it \<le> hi \<and> int64_range (it_SchemaVersion it)) \<and>
     (\<exists>pend. handed s = acks @ pend \<and> (\<forall>it\<in>set pend. lastSuccessTS s < item_ts it \<and> (\<forall>b\<in>fakes_ready s. CommitTs b < item_ts it))) \<and>
     (\<forall>it\<in>set acks. item_ts it \<le> lastSuccessTS s) \<and> (\<forall>b\<in>fakes_ready s. CommitTs b \<le> hi) \<and>
     (\<forall>(b, p)\<in>set (fakeBinlogs s). CommitTs b \<le> hi \<and> (\<forall>it\<in>set (handed s). item_ts it \<le> CommitTs b \<longrightarrow> item_ts it \<le> p) \<and>
        p \<in> insert 0 (item_ts ` set (handed s)))"

text \<open>While the loop runs, the last timestamp added is that of the last item handed over.\<close>

definition add_inv :: "syncer \<Rightarrow> bool" where
  "add_inv s \<longleftrightarrow> lastAddCommitTS s \<in> insert 0 (item_ts ` set (handed s)) \<and> (\<forall>it\<in>set (handed s). item_ts it \<le> lastAddCommitTS s)"

definition stored_le :: "int \<Rightarrow> syncer \<Rightarrow> bool" where
  "stored_le t0 s \<longleftrightarrow> (\<exists>t b v. cp_stored (sy_cp s, sy_world s) = Some (t, b, v) \<and> t \<le> max t0 (lastSuccessTS s))"

definition cp_inv :: "int \<Rightarrow> syncer \<Rightarrow> bool" where
  "cp_inv t0 s \<longleftrightarrow>
     cp_ok (sy_cp s, sy_world s) \<and> int64_range t0 \<and> (t0 = 0 \<longrightarrow> cp_initial (sy_cp s, sy_world s) = 0) \<and>
     int64_range (lastDDLSchemaVersion s) \<and> int64_range (latestVersion s) \<and> int64_range (lastSuccessTS s) \<and> stored_le t0 s \<and>
     0 \<le> lastSaveTS s \<and> lastSaveTS s \<le> lastSuccessTS s \<and> cp_TS (sy_cp s) = (if lastSaveTS s = 0 then t0 else lastSaveTS s)"

section \<open>The loop\<close>

lemma sorted_snoc:
  "sorted_wrt (<) (map f (xs @ [x])) \<longleftrightarrow> sorted_wrt (<) (map f xs) \<and> (\<forall>y\<in>set xs. f y < (f x :: int))"
  by (auto simp: sorted_wrt_append)

lemma arm_fake_fields [simp]:
  "handed (arm_fake s) = handed s" "lastSuccessTS (arm_fake s) = lastSuccessTS s" "fakeBinlogCh (arm_fake s) = fakeBinlogCh s"
  "sy_cp (arm_fake s) = sy_cp s" "sy_world (arm_fake s) = sy_world s" "lastDDLSchemaVersion (arm_fake s) = lastDDLSchemaVersion s"
  "latestVersion (arm_fake s) = latestVersion s" "lastSaveTS (arm_fake s) = lastSaveTS s" "lastAddCommitTS (arm_fake s) = lastAddCommitTS s"
  by (auto simp: arm_fake_def split: option.split list.split)

lemma arm_fake_cases:
  obtains "arm_fake s = s" | b p rest where "pushFake s = None" "fakeBinlogs s = (b, p) # rest" "p \<le> lastSuccessTS s"
    "arm_fake s = s\<lparr>pushFake := Some b, fakeBinlogs := rest\<rparr>"
  by (cases "pushFake s"; cases "fakeBinlogs s"; cases "snd (hd (fakeBinlogs s)) \<le> lastSuccessTS s") (auto simp: arm_fake_def)

lemma arm_fake_order:
  assumes "order_inv hi acks s"
  shows "order_inv hi acks (arm_fake s)"
proof (cases rule: arm_fake_cases [of s])
  case 1
  with assms show ?thesis by simp
next
  case (2 b p rest)
  obtain pend where pend: "handed s = acks @ pend" "\<forall>it\<in>set pend. lastSuccessTS s < item_ts it \<and> (\<forall>b\<in>fakes_ready s. CommitTs b < item_ts it)"
    using assms by (auto simp: order_inv_def)
  have fb: "CommitTs b \<le> hi" "\<forall>it\<in>set (handed s). item_ts it \<le> CommitTs b \<longrightarrow> item_ts it \<le> p"
    using assms 2(2) by (auto simp: order_inv_def)
  have "CommitTs b < item_ts it" if "it \<in> set pend" for it
  proof (rule ccontr)
    assume "\<not> CommitTs b < item_ts it"
    with fb(2) that pend(1) have "item_ts it \<le> p" by auto
    with 2(3) pend(2) that show False by force
  qed
  moreover have "fakes_ready (arm_fake s) = insert b (fakes_ready s)" using 2 by (auto simp: fakes_ready_def)
  ultimately show ?thesis using assms 2 pend fb(1) unfolding order_inv_def by auto
qed

lemma order_mono: "order_inv hi acks s \<Longrightarrow> hi \<le> hi' \<Longrightarrow> order_inv hi' acks s"
  by (fastforce simp: order_inv_def)

lemma input_order:
  assumes inv: "order_inv hi acks s" and add: "add_inv s" and eff: "input_effect c s s'" and c: "hi < c"
  shows "order_inv c acks s'" "add_inv s'"
proof -
  have frame: "lastSuccessTS s' = lastSuccessTS s" "fakes_ready s' = fakes_ready s"
    using eff by (simp_all add: input_effect_def fakes_ready_def)
  have old: "item_ts it \<le> hi" if "it \<in> set (handed s)" for it using inv that by (auto simp: order_inv_def)
  have hi: "order_inv c acks s" "0 \<le> lastSuccessTS s" "lastSuccessTS s \<le> hi" "\<forall>b\<in>fakes_ready s. CommitTs b \<le> hi"
    "\<forall>(b, p)\<in>set (fakeBinlogs s). CommitTs b \<le> hi" "\<forall>it\<in>set acks. it \<in> set (handed s)"
    using order_mono [OF inv, of c] inv c unfolding order_inv_def by auto
  obtain pend where pend: "handed s = acks @ pend" "\<forall>it\<in>set pend. lastSuccessTS s < item_ts it \<and> (\<forall>b\<in>fakes_ready s. CommitTs b < item_ts it)"
    using inv by (auto simp: order_inv_def)
  consider (same) "handed s' = handed s" "lastAddCommitTS s' = lastAddCommitTS s" "fakeBinlogs s' = fakeBinlogs s"
    | (fake) b where "handed s' = handed s" "lastAddCommitTS s' = lastAddCommitTS s" "CommitTs b = c" "fakeBinlogs s' = fakeBinlogs s @ [(b, lastAddCommitTS s)]"
    | (item) it where "handed s' = handed s @ [it]" "item_ts it = c" "int64_range (it_SchemaVersion it)" "lastAddCommitTS s' = c" "fakeBinlogs s' = fakeBinlogs s"
    using eff unfolding input_effect_def by blast
  then have "order_inv c acks s' \<and> add_inv s'"
  proof cases
    case same
    then show ?thesis using hi(1) add frame by (simp add: order_inv_def add_inv_def)
  next
    case fake
    then show ?thesis using hi(1) add frame by (auto simp: order_inv_def add_inv_def)
  next
    case item
    have "\<forall>it'\<in>set (pend @ [it]). lastSuccessTS s < item_ts it' \<and> (\<forall>b\<in>fakes_ready s. CommitTs b < item_ts it')"
      using pend(2) hi(3,4) c item(2) by fastforce
    moreover have "\<forall>(b, p)\<in>set (fakeBinlogs s). \<not> c \<le> CommitTs b" using hi(5) c by fastforce
    moreover have "sorted_wrt (<) (map item_ts (handed s @ [it]))"
      unfolding sorted_snoc using inv old c item(2) by (force simp: order_inv_def)
    ultimately have "order_inv c acks s'"
      using hi(1,2) pend(1) frame item c hi(3) unfolding order_inv_def by (fastforce simp del: sorted_wrt_append)
    moreover have "add_inv s'" using item old c by (fastforce simp: add_inv_def)
    ultimately show ?thesis ..
  qed
  then show "order_inv c acks s'" "add_inv s'" by auto
qed

lemma break_order:
  assumes "order_inv hi acks s" "break_effect c s s'" "hi < c"
  shows "order_inv c acks s'"
proof -
  have "order_inv c acks s" using order_mono [OF assms(1)] assms(3) by simp
  with assms(2) show ?thesis by (simp add: order_inv_def break_effect_def fakes_ready_def)
qed

section \<open>Successes\<close>

text \<open>The order of items and fake binlogs does not depend on what is saved.\<close>

definition same_order :: "syncer \<Rightarrow> syncer \<Rightarrow> bool" where
  "same_order s s' \<longleftrightarrow>
     handed s' = handed s \<and> lastSuccessTS s' = lastSuccessTS s \<and> fakeBinlogs s' = fakeBinlogs s \<and> pushFake s' = pushFake s \<and>
     fakeBinlogCh s' = fakeBinlogCh s \<and> lastAddCommitTS s' = lastAddCommitTS s"

lemma same_order_inv:
  assumes "same_order s s'"
  shows "order_inv hi acks s' = order_inv hi acks s" "add_inv s' = add_inv s"
  using assms by (simp_all add: same_order_def order_inv_def add_inv_def fakes_ready_def)

lemma sy_Save_cp:
  "sy_Save t a b v s = (e, s') \<Longrightarrow> cp_save t a b v (sy_cp s, sy_world s) = (e, sy_cp s', sy_world s') \<and> s' = s\<lparr>sy_cp := sy_cp s', sy_world := sy_world s'\<rparr>"
  by (auto simp: sy_Save_def cp_save_def split: prod.splits)

lemma savePoint_inv:
  assumes "cp_inv t0 s" "0 < lastSuccessTS s" "int64_range a" "savePoint (lastSuccessTS s) a (latestVersion s) s = (alive, s')"
  shows "same_order s s'" "cp_inv t0 (s'\<lparr>lastSaveTime := now, lastSaveTS := lastSuccessTS s\<rparr>)" "stored_le t0 s'"
    "cp_ok (sy_cp s', sy_world s')" "cp_TS (sy_cp s') = lastSuccessTS s" "lastDDLSchemaVersion s' = lastDDLSchemaVersion s"
proof -
  obtain e where "sy_Save (lastSuccessTS s) a False (latestVersion s) s = (e, s')"
    using assms(4) by (auto simp: savePoint_def split: prod.splits)
  from sy_Save_cp [OF this] have save: "cp_save (lastSuccessTS s) a False (latestVersion s) (sy_cp s, sy_world s) = (e, sy_cp s', sy_world s')"
    and s': "s' = s\<lparr>sy_cp := sy_cp s', sy_world := sy_world s'\<rparr>" by blast+
  have hyps: "cp_ok (sy_cp s, sy_world s)" "int64_range (lastSuccessTS s)" "int64_range (latestVersion s)" using assms(1) by (simp_all add: cp_inv_def)
  have eqs: "lastSuccessTS s' = lastSuccessTS s" "latestVersion s' = latestVersion s" "lastDDLSchemaVersion s' = lastDDLSchemaVersion s"
    by (subst s'; simp)+
  show "same_order s s'" unfolding same_order_def by (intro conjI; subst s'; simp)
  note fields = any_cp.save_fields [OF hyps(1,2) assms(3) hyps(3) save]
  obtain t b v where "cp_stored (sy_cp s, sy_world s) = Some (t, b, v)" "t \<le> max t0 (lastSuccessTS s)"
    using assms(1) by (auto simp: cp_inv_def stored_le_def)
  from any_cp.stored_le [OF hyps(1,2) assms(3) hyps(3) save this assms(2)] show le: "stored_le t0 s'" by (auto simp: stored_le_def eqs)
  show "cp_ok (sy_cp s', sy_world s')" "cp_TS (sy_cp s') = lastSuccessTS s" using fields by simp_all
  with le show "cp_inv t0 (s'\<lparr>lastSaveTime := now, lastSaveTS := lastSuccessTS s\<rparr>)"
    using assms(1,2) fields by (simp add: cp_inv_def stored_le_def eqs)
  show "lastDDLSchemaVersion s' = lastDDLSchemaVersion s" by (rule eqs)
qed

lemma maybe_save_inv:
  assumes "cp_inv t0 s" "int64_range a" "maybe_save now saveNow a s = (alive, s')"
  shows "same_order s s'" "cp_inv t0 s'"
proof -
  have "same_order s s' \<and> cp_inv t0 s'"
  proof (cases "lastSuccessTS s > lastSaveTS s \<and> (saveNow \<or> now - lastSaveTime s > 3000)")
    case True
    then obtain s1 where s1: "savePoint (lastSuccessTS s) a (latestVersion s) s = (alive, s1)" "s' = s1\<lparr>lastSaveTime := now, lastSaveTS := lastSuccessTS s\<rparr>"
      using assms(3) by (auto simp: maybe_save_def Let_def split: prod.splits)
    have "0 < lastSuccessTS s" using assms(1) True by (simp add: cp_inv_def)
    from savePoint_inv(1,2) [OF assms(1) this assms(2) s1(1)] show ?thesis by (simp add: s1(2) same_order_def)
  next
    case False
    with assms show ?thesis by (auto simp: maybe_save_def Let_def same_order_def)
  qed
  then show "same_order s s'" "cp_inv t0 s'" by auto
qed

lemma cp_inv_raise:
  assumes "cp_inv t0 s" "int64_range t"
  shows "cp_inv t0 (raise_success t s)"
  using assms by (auto simp: cp_inv_def raise_success_def stored_le_def)

lemma raise_fields [simp]:
  "handed (raise_success t s) = handed s" "lastSuccessTS (raise_success t s) = max t (lastSuccessTS s)" "fakeBinlogs (raise_success t s) = fakeBinlogs s"
  "pushFake (raise_success t s) = pushFake s" "fakeBinlogCh (raise_success t s) = fakeBinlogCh s" "lastAddCommitTS (raise_success t s) = lastAddCommitTS s"
  by (auto simp: raise_success_def)

lemma int64_between: "0 \<le> t \<Longrightarrow> t \<le> hi \<Longrightarrow> int64_range hi \<Longrightarrow> int64_range t"
  by (auto simp: int64_range_def)

lemma maybe_save_handed: "maybe_save now saveNow a s = (alive, s') \<Longrightarrow> handed s' = handed s"
  by (auto simp: maybe_save_def savePoint_def sy_Save_def Let_def split: if_splits prod.splits)

lemma step_handed:
  "success_step now item s = (alive, s') \<Longrightarrow> handed s' = handed s" "fake_step now b s = (alive, s') \<Longrightarrow> handed s' = handed s"
  by (auto simp: success_step_def fake_step_def Let_def dest!: maybe_save_handed)

lemma success_inv:
  assumes order: "order_inv hi acks s" and add: "add_inv s = live" and cp: "cp_inv t0 s" and hi: "int64_range hi" and item: "handed s = acks @ item # rest"
    and a: "int64_range a" and step: "success_step now (item\<lparr>it_AppliedTS := a\<rparr>) s = (alive, s')"
  shows "order_inv hi (acks @ [item]) s'" "add_inv s' = live" "cp_inv t0 s'"
proof -
  let ?s = "(raise_success (item_ts item) s)\<lparr>latestVersion := it_SchemaVersion item\<rparr>"
  have it: "0 < item_ts item" "item_ts item \<le> hi" "int64_range (it_SchemaVersion item)" "lastSuccessTS s < item_ts item"
    "\<forall>it\<in>set rest. item_ts item < item_ts it"
    using order item by (auto simp: order_inv_def sorted_wrt_append)
  have ts: "int64_range (item_ts item)" using int64_between [OF _ it(2) hi] it(1) by simp
  have inv: "cp_inv t0 ?s" using cp_inv_raise [OF cp ts] it(3) by (simp add: cp_inv_def stored_le_def)
  have "order_inv hi (acks @ [item]) ?s"
  proof -
    have ready: "fakes_ready ?s = fakes_ready s" by (simp add: fakes_ready_def)
    have "\<forall>it\<in>set rest. max (item_ts item) (lastSuccessTS s) < item_ts it \<and> (\<forall>b\<in>fakes_ready s. CommitTs b < item_ts it)"
      using order item it(4,5) by (auto simp: order_inv_def)
    then show ?thesis using order it item unfolding order_inv_def ready by (auto simp: max_def)
  qed
  moreover have "add_inv ?s = live" using add by (simp add: add_inv_def)
  moreover obtain sn ap where ms: "maybe_save now sn ap ?s = (alive, s')" "int64_range ap"
    using step a by (auto simp: success_step_def Let_def int64_range_def split: if_splits)
  ultimately show "order_inv hi (acks @ [item]) s'" "add_inv s' = live" "cp_inv t0 s'"
    using maybe_save_inv [OF inv ms(2,1)] same_order_inv [of ?s s'] by auto
qed

lemma fake_inv:
  assumes order: "order_inv hi acks s" and add: "add_inv s = live" and cp: "cp_inv t0 s" and hi: "int64_range hi" and ch: "fakeBinlogCh s = b # ch"
    and step: "fake_step now b (s\<lparr>fakeBinlogCh := ch\<rparr>) = (alive, s')"
  shows "order_inv hi acks s'" "add_inv s' = live" "cp_inv t0 s'"
proof -
  let ?s = "raise_success (CommitTs b) (s\<lparr>fakeBinlogCh := ch\<rparr>)"
  have b: "b \<in> fakes_ready s" using ch by (simp add: fakes_ready_def)
  have bounds: "CommitTs b \<le> hi" "0 \<le> lastSuccessTS s" "lastSuccessTS s \<le> hi" using order b unfolding order_inv_def by blast+
  have ready: "fakes_ready ?s \<subseteq> fakes_ready s" using ch by (auto simp: fakes_ready_def)
  have s0: "cp_inv t0 (s\<lparr>fakeBinlogCh := ch\<rparr>)" using cp by (simp add: cp_inv_def stored_le_def)
  have inv: "cp_inv t0 ?s"
  proof (cases "CommitTs b > lastSuccessTS s")
    case True
    then have "int64_range (CommitTs b)" using bounds by (intro int64_between [OF _ _ hi]) simp_all
    then show ?thesis by (rule cp_inv_raise [OF s0])
  next
    case False
    then show ?thesis using s0 by (simp add: raise_success_def)
  qed
  have "order_inv hi acks ?s"
  proof -
    obtain pend where pend: "handed s = acks @ pend" "\<forall>it\<in>set pend. lastSuccessTS s < item_ts it \<and> (\<forall>b\<in>fakes_ready s. CommitTs b < item_ts it)"
      using order by (auto simp: order_inv_def)
    have "\<forall>it\<in>set pend. max (CommitTs b) (lastSuccessTS s) < item_ts it \<and> (\<forall>b\<in>fakes_ready ?s. CommitTs b < item_ts it)"
      using pend(2) b ready by auto
    moreover have "\<forall>it\<in>set acks. item_ts it \<le> max (CommitTs b) (lastSuccessTS s)" "\<forall>b\<in>fakes_ready ?s. CommitTs b \<le> hi"
      using order ready unfolding order_inv_def by (simp_all add: le_max_iff_disj subset_iff)
    moreover have "0 \<le> max (CommitTs b) (lastSuccessTS s)" "max (CommitTs b) (lastSuccessTS s) \<le> hi" using bounds by simp_all
    ultimately show ?thesis using order pend(1) unfolding order_inv_def by simp
  qed
  moreover have "add_inv ?s = live" using add by (simp add: add_inv_def)
  ultimately show "order_inv hi acks s'" "add_inv s' = live" "cp_inv t0 s'"
    using maybe_save_inv [OF inv _ step [unfolded fake_step_def]] same_order_inv [of ?s s'] by (auto simp: int64_range_def)
qed

section \<open>The end of the run\<close>

definition covered :: "int \<Rightarrow> syncer \<Rightarrow> int" where
  "covered t0 s = (if lastSuccessTS s = 0 then t0 else lastSuccessTS s)"

lemma handle_end_inv:
  assumes "cp_inv t0 s" "handle_end s = (alive, s')"
  shows "same_order s s'" "stored_le t0 s'" "cp_ok (sy_cp s', sy_world s')" "cp_TS (sy_cp s') = covered t0 s" "lastDDLSchemaVersion s' = lastDDLSchemaVersion s"
    "t0 = 0 \<longrightarrow> cp_initial (sy_cp s', sy_world s') = 0"
proof -
  have "same_order s s' \<and> stored_le t0 s' \<and> cp_ok (sy_cp s', sy_world s') \<and> cp_TS (sy_cp s') = covered t0 s \<and>
    lastDDLSchemaVersion s' = lastDDLSchemaVersion s \<and> (t0 = 0 \<longrightarrow> cp_initial (sy_cp s', sy_world s') = 0)"
  proof (cases "lastSuccessTS s > lastSaveTS s")
    case True
    then have sp: "savePoint (lastSuccessTS s) 0 (latestVersion s) s = (alive, s')" using assms(2) by (simp add: handle_end_def)
    have pos: "0 < lastSuccessTS s" using assms(1) True by (simp add: cp_inv_def)
    have zero: "int64_range 0" by (simp add: int64_range_def)
    from savePoint_inv [OF assms(1) pos zero sp] pos show ?thesis by (simp add: covered_def cp_inv_def)
  next
    case False
    then have "s' = s" using assms(2) by (simp add: handle_end_def)
    with False assms(1) show ?thesis by (auto simp: cp_inv_def same_order_def covered_def)
  qed
  then show "same_order s s'" "stored_le t0 s'" "cp_ok (sy_cp s', sy_world s')" "cp_TS (sy_cp s') = covered t0 s" "lastDDLSchemaVersion s' = lastDDLSchemaVersion s"
    "t0 = 0 \<longrightarrow> cp_initial (sy_cp s', sy_world s') = 0" by blast+
qed

lemma finish_inv:
  assumes inv: "cp_inv t0 s" and h: "handle_end s = (alive, s1)" and e: "run_end err cerr s1 = (r, s2)"
  shows "same_order s s2" "stored_le t0 s2"
    "r = None \<longrightarrow> cerr = None \<and> (\<exists>v. cp_stored (sy_cp s2, sy_world s2) = Some (covered t0 s, True, v))"
proof -
  note s1 = handle_end_inv [OF inv h]
  have "same_order s s2 \<and> stored_le t0 s2 \<and> (r = None \<longrightarrow> cerr = None \<and> (\<exists>v. cp_stored (sy_cp s2, sy_world s2) = Some (covered t0 s, True, v)))"
  proof (cases "err = None \<and> cerr = None")
    case False
    then have "s2 = s1" "r \<noteq> None" using e by (auto simp: run_end_def split: option.splits)
    with s1 show ?thesis by auto
  next
    case True
    then have "sy_Save (covered t0 s) 0 True (lastDDLSchemaVersion s) s1 = (r, s2)" using e s1(4,5) by (simp add: run_end_def)
    from sy_Save_cp [OF this] have save: "cp_save (covered t0 s) 0 True (lastDDLSchemaVersion s) (sy_cp s1, sy_world s1) = (r, sy_cp s2, sy_world s2)"
      and s2: "s2 = s1\<lparr>sy_cp := sy_cp s2, sy_world := sy_world s2\<rparr>" by blast+
    have ord: "same_order s1 s2" unfolding same_order_def by (intro conjI; subst s2; simp)
    then have lst: "lastSuccessTS s2 = lastSuccessTS s" "lastSuccessTS s1 = lastSuccessTS s" using s1(1) by (simp_all add: same_order_def)
    have rng: "int64_range (covered t0 s)" "int64_range 0" "int64_range (lastDDLSchemaVersion s)" "covered t0 s \<le> max t0 (lastSuccessTS s)"
      using inv by (auto simp: covered_def cp_inv_def int64_range_def)
    have zero: "(if covered t0 s = 0 then cp_initial (sy_cp s1, sy_world s1) else covered t0 s) = covered t0 s"
      using s1(6) by (simp add: covered_def split: if_splits)
    note st = any_cp.save_stored [OF s1(3) rng(1-3) save, unfolded zero]
    then have "stored_le t0 s2" using s1(2) rng(4) lst unfolding stored_le_def by auto
    moreover have "same_order s s2" using ord s1(1) by (simp add: same_order_def)
    ultimately show ?thesis using st True by auto
  qed
  then show "same_order s s2" "stored_le t0 s2"
    "r = None \<longrightarrow> cerr = None \<and> (\<exists>v. cp_stored (sy_cp s2, sy_world s2) = Some (covered t0 s, True, v))" by blast+
qed

section \<open>Reachable states\<close>

definition latest :: "Job binlogItem list \<Rightarrow> int" where
  "latest bs = (if bs = [] then 0 else GetCommitTs (last bs))"

definition arrive_in_order :: "int \<Rightarrow> Job binlogItem list \<Rightarrow> bool" where
  "arrive_in_order t0 bs \<longleftrightarrow>
     sorted_wrt (<) (map GetCommitTs bs) \<and> (\<forall>b\<in>set bs. 0 < GetCommitTs b \<and> t0 < GetCommitTs b \<and> item_int64 b)"

lemma arrive_snoc:
  assumes "arrive_in_order t0 (bs @ [b])"
  shows "arrive_in_order t0 bs" "latest bs < GetCommitTs b" "item_int64 b" "latest (bs @ [b]) = GetCommitTs b"
  using assms by (auto simp: arrive_in_order_def latest_def sorted_wrt_append)

lemma latest_int64: "arrive_in_order t0 bs \<Longrightarrow> int64_range (latest bs)"
  by (auto simp: arrive_in_order_def latest_def item_int64_def) (simp add: int64_range_def)

definition sys_inv :: "int \<Rightarrow> system \<Rightarrow> bool" where
  "sys_inv t0 y \<longleftrightarrow>
     order_inv (latest (received y)) (acked y) (sys_s y) \<and> item_ts ` set (handed (sys_s y)) \<subseteq> GetCommitTs ` set (received y) \<and>
     stored_le t0 (sys_s y) \<and> (handling (run_phase y) \<longrightarrow> cp_inv t0 (sys_s y)) \<and>
     (run_phase y \<in> {AtTop, InSelect} \<longrightarrow> add_inv (sys_s y)) \<and>
     (\<forall>cerr. run_phase y = Finished cerr None \<longrightarrow>
        cerr = None \<and> (\<exists>v. cp_stored (sy_cp (sys_s y), sy_world (sys_s y)) = Some (covered t0 (sys_s y), True, v)))"

lemma handling_simps [simp]:
  "handling AtTop" "handling InSelect" "handling (Draining e)" "\<not> handling Exited" "\<not> handling (Finished c r)"
  by (simp_all add: handling_def)

lemma cp_inv_frame:
  assumes "cp_inv t0 s" "sy_cp s' = sy_cp s" "sy_world s' = sy_world s" "lastSuccessTS s' = lastSuccessTS s" "lastSaveTS s' = lastSaveTS s"
    "latestVersion s' = latestVersion s" "int64_range (lastDDLSchemaVersion s')"
  shows "cp_inv t0 s'"
  using assms by (simp add: cp_inv_def stored_le_def)

lemma or_exit_inv:
  assumes "order_inv (latest (received y)) (acked y) s'" "add_inv s' = add_inv s" "cp_inv t0 s'" "handling (run_phase y)"
    "run_phase y \<in> {AtTop, InSelect} \<longrightarrow> add_inv s" "item_ts ` set (handed s') \<subseteq> GetCommitTs ` set (received y)"
  shows "sys_inv t0 (or_exit (alive, s') y)"
  using assms by (auto simp: sys_inv_def or_exit_def cp_inv_def)

lemma sys_step_inv:
  assumes "sys_step d cfg y y'" "sys_inv t0 y" "prewrite_int64 d" "arrive_in_order t0 (received y')"
  shows "sys_inv t0 y'"
  using assms(1)
proof cases
  case loop_top
  then have "cp_inv t0 (sys_s y)" using assms(2) by (simp add: sys_inv_def)
  then have "cp_inv t0 (arm_fake (sys_s y))" by (simp add: cp_inv_def stored_le_def)
  with loop_top show ?thesis using assms(2) arm_fake_order by (simp add: sys_inv_def add_inv_def cp_inv_def)
next
  case (stop err)
  then show ?thesis using assms(2) by (auto simp: sys_inv_def)
next
  case (push_fake b)
  let ?s = "(sys_s y)\<lparr>pushFake := None, fakeBinlogCh := fakeBinlogCh (sys_s y) @ [b]\<rparr>"
  have "fakes_ready ?s = fakes_ready (sys_s y)" using push_fake(3) by (auto simp: fakes_ready_def)
  then have "order_inv hi acks ?s = order_inv hi acks (sys_s y)" "add_inv ?s = add_inv (sys_s y)" for hi acks by (simp_all add: order_inv_def add_inv_def)
  moreover have "cp_inv t0 ?s = cp_inv t0 (sys_s y)" "stored_le t0 ?s = stored_le t0 (sys_s y)" by (simp_all add: cp_inv_def stored_le_def)
  ultimately show ?thesis using push_fake(1,2) assms(2) by (simp add: sys_inv_def)
next
  case (input b synced s)
  note arr = arrive_snoc [OF assms(4) [unfolded input(1), simplified]]
  have inv: "order_inv (latest (received y)) (acked y) (sys_s y)" "add_inv (sys_s y)" "cp_inv t0 (sys_s y)" using assms(2) input(2) by (auto simp: sys_inv_def)
  then have eff: "input_effect (GetCommitTs b) (sys_s y) s"
    using run_input_effect [OF input(3) assms(3) arr(3)] by (simp add: exit_effect.simps cp_inv_def)
  have "cp_inv t0 s" using inv(3) eff by (auto simp: input_effect_def intro: cp_inv_frame)
  moreover have "item_ts ` set (handed s) \<subseteq> GetCommitTs ` set (received y @ [b])"
  proof -
    have "item_ts ` set (handed s) \<subseteq> insert (GetCommitTs b) (item_ts ` set (handed (sys_s y)))" using eff by (auto simp: input_effect_def)
    moreover have "item_ts ` set (handed (sys_s y)) \<subseteq> GetCommitTs ` set (received y)" using assms(2) by (simp add: sys_inv_def)
    ultimately show ?thesis by auto
  qed
  ultimately show ?thesis using input_order [OF inv(1,2) eff arr(2)] arr(4) by (simp add: input(1) sys_inv_def cp_inv_def)
next
  case (input_fails b synced err s)
  note arr = arrive_snoc [OF assms(4) [unfolded input_fails(1), simplified]]
  have inv: "order_inv (latest (received y)) (acked y) (sys_s y)" "cp_inv t0 (sys_s y)" using assms(2) input_fails(2) by (auto simp: sys_inv_def)
  then have eff: "break_effect (GetCommitTs b) (sys_s y) s"
    using run_input_effect [OF input_fails(3) assms(3) arr(3)] by (simp add: exit_effect.simps cp_inv_def)
  have "cp_inv t0 s" using inv(2) eff by (auto simp: break_effect_def intro: cp_inv_frame)
  moreover have "item_ts ` set (handed s) \<subseteq> GetCommitTs ` set (received y @ [b])" using assms(2) eff by (simp add: sys_inv_def break_effect_def subset_insertI2)
  ultimately show ?thesis using break_order [OF inv(1) eff arr(2)] arr(4) by (simp add: input_fails(1) sys_inv_def cp_inv_def)
next
  case (success item rest appliedTS now)
  obtain alive s' where step: "success_step now (item\<lparr>it_AppliedTS := appliedTS\<rparr>) (sys_s y) = (alive, s')" by force
  have "sys_inv t0 (or_exit (alive, s') (y\<lparr>acked := acked y @ [item]\<rparr>))"
    using success_inv [OF _ refl _ latest_int64 success(3,4) step] assms(2,4) success(1,2) step_handed(1) [OF step]
    by (intro or_exit_inv [of _ _ "sys_s y"]) (auto simp: sys_inv_def or_exit_def split: if_splits)
  then show ?thesis using success(1) step by simp
next
  case (fake b ch now)
  obtain alive s' where step: "fake_step now b ((sys_s y)\<lparr>fakeBinlogCh := ch\<rparr>) = (alive, s')" by force
  have "sys_inv t0 (or_exit (alive, s') y)"
    using fake_inv [OF _ refl _ latest_int64 fake(3) step] assms(2,4) fake(1,2) step_handed(2) [OF step]
    by (intro or_exit_inv [of _ _ "sys_s y"]) (auto simp: sys_inv_def or_exit_def split: if_splits)
  then show ?thesis using fake(1) step by simp
next
  case (channel_closed now)
  obtain alive s' where step: "maybe_save now False 0 (sys_s y) = (alive, s')" by force
  have "cp_inv t0 (sys_s y)" "int64_range 0" using assms(2) channel_closed(2) by (auto simp: sys_inv_def int64_range_def)
  from maybe_save_inv [OF this step] same_order_inv [of "sys_s y" s'] assms(2) channel_closed(2) maybe_save_handed [OF step]
  have "sys_inv t0 (or_exit (alive, s') y)" by (intro or_exit_inv [of _ _ "sys_s y"]) (auto simp: sys_inv_def)
  then show ?thesis using channel_closed(1) step by simp
next
  case (finish err s cerr r s')
  then have "cp_inv t0 (sys_s y)" using assms(2) by (simp add: sys_inv_def)
  note fin = finish_inv [OF this finish(4,5)]
  then have "covered t0 s' = covered t0 (sys_s y)" "handed s' = handed (sys_s y)" by (simp_all add: covered_def same_order_def)
  with fin same_order_inv(1) [OF fin(1)] assms(2) show ?thesis by (auto simp: finish(1) sys_inv_def)
next
  case (finish_fails err s)
  then have "cp_inv t0 (sys_s y)" using assms(2) by (simp add: sys_inv_def)
  note fin = handle_end_inv [OF this finish_fails(4)]
  moreover have "handed s = handed (sys_s y)" using fin(1) by (simp add: same_order_def)
  ultimately show ?thesis using same_order_inv(1) [OF fin(1)] assms(2) by (auto simp: finish_fails(1) sys_inv_def)
qed

lemma sys_step_received: "sys_step d cfg y y' \<Longrightarrow> \<exists>bs. received y' = received y @ bs"
  by (auto simp: or_exit_def elim!: sys_step.cases)

lemma arrive_prefix: "arrive_in_order t0 (bs @ bs') \<Longrightarrow> arrive_in_order t0 bs"
  by (auto simp: arrive_in_order_def sorted_wrt_append)

lemma run_start_inv:
  assumes "NewCheckPoint ccfg w0 = (Inr cp, w)" "cp_ok (cp, w)" "int64_range (cp_TS cp)" "run_start schema cp w now = Inr s0"
  shows "sys_inv (cp_TS cp) \<lparr>sys_s = s0, run_phase = AtTop, received = [], acked = []\<rparr>"
proof -
  obtain sch where s0: "s0 = \<lparr>sy_schema = sch, sy_cp = cp, sy_world = w, handed = [], lastSuccessTS = 0, fakeBinlogs = [], pushFake = None, fakeBinlogCh = [],
      lastDDLSchemaVersion = 0, lastAddCommitTS = 0, lastFakeCommitTime = None, lastSaveTS = 0, latestVersion = 0, lastSaveTime = now\<rparr>"
    using assms(4) by (auto simp: run_start_def split: prod.splits option.splits)
  show ?thesis using NewCheckPoint_stored [OF assms(1)] assms(2,3)
    by (auto simp: s0 sys_inv_def order_inv_def latest_def fakes_ready_def stored_le_def cp_inv_def add_inv_def int64_range_def)
qed

lemma reach_inv:
  assumes "NewCheckPoint ccfg w0 = (Inr cp, w)" "cp_ok (cp, w)" "int64_range (cp_TS cp)" "run_start schema cp w now = Inr s0" "prewrite_int64 d"
    and reach: "sys_reach d cfg s0 y" and arr: "arrive_in_order (cp_TS cp) (received y)"
  shows "sys_inv (cp_TS cp) y"
  using reach arr
proof (induction rule: sys_reach.induct)
  case start
  show ?case by (rule run_start_inv [OF assms(1-4)])
next
  case (step y y')
  obtain bs where "received y' = received y @ bs" using sys_step_received [OF step.hyps(2)] by blast
  with step.prems have "arrive_in_order (cp_TS cp) (received y)" by (auto dest: arrive_prefix)
  with step show ?case using sys_step_inv [OF step.hyps(2) _ assms(5)] by blast
qed



text \<open>C31. Fake binlogs do not get stuck: once every item handed over is acknowledged, the next pass over the top of the loop makes the oldest fake binlog ready.\<close>

theorem fake_not_stuck:
  assumes "NewCheckPoint ccfg w0 = (Inr cp, w)" "cp_ok (cp, w)" "int64_range (cp_TS cp)" "run_start schema cp w now = Inr s0" "prewrite_int64 d"
    "sys_reach d cfg s0 y" "arrive_in_order (cp_TS cp) (received y)"
    and "acked y = handed (sys_s y)" "pushFake (sys_s y) = None" "fakeBinlogs (sys_s y) = (b, preAddTS) # rest"
  shows "pushFake (arm_fake (sys_s y)) = Some b"
proof -
  have "sys_inv (cp_TS cp) y" by (rule reach_inv [OF assms(1-7)])
  then have "preAddTS \<le> lastSuccessTS (sys_s y)" using assms(8,10) by (fastforce simp: sys_inv_def order_inv_def)
  with assms(9,10) show ?thesis by (simp add: arm_fake_def)
qed

section \<open>A run\<close>

text \<open>One transaction on one table, handed over, acknowledged and saved, then a shutdown; and a fake binlog.\<close>

definition ex_deps :: "int deps" where
  "ex_deps =
     \<lparr>dep_codec = example_codec,
      dep_prewrite = (\<lambda>_. Inr \<lparr>pv_SchemaVersion = 0, Mutations = [\<lparr>TableId = 1, InsertedRows = [], UpdatedRows = [], DeletedRows = [], Sequence = []\<rparr>]\<rparr>),
      dep_parse = (\<lambda>_. Inl EOF), dep_binlogFilter = None, dep_time = (\<lambda>t. t)\<rparr>"

definition ex_cfg :: SyncerConfig where
  "ex_cfg = \<lparr>IgnoreTxnCommitTS = [], DestDBType = ''mysql'', cfg_SyncDDL = True,
     sy_filter = \<lparr>reMap = Map.empty, doDBs = [], doTables = [], ignoreDBs = [], ignoreTables = []\<rparr>,
     sy_loopback = \<lparr>ChannelID = 0, LoopbackControl = False, SyncDDL = True\<rparr>\<rparr>"

definition ex_item :: "int \<Rightarrow> int \<Rightarrow> Job binlogItem" where
  "ex_item start commit = newBinlogItem \<lparr>Tp = Commit, StartTs = start, CommitTs = commit, PrewriteKey = [], PrewriteValue = [], DdlQuery = [], DdlJobId = 0,
     DdlSchemaState = 0\<rparr> ''pump''"

definition ex_ccfg :: cp_config where
  "ex_ccfg = \<lparr>CheckpointType = ''file'', Db = None, cfg_Schema = [], cfg_Table = [], cfg_ClusterID = 0, cfg_InitialCommitTS = 3, CheckPointFile = ''savepoint''\<rparr>"

definition ex_world :: cp_world where
  "ex_world = \<lparr>w_toml = unary_toml, w_dir = [], w_rand = [''1'', ''2''], w_io = [], w_rows = [], w_sql = []\<rparr>"

definition ex_cp :: CheckPoint where
  "ex_cp = FileCP \<lparr>cp_closed = False, initialCommitTS = 3, ConsistentSaved = False, CommitTS = 3, Version = 0, fc_name = ''savepoint''\<rparr>"

definition ex_schema :: Schema where
  "ex_schema = (NewSchema [] False)\<lparr>tableIDToName := [1 \<mapsto> \<lparr>tn_Schema = ''d'', tn_Table = ''t''\<rparr>]\<rparr>"

definition ex_s0 :: syncer where
  "ex_s0 = \<lparr>sy_schema = ex_schema, sy_cp = ex_cp, sy_world = ex_world, handed = [], lastSuccessTS = 0, fakeBinlogs = [], pushFake = None, fakeBinlogCh = [],
     lastDDLSchemaVersion = 0, lastAddCommitTS = 0, lastFakeCommitTime = None, lastSaveTS = 0, latestVersion = 0, lastSaveTime = 0\<rparr>"

lemma ex_start:
  "NewCheckPoint ex_ccfg ex_world = (Inr ex_cp, ex_world)" "cp_ok (ex_cp, ex_world)" "int64_range (cp_TS ex_cp)" "cp_TS ex_cp = 3"
  "run_start ex_schema ex_cp ex_world 0 = Inr ex_s0" "prewrite_int64 ex_deps"
  by (simp_all add: NewCheckPoint_def ex_ccfg_def ex_world_def ex_cp_def NewFile_def fc_Load_def w_io_next_def or_initial_def cp_ok_def fc_ok_def unary_toml_law
      int64_range_def run_start_def ex_s0_def ex_schema_def NewSchema_def handlePreviousDDLJobIfNeed_def prewrite_int64_def ex_deps_def)

definition ex_handed :: Item where
  "ex_handed = (zero_item (bi_binlog (ex_item 9 10)))\<lparr>it_PrewriteValue :=
     Some \<lparr>pv_SchemaVersion = 0, Mutations = [\<lparr>TableId = 1, InsertedRows = [], UpdatedRows = [], DeletedRows = [], Sequence = []\<rparr>]\<rparr>\<rparr>"

lemma ex_input: "run_input ex_deps ex_cfg (ex_item 9 10) None ex_s0 = Some (Continue (ex_s0\<lparr>lastAddCommitTS := 10, handed := [ex_handed]\<rparr>))"
  by (simp add: run_input_def ex_cfg_def ex_item_def newBinlogItem_def isIgnoreTxnCommitTS_def run_dml_def ex_deps_def rewriteForOldVersion_def ex_s0_def ex_schema_def
      NewSchema_def IsTruncateTableID_def handlePreviousDDLJobIfNeed_def skipDMLEvent_def SchemaAndTableName_def SkipSchemaAndTable_def allowFilter_def blockFilter_def
      sync_item_def Let_def ex_handed_def zero_item_def)

definition ex_s1 :: syncer where
  "ex_s1 = ex_s0\<lparr>lastAddCommitTS := 10, handed := [ex_handed]\<rparr>"

lemma ex_success:
  obtains s where "success_step 0 (ex_handed\<lparr>it_AppliedTS := 5\<rparr>) ex_s1 = (True, s)" "handed s = [ex_handed]" "fakeBinlogCh s = []" "handle_end s = (True, s)"
    "fst (run_end None None s) = None" "arm_fake s = s"
  by (simp add: success_step_def ex_handed_def ex_s1_def ex_s0_def zero_item_def ex_item_def newBinlogItem_def raise_success_def maybe_save_def savePoint_def sy_Save_def
      ex_cp_def ex_world_def fc_Save_def set_saved_def WriteFileAtomic_def w_io_next_def unary_toml_def Let_def handle_end_def run_end_def arm_fake_def)

lemma ex_run:
  assumes "success_step 0 (ex_handed\<lparr>it_AppliedTS := 5\<rparr>) ex_s1 = (True, s)"
  shows "sys_reach ex_deps ex_cfg ex_s0 \<lparr>sys_s = s, run_phase = AtTop, received = [ex_item 9 10], acked = [ex_handed]\<rparr>"
proof -
  let ?y = "\<lambda>s p bs as. \<lparr>sys_s = s, run_phase = p, received = bs, acked = as\<rparr>"
  have arm: "arm_fake ex_s0 = ex_s0" by (simp add: arm_fake_def ex_s0_def)
  have "sys_reach ex_deps ex_cfg ex_s0 (?y ex_s0 AtTop [] [])" by (rule sys_reach.start)
  from sys_reach.step [OF this sys_step.loop_top] arm have "sys_reach ex_deps ex_cfg ex_s0 (?y ex_s0 InSelect [] [])" by simp
  from sys_reach.step [OF this sys_step.input [of _ _ _ "ex_item 9 10" None]] ex_input
  have "sys_reach ex_deps ex_cfg ex_s0 (?y ex_s1 AtTop [ex_item 9 10] [])" by (simp add: ex_s1_def)
  from sys_reach.step [OF this sys_step.success [of _ ex_handed "[]" 5 _ _ 0]] assms show ?thesis
    by (simp add: ex_s1_def int64_range_def or_exit_def)
qed

lemma ex_arrive: "arrive_in_order (cp_TS ex_cp) [ex_item 9 10]"
  by (simp add: arrive_in_order_def ex_start item_int64_def ex_item_def newBinlogItem_def GetCommitTs_def int64_range_def)



theorem fake_not_stuck_witness:
  "\<exists>s b. run_input ex_deps ex_cfg (ex_item 10 10) None ex_s0 = Some (Continue s) \<and> fakeBinlogs s \<noteq> [] \<and> pushFake s = None \<and> pushFake (arm_fake s) = Some b"
proof -
  let ?b = "bi_binlog (ex_item 10 10)" and ?s = "ex_s0\<lparr>lastFakeCommitTime := Some 10, fakeBinlogs := [(bi_binlog (ex_item 10 10), 0)]\<rparr>"
  let ?y = "\<lambda>s p bs. \<lparr>sys_s = s, run_phase = p, received = bs, acked = []\<rparr>"
  have i: "run_input ex_deps ex_cfg (ex_item 10 10) None ex_s0 = Some (Continue ?s)"
    by (simp add: run_input_def ex_cfg_def ex_item_def newBinlogItem_def isIgnoreTxnCommitTS_def appendFakeBinlogIfNeeded_def ex_deps_def ex_s0_def Let_def)
  have arm: "arm_fake ex_s0 = ex_s0" by (simp add: arm_fake_def ex_s0_def)
  have "sys_reach ex_deps ex_cfg ex_s0 (?y ex_s0 AtTop [])" by (rule sys_reach.start)
  from sys_reach.step [OF this sys_step.loop_top] arm have "sys_reach ex_deps ex_cfg ex_s0 (?y ex_s0 InSelect [])" by simp
  from sys_reach.step [OF this sys_step.input [of _ _ _ "ex_item 10 10" None]] i have r: "sys_reach ex_deps ex_cfg ex_s0 (?y ?s AtTop [ex_item 10 10])" by simp
  have "arrive_in_order (cp_TS ex_cp) [ex_item 10 10]"
    by (simp add: arrive_in_order_def ex_start item_int64_def ex_item_def newBinlogItem_def GetCommitTs_def int64_range_def)
  with fake_not_stuck [OF ex_start(1-3,5,6) r, of ?b 0 "[]"] have "pushFake (arm_fake ?s) = Some ?b" by (simp add: ex_s0_def)
  with i show ?thesis by (intro exI [of _ ?s] exI [of _ ?b]) (simp add: ex_s0_def)
qed

end
