(* ===== verification/SyncerFilter.thy ===== *)
theory SyncerFilter
  imports SyncerProps
begin

text \<open>
  The filter of rows. \<^verbatim>\<open>skipDMLEvent\<close> compacts four parallel arrays in place; the rows that are left are the rows of the mutation that the event filter lets pass,
  in their order.
\<close>

section \<open>One array\<close>

text \<open>\<open>pick\<close> gives the entry of a row in the array, if it has one. The first \<open>dst\<close> entries are those of the rows kept so far, and from \<open>src\<close> on the array still
  holds the entries of the rows to come.\<close>

definition array_inv :: "('r \<Rightarrow> 'a option) \<Rightarrow> ('r \<Rightarrow> bool) \<Rightarrow> 'r list \<Rightarrow> 'r list \<Rightarrow> nat \<Rightarrow> nat \<Rightarrow> 'a list \<Rightarrow> bool" where
  "array_inv pick keep seen todo dst src xs \<longleftrightarrow>
     dst = length (List.map_filter pick (filter keep seen)) \<and> src = length (List.map_filter pick seen) \<and> src \<le> length xs \<and>
     take dst xs = List.map_filter pick (filter keep seen) \<and> (\<exists>extra. drop src xs = List.map_filter pick todo @ extra)"

lemma map_filter_append: "List.map_filter f (xs @ ys) = List.map_filter f xs @ List.map_filter f ys"
  by (simp add: map_filter_def)

lemma length_map_filter_filter: "length (List.map_filter f (filter p xs)) \<le> length (List.map_filter f xs)"
  by (induction xs) (auto simp: map_filter_simps split: option.splits)

lemma array_taken: "array_inv pick keep seen todo dst src xs \<Longrightarrow> take dst xs = List.map_filter pick (filter keep seen)"
  unfolding array_inv_def by blast

lemma array_other:
  assumes "array_inv pick keep seen (x # todo) dst src xs" "pick x = None"
  shows "array_inv pick keep (seen @ [x]) todo dst src xs"
  using assms by (auto simp: array_inv_def map_filter_append map_filter_simps)

lemma array_next:
  assumes "array_inv pick keep seen (x # todo) dst src xs" "pick x = Some a"
  shows "src < length xs" "xs ! src = a" "dst \<le> src" "\<exists>extra. drop (Suc src) xs = List.map_filter pick todo @ extra"
proof -
  obtain extra where "drop src xs = a # List.map_filter pick todo @ extra" using assms by (auto simp: array_inv_def map_filter_simps)
  from drop_eq_ConsD [OF this] show "src < length xs" "xs ! src = a" "\<exists>extra. drop (Suc src) xs = List.map_filter pick todo @ extra" by auto
  show "dst \<le> src" using assms length_map_filter_filter [of pick keep seen] by (simp add: array_inv_def)
qed

lemma array_drop:
  assumes "array_inv pick keep seen (x # todo) dst src xs" "pick x = Some a" "\<not> keep x"
  shows "array_inv pick keep (seen @ [x]) todo dst (Suc src) xs"
  using assms array_next [OF assms(1,2)] by (auto simp: array_inv_def map_filter_append map_filter_simps)

lemma array_keep:
  assumes "array_inv pick keep seen (x # todo) dst src xs" "pick x = Some a" "keep x"
  shows "array_inv pick keep (seen @ [x]) todo (Suc dst) (Suc src) (xs[dst := a])"
proof -
  note n = array_next [OF assms(1,2)]
  have "take (Suc dst) (xs[dst := a]) = take dst xs @ [a]" using n(1,3) by (simp add: take_Suc_conv_app_nth)
  with assms n show ?thesis by (auto simp: array_inv_def map_filter_append map_filter_simps)
qed

section \<open>All four\<close>

definition row_of :: "MutationType \<Rightarrow> MutationType \<times> bytes \<Rightarrow> bytes option" where
  "row_of tp x = (if fst x = tp then Some (snd x) else None)"

definition compact_inv :: "(MutationType \<times> bytes \<Rightarrow> bool) \<Rightarrow> int \<Rightarrow> (MutationType \<times> bytes) list \<Rightarrow> (MutationType \<times> bytes) list \<Rightarrow> compaction \<Rightarrow> bool" where
  "compact_inv keep i seen todo st \<longleftrightarrow>
     TableId (c_mut st) = i \<and>
     array_inv (Some \<circ> fst) keep seen todo (filteredIdx st) (length seen) (Sequence (c_mut st)) \<and>
     array_inv (row_of MutInsert) keep seen todo (filteredInsertIdx st) (c_insertIdx st) (InsertedRows (c_mut st)) \<and>
     array_inv (row_of MutUpdate) keep seen todo (filteredUpdateIdx st) (c_updateIdx st) (UpdatedRows (c_mut st)) \<and>
     array_inv (row_of MutDeleteRow) keep seen todo (filteredDeleteIdx st) (c_deleteIdx st) (DeletedRows (c_mut st))"

text \<open>The decision of the event filter for each type of row.\<close>

definition decides :: "(EventType \<Rightarrow> go_error + bool) \<Rightarrow> (MutationType \<times> bytes \<Rightarrow> bool) \<Rightarrow> bool" where
  "decides skip keep \<longleftrightarrow> (\<forall>tp et r. event_of tp = Inr et \<longrightarrow> skip et = Inr (\<not> keep (tp, r)))"

lemma compact_step_inv:
  assumes "compact_inv keep i seen ((tp, r) # todo) st" "decides skip keep" "event_of tp = Inr et"
  shows "\<exists>st'. compact_step skip (length seen) st = Inr st' \<and> compact_inv keep i (seen @ [(tp, r)]) todo st'"
proof -
  have seqn: "Sequence (c_mut st) ! length seen = tp"
    using array_next(2) [of "Some \<circ> fst" keep seen "(tp, r)" todo "filteredIdx st" "length seen" "Sequence (c_mut st)" tp] assms(1)
    by (simp add: compact_inv_def)
  have skip: "skip et = Inr (\<not> keep (tp, r))" using assms(2,3) by (simp add: decides_def)
  have arrays: "TableId (c_mut st) = i"
    "array_inv (Some \<circ> fst) keep seen ((tp, r) # todo) (filteredIdx st) (length seen) (Sequence (c_mut st))"
    "array_inv (row_of MutInsert) keep seen ((tp, r) # todo) (filteredInsertIdx st) (c_insertIdx st) (InsertedRows (c_mut st))"
    "array_inv (row_of MutUpdate) keep seen ((tp, r) # todo) (filteredUpdateIdx st) (c_updateIdx st) (UpdatedRows (c_mut st))"
    "array_inv (row_of MutDeleteRow) keep seen ((tp, r) # todo) (filteredDeleteIdx st) (c_deleteIdx st) (DeletedRows (c_mut st))"
    using assms(1) by (simp_all add: compact_inv_def)
  have sq: "array_inv (Some \<circ> fst) keep (seen @ [(tp, r)]) todo (if keep (tp, r) then Suc (filteredIdx st) else filteredIdx st) (Suc (length seen))
      (if keep (tp, r) then (Sequence (c_mut st))[filteredIdx st := tp] else Sequence (c_mut st))"
    using array_drop [OF arrays(2), of tp] array_keep [OF arrays(2), of tp] by simp
  have own: "src < length xs \<and> xs ! src = r \<and>
      array_inv (row_of tp) keep (seen @ [(tp, r)]) todo (if keep (tp, r) then Suc dst else dst) (Suc src) (if keep (tp, r) then xs[dst := r] else xs)"
    if "array_inv (row_of tp) keep seen ((tp, r) # todo) dst src xs" for dst src xs
    using array_next(1,2) [OF that, of r] array_drop [OF that, of r] array_keep [OF that, of r] by (simp add: row_of_def)
  have other: "array_inv (row_of tp') keep (seen @ [(tp, r)]) todo dst src xs"
    if "array_inv (row_of tp') keep seen ((tp, r) # todo) dst src xs" "tp \<noteq> tp'" for tp' dst src xs
    using array_other [OF that(1)] that(2) by (simp add: row_of_def)
  show ?thesis
  proof (cases tp)
    case MutInsert
    show ?thesis using MutInsert seqn skip assms(3) arrays(1) sq own [unfolded MutInsert, OF arrays(3) [unfolded MutInsert]] other [OF arrays(4)] other [OF arrays(5)]
      by (cases "keep (tp, r)") (simp_all add: compact_step_def event_of_def move_row_def compact_inv_def Let_def)
  next
    case MutUpdate
    show ?thesis using MutUpdate seqn skip assms(3) arrays(1) sq own [unfolded MutUpdate, OF arrays(4) [unfolded MutUpdate]] other [OF arrays(3)] other [OF arrays(5)]
      by (cases "keep (tp, r)") (simp_all add: compact_step_def event_of_def move_row_def compact_inv_def Let_def)
  next
    case MutDeleteRow
    show ?thesis using MutDeleteRow seqn skip assms(3) arrays(1) sq own [unfolded MutDeleteRow, OF arrays(5) [unfolded MutDeleteRow]] other [OF arrays(3)] other [OF arrays(4)]
      by (cases "keep (tp, r)") (simp_all add: compact_step_def event_of_def move_row_def compact_inv_def Let_def)
  next
    case (MutOther n)
    then show ?thesis using assms(3) by (simp add: event_of_def)
  qed
qed

lemma compact_loop_inv:
  assumes "compact_inv keep i seen todo st" "decides skip keep" "\<forall>x\<in>set todo. \<exists>et. event_of (fst x) = Inr et"
  shows "\<exists>st'. compact_loop skip [length seen..<length seen + length todo] st = Inr st' \<and> compact_inv keep i (seen @ todo) [] st'"
  using assms(1,3)
proof (induction todo arbitrary: seen st)
  case Nil
  then show ?case by simp
next
  case (Cons x todo)
  obtain tp r et where x: "x = (tp, r)" "event_of tp = Inr et" using Cons.prems(2) by (cases x) auto
  from compact_step_inv [OF Cons.prems(1) [unfolded x(1)] assms(2) x(2)] obtain st1
    where st1: "compact_step skip (length seen) st = Inr st1" "compact_inv keep i (seen @ [x]) todo st1" by (auto simp: x(1))
  have range: "[length seen..<length seen + length (x # todo)] = length seen # [length (seen @ [x])..<length (seen @ [x]) + length todo]"
    by (simp add: upt_conv_Cons del: upt_Suc)
  show ?case using Cons.IH [OF st1(2)] Cons.prems(2) st1(1) unfolding range by (simp del: upt_Suc)
qed

section \<open>The rows that are left\<close>

lemma event_of_row [simp]: "event_of MutInsert = Inr InsertEvent" "event_of MutUpdate = Inr UpdateEvent" "event_of MutDeleteRow = Inr DeleteEvent"
  by (simp_all add: event_of_def)

lemma seq_rows_parts:
  "seq_rows tps ins upd del = Some rows \<Longrightarrow> tps = map fst rows \<and> (\<exists>e. ins = List.map_filter (row_of MutInsert) rows @ e) \<and>
     (\<exists>e. upd = List.map_filter (row_of MutUpdate) rows @ e) \<and> (\<exists>e. del = List.map_filter (row_of MutDeleteRow) rows @ e) \<and>
     (\<forall>x\<in>set rows. \<exists>et. event_of (fst x) = Inr et)"
proof (induction rows arbitrary: tps ins upd del)
  case Nil
  then show ?case by (auto simp: map_filter_simps dest: seq_rows_NilD)
next
  case (Cons x rows)
  from Cons.prems show ?case
  proof (cases rule: seq_rows_ConsE)
    case (1 tps' r ins')
    then show ?thesis using Cons.IH [OF 1(4)] by (simp add: row_of_def)
  next
    case (2 tps' r upd')
    then show ?thesis using Cons.IH [OF 2(4)] by (simp add: row_of_def)
  next
    case (3 tps' r del')
    then show ?thesis using Cons.IH [OF 3(4)] by (simp add: row_of_def)
  qed
qed

lemma seq_rows_exact:
  "\<forall>x\<in>set rows. \<exists>et. event_of (fst x) = Inr et \<Longrightarrow>
   seq_rows (map fst rows) (List.map_filter (row_of MutInsert) rows) (List.map_filter (row_of MutUpdate) rows) (List.map_filter (row_of MutDeleteRow) rows) = Some rows"
proof (induction rows)
  case (Cons x rows)
  then show ?case by (cases x; cases "fst x") (auto simp: map_filter_simps row_of_def event_of_def)
qed (simp add: map_filter_simps)

lemma map_filter_fst: "List.map_filter (Some \<circ> fst) xs = map fst xs"
  by (simp add: map_filter_def comp_def)

lemma compact_rows:
  assumes "mutation_rows m = Some rows" "decides skip keep"
  shows "\<exists>m'. compact skip m = Inr m' \<and> TableId m' = TableId m \<and> mutation_rows m' = Some (filter keep rows)"
proof -
  let ?st = "\<lparr>c_mut = m, c_insertIdx = 0, c_deleteIdx = 0, c_updateIdx = 0, filteredIdx = 0, filteredInsertIdx = 0, filteredDeleteIdx = 0, filteredUpdateIdx = 0\<rparr>"
  note parts = seq_rows_parts [OF assms(1) [unfolded mutation_rows_def]]
  have "compact_inv keep (TableId m) [] rows ?st"
    using parts by (auto simp: compact_inv_def array_inv_def map_filter_simps map_filter_fst)
  from compact_loop_inv [OF this assms(2)] parts obtain st'
    where st': "compact_loop skip [0..<length rows] ?st = Inr st'" "compact_inv keep (TableId m) rows [] st'" by auto
  have len: "length (Sequence m) = length rows" using parts by simp
  have ev: "\<forall>x\<in>set (filter keep rows). \<exists>et. event_of (fst x) = Inr et" using parts by simp
  have takes: "take (filteredIdx st') (Sequence (c_mut st')) = map fst (filter keep rows)"
    "take (filteredInsertIdx st') (InsertedRows (c_mut st')) = List.map_filter (row_of MutInsert) (filter keep rows)"
    "take (filteredUpdateIdx st') (UpdatedRows (c_mut st')) = List.map_filter (row_of MutUpdate) (filter keep rows)"
    "take (filteredDeleteIdx st') (DeletedRows (c_mut st')) = List.map_filter (row_of MutDeleteRow) (filter keep rows)"
    using st'(2) array_taken unfolding compact_inv_def map_filter_fst [symmetric] by blast+
  have "mutation_rows ((c_mut st')\<lparr>Sequence := take (filteredIdx st') (Sequence (c_mut st')), InsertedRows := take (filteredInsertIdx st') (InsertedRows (c_mut st')),
      UpdatedRows := take (filteredUpdateIdx st') (UpdatedRows (c_mut st')), DeletedRows := take (filteredDeleteIdx st') (DeletedRows (c_mut st'))\<rparr>) = Some (filter keep rows)"
    unfolding mutation_rows_def using seq_rows_exact [OF ev] by (simp add: takes)
  then show ?thesis using st' by (auto simp: compact_def len compact_inv_def)
qed

text \<open>What a row must satisfy to be replicated: the event filter, if there is one, lets its type pass for its table.\<close>

definition keeps :: "event_filter option \<Rightarrow> string \<Rightarrow> string \<Rightarrow> MutationType \<times> bytes \<Rightarrow> bool" where
  "keeps bf sch tbl x =
     (case bf of None \<Rightarrow> True | Some f \<Rightarrow> (case event_of (fst x) of Inl _ \<Rightarrow> True | Inr et \<Rightarrow> f sch tbl et [] = Inr Do))"

definition filter_total :: "event_filter option \<Rightarrow> bool" where
  "filter_total bf \<longleftrightarrow> (\<forall>f. bf = Some f \<longrightarrow> (\<forall>sch tbl et sql. \<exists>action. f sch tbl et sql = Inr action))"

lemma keeps_decides:
  assumes "filter_total bf"
  shows "decides (\<lambda>et. skipByFilter bf sch tbl et []) (keeps bf sch tbl)"
proof (cases bf)
  case None
  then show ?thesis by (simp add: decides_def skipByFilter_def keeps_def)
next
  case (Some f)
  have "skipByFilter bf sch tbl et [] = Inr (f sch tbl et [] \<noteq> Inr Do)" for et
  proof -
    obtain a where "f sch tbl et [] = Inr a" using assms Some unfolding filter_total_def by blast
    then show ?thesis using Some by (cases a) (simp_all add: skipByFilter_def)
  qed
  then show ?thesis using Some by (simp add: decides_def keeps_def)
qed

definition table_rows :: "TableMutation \<Rightarrow> int \<times> (MutationType \<times> bytes) list option" where
  "table_rows m = (TableId m, mutation_rows m)"

definition replicated :: "Schema \<Rightarrow> Filter \<Rightarrow> event_filter option \<Rightarrow> TableMutation list \<Rightarrow> (int \<times> (MutationType \<times> bytes) list option) list" where
  "replicated s flt bf ms =
     concat (map (\<lambda>m. case SchemaAndTableName s (TableId m) of
         None \<Rightarrow> []
       | Some (sch, tbl) \<Rightarrow> if SkipSchemaAndTable flt sch tbl then [] else [(TableId m, map_option (filter (keeps bf sch tbl)) (mutation_rows m))]) ms)"

lemma keep_mutations_rows:
  assumes "filter_total bf" "\<forall>m\<in>set ms. SchemaAndTableName s (TableId m) \<noteq> None \<and> mutation_rows m \<noteq> None"
  shows "\<exists>ms'. keep_mutations s flt bf ms = Inr ms' \<and> map table_rows ms' = replicated s flt bf ms"
  using assms(2)
proof (induction ms)
  case Nil
  then show ?case by (simp add: replicated_def)
next
  case (Cons m ms)
  then obtain ms' where ms': "keep_mutations s flt bf ms = Inr ms'" "map table_rows ms' = replicated s flt bf ms" by auto
  obtain sch tbl rows where m: "SchemaAndTableName s (TableId m) = Some (sch, tbl)" "mutation_rows m = Some rows" using Cons.prems by auto
  obtain m' where m': "(if bf = None then Inr m else compact (\<lambda>et. skipByFilter bf sch tbl et []) m) = Inr m'" "TableId m' = TableId m"
    "mutation_rows m' = Some (filter (keeps bf sch tbl) rows)"
  proof (cases bf)
    case None
    then show ?thesis using m(2) that [of m] by (simp add: keeps_def)
  next
    case (Some f)
    then show ?thesis using compact_rows [OF m(2) keeps_decides [OF assms(1), of sch tbl]] that by auto
  qed
  show ?case
  proof (cases "SkipSchemaAndTable flt sch tbl")
    case True
    then show ?thesis using ms' m by (simp add: replicated_def)
  next
    case False
    moreover have "table_rows m' = (TableId m, map_option (filter (keeps bf sch tbl)) (mutation_rows m))" by (simp add: table_rows_def m m')
    ultimately show ?thesis using ms' m m'(1) by (simp add: replicated_def)
  qed
qed

text \<open>C16. The filters keep exactly the rows they should: of the tables that the table filter does not exclude, the rows whose type the event filter lets pass, in the order of
  the transaction, although the code moves them within the arrays that hold them. The transaction is skipped as a whole exactly when every table is excluded.\<close>

theorem dml_filter_exact:
  assumes "filter_total bf" "\<forall>m\<in>set (Mutations pv). SchemaAndTableName s (TableId m) \<noteq> None \<and> mutation_rows m \<noteq> None"
  shows "\<exists>pv'. skipDMLEvent pv s flt bf = Inr (replicated s flt bf (Mutations pv) = [], pv') \<and> pv_SchemaVersion pv' = pv_SchemaVersion pv \<and>
    map table_rows (Mutations pv') = replicated s flt bf (Mutations pv)"
proof -
  obtain ms' where ms': "keep_mutations s flt bf (Mutations pv) = Inr ms'" "map table_rows ms' = replicated s flt bf (Mutations pv)"
    using keep_mutations_rows [OF assms] by blast
  then show ?thesis by (intro exI [of _ "pv\<lparr>Mutations := ms'\<rparr>"]) (auto simp: skipDMLEvent_def)
qed

theorem dml_filter_exact_witness:
  "\<exists>pv'. skipDMLEvent \<lparr>pv_SchemaVersion = 1, Mutations = [\<lparr>TableId = 1, InsertedRows = [[1], [2]], UpdatedRows = [], DeletedRows = [[3]],
       Sequence = [MutInsert, MutDeleteRow, MutInsert]\<rparr>]\<rparr>
     ((NewSchema [] False)\<lparr>tableIDToName := [1 \<mapsto> \<lparr>tn_Schema = ''d'', tn_Table = ''t''\<rparr>]\<rparr>)
     \<lparr>reMap = Map.empty, doDBs = [], doTables = [], ignoreDBs = [], ignoreTables = []\<rparr> (Some (\<lambda>_ _ et _. Inr (if et = DeleteEvent then Ignore else Do))) = Inr (False, pv') \<and>
   map table_rows (Mutations pv') = [(1, Some [(MutInsert, [1]), (MutInsert, [2])])]"
proof -
  let ?m = "\<lparr>TableId = 1, InsertedRows = [[1], [2]], UpdatedRows = [], DeletedRows = [[3]], Sequence = [MutInsert, MutDeleteRow, MutInsert]\<rparr>"
  let ?pv = "\<lparr>pv_SchemaVersion = 1, Mutations = [?m]\<rparr>" and ?s = "(NewSchema [] False)\<lparr>tableIDToName := [1 \<mapsto> \<lparr>tn_Schema = ''d'', tn_Table = ''t''\<rparr>]\<rparr>"
  let ?flt = "\<lparr>reMap = Map.empty, doDBs = [], doTables = [], ignoreDBs = [], ignoreTables = []\<rparr>"
  let ?bf = "Some (\<lambda>_ _ et _. Inr (if et = DeleteEvent then Ignore else Do)) :: event_filter option"
  have total: "filter_total ?bf" by (simp add: filter_total_def)
  have known: "\<forall>m\<in>set (Mutations ?pv). SchemaAndTableName ?s (TableId m) \<noteq> None \<and> mutation_rows m \<noteq> None"
    by (simp add: SchemaAndTableName_def mutation_rows_def)
  have rows: "replicated ?s ?flt ?bf (Mutations ?pv) = [(1, Some [(MutInsert, [1]), (MutInsert, [2])])]"
    by (simp add: replicated_def SchemaAndTableName_def SkipSchemaAndTable_def allowFilter_def blockFilter_def keeps_def event_of_def mutation_rows_def)
  from dml_filter_exact [OF total known, of ?flt] obtain pv' where "skipDMLEvent ?pv ?s ?flt ?bf = Inr (False, pv')"
    "map table_rows (Mutations pv') = [(1, Some [(MutInsert, [1]), (MutInsert, [2])])]" unfolding rows by (elim exE conjE) simp
  then show ?thesis by (intro exI [of _ pv'] conjI)
qed

end
