(* ===== verification/Spec2Isabelle.thy ===== *)
theory Spec2Isabelle
  imports StorageInv Chaser MergeProps SchemaCatalog LoaderFlow BinlogFileProps SyncerInv SyncerFilter
begin

text \<open>
  A verification of TiDB Binlog.

  \<^bold>\<open>The program.\<close> TiDB servers write a binlog for every transaction to a \<^emph>\<open>pump\<close>: a prewrite before the transaction commits and a commit or rollback
  after it. A pump appends every binlog to a value log, files its position in a metadata database under its timestamp, and sorts the commits by
  commit timestamp. A \<^emph>\<open>drainer\<close> pulls the sorted commits of all pumps, merges them into one stream, keeps a copy of the upstream catalogue from the
  DDL jobs in the stream, translates the rows of each transaction to statements, and applies them downstream through the \<^emph>\<open>loader\<close>, or writes them
  to binlog files. It saves the timestamp it has reached in a checkpoint, from which it goes on after a restart.

  \<^bold>\<open>Conventions.\<close> A definition has the name of the Go function it translates where Isabelle allows it. An error result is \<open>go_error + 'a\<close> or
  \<open>go_error option\<close>, a panic is the error \<open>Panic\<close>. Signed 64-bit values are integers, wrapped where an operation can leave the range; unsigned ones and
  bytes are words. A Go map that is iterated over is an association list, whose order is arbitrary; one that is only looked up is a map. A system call or
  a call of the downstream database takes its outcome from a list in the state, so a theorem about all states is one about all patterns of failures.
  Goroutines are step functions or step relations, and every order of their steps is a run. Third-party code (protobuf, goleveldb, TiKV, PD, the SQL
  parser, the row codec of TiDB, the TOML library, the event filter) is an argument of the definitions that call it, and what is relied on is a named predicate.

  \<^bold>\<open>The theories.\<close>

  \<^item> \<open>Prelude\<close>, \<open>Wire\<close>, \<open>Framing\<close>: the shared vocabulary, the messages, and the contract \<open>framed_codec\<close> of a record format.
  \<^item> \<open>LogFile\<close>, \<open>VLog\<close>, \<open>VLogStore\<close> (\<^verbatim>\<open>pump/storage/log.go\<close>, \<^verbatim>\<open>vlog.go\<close>): one log file, then the value log. Written requests read back, scans
    deliver exactly what was written and resynchronise after a corruption, garbage collection and restarts keep what they should. The contract
    \<open>value_store\<close> is interpreted by the value log.
  \<^item> \<open>Sorter\<close> (\<^verbatim>\<open>sorter.go\<close>): under every interleaving commits come out in increasing order, and none before a prewrite it could depend on is settled.
  \<^item> \<open>Storage\<close>, \<open>StorageProps\<close>, \<open>StorageRead\<close>, \<open>StorageInv\<close>, \<open>Chaser\<close> (\<^verbatim>\<open>storage.go\<close>, \<^verbatim>\<open>util.go\<close>, \<^verbatim>\<open>chaser.go\<close>): the storage of a pump.
    Accepted binlogs are found again, garbage collection of the metadata ends and is exact, a pull delivers exactly the commits of its window with their
    prewrites, the published timestamps only grow, and the slow path through the chaser loses nothing, nor does a restart.
  \<^item> \<open>Merge\<close>, \<open>MergeProps\<close> (\<^verbatim>\<open>drainer/merge.go\<close>, \<^verbatim>\<open>binlog_item.go\<close>): the merger with both strategies. Its output is strictly increasing and is the
    merge of its sources.
  \<^item> \<open>TableFilter\<close> (\<^verbatim>\<open>pkg/filter/filter.go\<close>), \<open>DrainerSchema\<close>, \<open>SchemaProps\<close>, \<open>SchemaCatalog\<close> (\<^verbatim>\<open>drainer/schema.go\<close>): the filter decides as its
    lists say; the catalogue stays consistent whatever the jobs are, replaying in rounds is replaying at once, and each DDL job refines one update
    of a plain map.
  \<^item> \<open>Translator\<close>, \<open>TranslatorProps\<close> (\<^verbatim>\<open>drainer/translator\<close>: \<^verbatim>\<open>sequence_iterator.go\<close>, \<^verbatim>\<open>translator.go\<close>, \<^verbatim>\<open>mysql.go\<close>): the rows of a transaction as
    statements of the loader. The iterator delivers the rows in order and an updated row decodes to what was written, with defaults where allowed.
  \<^item> \<open>Checkpoint\<close>, \<open>CheckpointProps\<close> (\<^verbatim>\<open>drainer/checkpoint\<close>): the checkpoint in a file and in a table. The contract \<open>checkpoint_store\<close> (a save leaves
    the old or the new value, and the new one if it reports success) is interpreted on both and on the choice between them.
  \<^item> \<open>Syncer\<close>, \<open>SyncerProps\<close>, \<open>SyncerInv\<close>, \<open>SyncerFilter\<close> (\<^verbatim>\<open>drainer/syncer.go\<close>): the main loop of the drainer. \<open>sys_step\<close> interleaves the loop of
    \<^verbatim>\<open>run\<close>, that of \<^verbatim>\<open>handleSuccess\<close> and a downstream that acknowledges in order, as \<open>LoaderFlow\<close> shows the loader to do. The
    checkpoint never covers an item that is not acknowledged, a clean exit covers all items, fake binlogs do not get stuck, and filtering a
    transaction in place keeps exactly the rows it should.
  \<^item> \<open>LoaderDML\<close>, \<open>LoaderExec\<close>, \<open>LoaderRun\<close> (\<^verbatim>\<open>pkg/loader\<close>): statements, causality, merging, the executor, batches and the main loop. \<open>LoaderMerge\<close>:
    merged statements have the effect of the originals. \<open>LoaderProps\<close>: parallel workers have the effect of a serial execution.
    \<open>LoaderFlow\<close>: transactions are acknowledged in order and only after they ran; its contract \<open>acking\<close> is interpreted on the loader's operations.
  \<^item> \<open>BinlogFile\<close>, \<open>BinlogFileProps\<close> (\<^verbatim>\<open>pkg/binlogfile\<close>): binlog files. What is written, over any number of files, is read back with its positions, and
    garbage collection keeps the later files. The record format interprets \<open>framed_codec\<close>, as that of the value log does.

  \<^bold>\<open>Loops.\<close> A loop is a structural recursion or has a termination proof, with two exceptions that are \<open>partial_function (option)\<close>, None being a run that
  does not end: the loop that splits statements into batches, which does not end for a batch size of zero, and the one that decodes an updated row with the
  third-party codec. The theorems about them show \<open>Some\<close>. The loop over the rows of a mutation takes one more than the length of its sequence as a
  bound, which the proofs show to be enough.

  \<^bold>\<open>Defects.\<close> Where the code does not do what it means to, the behaviour of the code is what is modelled: an unfinished log file can be taken for a finished
  one, a failed rotation misplaces the next record, and the recovery of a commit binlog drops an error; each is a theorem.

  \<^bold>\<open>Not modelled.\<close> The gRPC servers and the registration of pumps and drainers with etcd (\<^verbatim>\<open>pump/server.go\<close>, \<^verbatim>\<open>pump/node.go\<close>, \<^verbatim>\<open>drainer/server.go\<close>,
  \<^verbatim>\<open>drainer/collector.go\<close>, \<^verbatim>\<open>drainer/pump.go\<close>), which mostly wait on connections and timers; configuration, flags, logging, metrics and command line
  tools; the translators and writers for Kafka and protobuf files and the relay log (\<^verbatim>\<open>drainer/translator/kafka.go\<close>, \<^verbatim>\<open>pb.go\<close>, \<^verbatim>\<open>drainer/sync\<close>,
  \<^verbatim>\<open>drainer/relay\<close>), so the downstream of the syncer is its interface; reparo and arbiter, which feed the loader from files and from Kafka; generated
  protobuf code; and the programs under \<^verbatim>\<open>tests\<close>.
\<close>

end
